(* ===== verification/Tcp_Prelude.thy ===== *)
theory Tcp_Prelude
  imports Main "HOL-Library.Word" "HOL-Library.Signed_Division"
begin

unbundle bit_operations_syntax

text \<open>
  Shared vocabulary of the development: the machine types the C sources use, the outcome
  of a C call (a value, or an error that says why no value is produced), bounded memory
  blocks with checked reads and writes, the byte order functions of the standard library
  on the little-endian hosts the program is built for, and the generic lemmas on lists,
  options and words that the component theories share.
\<close>

section \<open>Machine types\<close>

type_synonym u8 = "8 word"
type_synonym u16 = "16 word"
type_synonym u32 = "32 word"
type_synonym u64 = "64 word"
type_synonym bytes = "8 word list"

text \<open>A pointer is an address; the address 0 is \<open>NULL\<close>.\<close>

type_synonym ptr = nat

abbreviation NULL :: ptr where
  "NULL \<equiv> 0"

text \<open>
  Collections: \<open>step_defs\<close> gathers the definitions that a proof about one call unfolds,
  \<open>outcome_simps\<close> the rules that evaluate the error plumbing.
\<close>

named_theorems outcome_simps \<open>evaluation of calls that may fail\<close>
named_theorems heap_simps \<open>reads after writes of the modelled C heap\<close>

section \<open>Outcomes of a C call\<close>

text \<open>
  What can go wrong when the C code runs: undefined behaviour of one of five kinds, a
  call of \<open>exit\<close> or \<open>abort\<close>, or a wait that cannot end (a lock that is never released, a busy wait
  whose condition no other thread changes).
\<close>

datatype fault =
    OutOfBounds    \<comment> \<open>a read or write outside an allocated object\<close>
  | BadPointer     \<comment> \<open>a NULL, freed or never initialised pointer is dereferenced\<close>
  | Overlap        \<comment> \<open>\<open>memcpy\<close> between overlapping regions\<close>
  | Uninitialised  \<comment> \<open>a variable is read that no branch has assigned\<close>
  | BadConversion  \<comment> \<open>an arithmetic operation or conversion whose result does not fit\<close>

datatype error = Undefined fault | Exit int | Blocked | Abort

type_synonym 'a outcome = "error + 'a"

definition bindE :: "'e + 'a \<Rightarrow> ('a \<Rightarrow> 'e + 'b) \<Rightarrow> 'e + 'b" where
  "bindE m f = (case m of Inl e \<Rightarrow> Inl e | Inr x \<Rightarrow> f x)"

definition requireE :: "bool \<Rightarrow> 'e \<Rightarrow> 'e + unit" where
  "requireE b e = (if b then Inr () else Inl e)"

definition derefE :: "'a option \<Rightarrow> 'a outcome" where
  "derefE x = (case x of None \<Rightarrow> Inl (Undefined BadPointer) | Some v \<Rightarrow> Inr v)"

lemma bindE_simps [simp, outcome_simps]:
  "bindE (Inl e) f = Inl e"
  "bindE (Inr x) f = f x"
  by (simp_all add: bindE_def)

lemma requireE_simps [simp, outcome_simps]:
  "requireE True e = Inr ()"
  "requireE False e = Inl e"
  by (simp_all add: requireE_def)

lemma derefE_simps [simp, outcome_simps]:
  "derefE (Some v) = Inr v"
  "derefE None = Inl (Undefined BadPointer)"
  by (simp_all add: derefE_def)

lemma bindE_cong [fundef_cong]:
  "m = m' \<Longrightarrow> (\<And>x. m' = Inr x \<Longrightarrow> f x = f' x) \<Longrightarrow> bindE m f = bindE m' f'"
  by (cases m') auto

lemma bindE_eq_Inr_iff: "bindE m f = Inr y \<longleftrightarrow> (\<exists>x. m = Inr x \<and> f x = Inr y)"
  by (cases m) simp_all

lemma bindE_eq_Inl_iff: "bindE m f = Inl e \<longleftrightarrow> m = Inl e \<or> (\<exists>x. m = Inr x \<and> f x = Inl e)"
  by (cases m) simp_all

lemma bindE_InrE [elim!]:
  assumes "bindE m f = Inr y"
  obtains x where "m = Inr x" and "f x = Inr y"
  using assms by (auto simp: bindE_eq_Inr_iff)

lemma requireE_eq_Inr_iff [simp]: "requireE b e = Inr u \<longleftrightarrow> b"
  by (simp add: requireE_def)

lemma derefE_eq_Inr_iff [simp]: "derefE x = Inr v \<longleftrightarrow> x = Some v"
  by (cases x) simp_all

lemma bindE_assoc: "bindE (bindE m f) g = bindE m (\<lambda>x. bindE (f x) g)"
  by (cases m) simp_all

text \<open>A call returns, whatever its value.\<close>

definition returns :: "'e + 'a \<Rightarrow> bool" where
  "returns m \<longleftrightarrow> (\<exists>x. m = Inr x)"

lemma returns_simps [simp]: "returns (Inr x)" "\<not> returns (Inl e)"
  by (simp_all add: returns_def)

section \<open>Memory blocks\<close>

text \<open>
  A block is what one \<open>malloc\<close> returned: a list of bytes whose length is its size.
  \<open>mem_read blk off n\<close> and \<open>mem_write blk off bs\<close> are the two halves of a
  \<open>memcpy\<close>; both are undefined outside the block.
\<close>

definition mem_read :: "bytes \<Rightarrow> nat \<Rightarrow> nat \<Rightarrow> bytes outcome" where
  "mem_read blk off n =
     (if off + n \<le> length blk then Inr (take n (drop off blk))
      else Inl (Undefined OutOfBounds))"

definition mem_write :: "bytes \<Rightarrow> nat \<Rightarrow> bytes \<Rightarrow> bytes outcome" where
  "mem_write blk off bs =
     (if off + length bs \<le> length blk
      then Inr (take off blk @ bs @ drop (off + length bs) blk)
      else Inl (Undefined OutOfBounds))"

lemma mem_read_eq_Inr_iff:
  "mem_read blk off n = Inr bs \<longleftrightarrow> off + n \<le> length blk \<and> bs = take n (drop off blk)"
  by (auto simp: mem_read_def)

lemma mem_write_eq_Inr_iff:
  "mem_write blk off bs = Inr blk' \<longleftrightarrow>
     off + length bs \<le> length blk \<and> blk' = take off blk @ bs @ drop (off + length bs) blk"
  by (auto simp: mem_write_def)

text \<open>Memory accesses never end the program by \<open>exit\<close>.\<close>

lemma no_exit [simp]:
  "mem_read blk off n \<noteq> Inl (Exit i)" "mem_write blk off bs \<noteq> Inl (Exit i)" "derefE x \<noteq> Inl (Exit i)"
  by (simp_all add: mem_read_def mem_write_def derefE_def split: option.split)

lemma mem_write_length: "mem_write blk off bs = Inr blk' \<Longrightarrow> length blk' = length blk"
  by (auto simp: mem_write_eq_Inr_iff)

lemma take_mem_write:
  "mem_write blk off bs = Inr blk' \<Longrightarrow> n \<le> off \<Longrightarrow> take n blk' = take n blk"
  by (auto simp: mem_write_eq_Inr_iff min_def)

lemma take_mem_write_end:
  assumes "mem_write blk off bs = Inr blk'"
  shows "take (off + length bs) blk' = take off blk @ bs"
proof -
  from assms have le: "off + length bs \<le> length blk"
    and blk': "blk' = take off blk @ bs @ drop (off + length bs) blk"
    by (simp_all add: mem_write_eq_Inr_iff)
  from le have "length (take off blk @ bs) = off + length bs"
    by simp
  then have "take (off + length bs) ((take off blk @ bs) @ drop (off + length bs) blk)
      = take off blk @ bs"
    by (metis append_eq_conv_conj)
  then show ?thesis
    by (simp add: blk')
qed

text \<open>Writing the next field right behind what was written before.\<close>

lemma mem_write_append_zeros:
  assumes "length bs \<le> n"
  shows "mem_write (pre @ replicate n z) (length pre) bs
    = Inr ((pre @ bs) @ replicate (n - length bs) z)"
  using assms by (simp add: mem_write_def)

section \<open>C integer conversions\<close>

text \<open>
  Conversions to an unsigned type wrap (C11 6.3.1.3); conversions of an unsigned value
  to a signed type of the same width, implementation defined in C, are two's complement
  in gcc. Values of type \<open>int\<close> are HOL integers.
\<close>

definition to_u16 :: "int \<Rightarrow> u16" where
  "to_u16 i = word_of_int i"

definition to_u32 :: "int \<Rightarrow> u32" where
  "to_u32 i = word_of_int i"

definition to_u8 :: "int \<Rightarrow> u8" where
  "to_u8 i = word_of_int i"

definition i32 :: "int \<Rightarrow> int" where
  "i32 i = sint (word_of_int i :: u32)"

lemma to_u16_uint: "uint (to_u16 i) = i mod 65536"
  by (simp add: to_u16_def uint_word_of_int)

lemma to_u32_uint: "uint (to_u32 i) = i mod 4294967296"
  by (simp add: to_u32_def uint_word_of_int)

lemma i32_id: "- (2 ^ 31) \<le> i \<Longrightarrow> i < 2 ^ 31 \<Longrightarrow> i32 i = i"
  by (simp add: i32_def signed_of_int signed_take_bit_int_eq_self)

lemma i32_range: "- (2 ^ 31) \<le> i32 i \<and> i32 i < 2 ^ 31"
  using sint_range_size [of "word_of_int i :: u32"] by (simp add: i32_def word_size)

lemma sint_small: "unat x < 2 ^ 31 \<Longrightarrow> sint x = int (unat x)" for x :: u32
proof -
  assume "unat x < 2 ^ 31"
  then have "unat x < 2147483648"
    by simp
  then have "uint x < 2147483648"
    unfolding uint_nat by linarith
  then have "i32 (uint x) = uint x"
    using order_trans [OF _ uint_ge_0 [of x]] by (intro i32_id) simp_all
  then show ?thesis
    by (simp add: i32_def)
qed

lemma nat_uint_diff [simp]: "nat (uint a - uint b) = unat a - unat b"
  for a b :: "'a :: len word"
  by (metis nat_diff_distrib' unat_eq_nat_uint uint_ge_0)

lemma uint_less_uint [simp]: "uint a < uint b \<longleftrightarrow> a < b"
  for a b :: "'a :: len word"
  by (simp add: word_less_def)

lemma ucast_add_u16: "(ucast (a + b :: u32) :: u16) = ucast a + ucast b"
proof transfer
  fix a b :: int
  have "take_bit 16 (take_bit 32 a + take_bit 32 b)
      = take_bit 16 (take_bit 16 (take_bit 32 a) + take_bit 16 (take_bit 32 b))"
    by (simp only: take_bit_add)
  also have "\<dots> = take_bit 16 (take_bit 16 a + take_bit 16 b)"
    by (simp add: take_bit_take_bit)
  also have "\<dots> = take_bit 16 (a + b)"
    by (simp only: take_bit_add)
  finally show "take_bit LENGTH(16) (take_bit LENGTH(32) (a + b))
      = take_bit LENGTH(16) (take_bit LENGTH(32) a + take_bit LENGTH(32) b)"
    by (simp add: take_bit_take_bit)
qed

section \<open>Byte order\<close>

text \<open>
  The hosts are little-endian: \<open>bytes16 w\<close> and \<open>bytes32 w\<close> are the bytes of an object
  of type \<open>uint16_t\<close> or \<open>uint32_t\<close> as \<open>memcpy\<close> sees them, \<open>word16\<close> and \<open>word32\<close> read
  them back, and \<open>htons\<close>, \<open>htonl\<close> reverse the bytes.
\<close>

definition bytes16 :: "u16 \<Rightarrow> bytes" where
  "bytes16 w = [ucast w, ucast (drop_bit 8 w)]"

definition bytes32 :: "u32 \<Rightarrow> bytes" where
  "bytes32 w = [ucast w, ucast (drop_bit 8 w), ucast (drop_bit 16 w), ucast (drop_bit 24 w)]"

fun word8 :: "bytes \<Rightarrow> u8" where
  "word8 [b] = b"
| "word8 _ = 0"

fun word16 :: "bytes \<Rightarrow> u16" where
  "word16 [b0, b1] = ucast b0 OR push_bit 8 (ucast b1)"
| "word16 _ = 0"

fun word32 :: "bytes \<Rightarrow> u32" where
  "word32 [b0, b1, b2, b3] =
     ucast b0 OR push_bit 8 (ucast b1) OR push_bit 16 (ucast b2) OR push_bit 24 (ucast b3)"
| "word32 _ = 0"

definition htons :: "u16 \<Rightarrow> u16" where
  "htons w = word16 (rev (bytes16 w))"

definition htonl :: "u32 \<Rightarrow> u32" where
  "htonl w = word32 (rev (bytes32 w))"

abbreviation ntohs :: "u16 \<Rightarrow> u16" where
  "ntohs \<equiv> htons"

abbreviation ntohl :: "u32 \<Rightarrow> u32" where
  "ntohl \<equiv> htonl"

lemma length_bytes16 [simp]: "length (bytes16 w) = 2"
  by (simp add: bytes16_def)

lemma length_bytes32 [simp]: "length (bytes32 w) = 4"
  by (simp add: bytes32_def)

lemma word16_bytes16 [simp]: "word16 (bytes16 w) = w"
  by (rule bit_word_eqI) (auto simp: bytes16_def bit_simps)

lemma word32_bytes32 [simp]: "word32 (bytes32 w) = w"
proof (rule bit_word_eqI)
  fix n
  assume "n < LENGTH(32)"
  then consider "n < 8" | "8 \<le> n \<and> n < 16" | "16 \<le> n \<and> n < 24" | "24 \<le> n \<and> n < 32"
    by fastforce
  then show "bit (word32 (bytes32 w)) n \<longleftrightarrow> bit w n"
    by cases (auto simp: bytes32_def bit_simps)
qed

lemma bit_u8_beyond [simp]: "8 \<le> k \<Longrightarrow> \<not> bit (b :: u8) k"
  using bit_imp_le_length [of b k] by auto

lemma bytes16_word16 [simp]: "bytes16 (word16 [b0, b1]) = [b0, b1]"
  by (auto simp: bytes16_def bit_simps intro!: bit_word_eqI)

lemma bytes32_word32 [simp]: "bytes32 (word32 [b0, b1, b2, b3]) = [b0, b1, b2, b3]"
  by (auto simp: bytes32_def bit_simps intro!: bit_word_eqI)

lemma bytes16_htons: "bytes16 (htons w) = rev (bytes16 w)"
  by (simp add: htons_def bytes16_def [of w] del: word16.simps)

lemma bytes32_htonl: "bytes32 (htonl w) = rev (bytes32 w)"
  by (simp add: htonl_def bytes32_def [of w] del: word32.simps)

lemma htons_htons [simp]: "htons (htons w) = w"
  by (simp add: htons_def [of "htons w"] bytes16_htons)

lemma htonl_htonl [simp]: "htonl (htonl w) = w"
  by (simp add: htonl_def [of "htonl w"] bytes32_htonl)

lemma htons_inject [simp]: "htons v = htons w \<longleftrightarrow> v = w"
  by (metis htons_htons)

lemma htonl_inject [simp]: "htonl v = htonl w \<longleftrightarrow> v = w"
  by (metis htonl_htonl)

section \<open>Transition systems\<close>

text \<open>
  The interface of every step relation of the development: a property that each step
  keeps holds in every state that can be reached from a state where it holds.
\<close>

locale step_system =
  fixes step :: "'s \<Rightarrow> 's \<Rightarrow> bool" and inv :: "'s \<Rightarrow> bool"
  assumes step_inv: "inv s \<Longrightarrow> step s s' \<Longrightarrow> inv s'"
begin

lemma reachable_inv: "step\<^sup>*\<^sup>* s s' \<Longrightarrow> inv s \<Longrightarrow> inv s'"
  by (induction rule: rtranclp_induct) (auto intro: step_inv)

end

end
