(* ===== verification/Tcp_Consts.thy ===== *)
theory Tcp_Consts
  imports Tcp_Prelude
begin

text \<open>
  The constants of \<open>include/consts.h\<close> (and \<open>MAX_QUEUE\<close> of \<open>include/sockqueue.h\<close>).
  The socket states and the congestion states are enumerations of the header, written
  as datatypes; \<open>state_code\<close> and \<open>con_code\<close> give back the numbers the header assigns.
  The flag bits are 8-bit words. Everything else is a value of C type \<open>int\<close>.
  The macros \<open>ALPHA\<close> and \<open>BETA\<close> are C integer divisions, hence 0.
\<close>

section \<open>Socket and congestion states\<close>

datatype tcp_state =
    CLOSED | LISTEN | SYN_SENT | SYN_RECV | ESTABLISHED | FIN_WAIT_1 | FIN_WAIT_2
  | CLOSE_WAIT | CLOSING | LAST_ACK | TIME_WAIT

fun state_code :: "tcp_state \<Rightarrow> nat" where
  "state_code CLOSED = 0"
| "state_code LISTEN = 1"
| "state_code SYN_SENT = 2"
| "state_code SYN_RECV = 3"
| "state_code ESTABLISHED = 4"
| "state_code FIN_WAIT_1 = 5"
| "state_code FIN_WAIT_2 = 6"
| "state_code CLOSE_WAIT = 7"
| "state_code CLOSING = 8"
| "state_code LAST_ACK = 9"
| "state_code TIME_WAIT = 10"

datatype con_state = SLOW_START | CONGESTION_AVOIDANCE | FAST_RECOVERY

fun con_code :: "con_state \<Rightarrow> nat" where
  "con_code SLOW_START = 0"
| "con_code CONGESTION_AVOIDANCE = 1"
| "con_code FAST_RECOVERY = 2"

lemma state_code_inj: "state_code a = state_code b \<Longrightarrow> a = b"
  by (cases a; cases b) simp_all

text \<open>The states are ordered by their numbers, the order in which a connection visits them.\<close>

instantiation tcp_state :: linorder
begin

definition less_eq_tcp_state :: "tcp_state \<Rightarrow> tcp_state \<Rightarrow> bool" where
  "less_eq_tcp_state a b \<longleftrightarrow> state_code a \<le> state_code b"

definition less_tcp_state :: "tcp_state \<Rightarrow> tcp_state \<Rightarrow> bool" where
  "less_tcp_state a b \<longleftrightarrow> state_code a < state_code b"

instance
  by standard (auto simp: less_eq_tcp_state_def less_tcp_state_def intro: state_code_inj)

end

section \<open>Flag bits\<close>

definition NO_FLAG :: u8 where [simp]: "NO_FLAG = 0"
definition FIN :: u8 where [simp]: "FIN = 1"
definition SYN :: u8 where [simp]: "SYN = 2"
definition RST :: u8 where [simp]: "RST = 4"
definition PSH :: u8 where [simp]: "PSH = 8"
definition ACK :: u8 where [simp]: "ACK = 16"
definition URG :: u8 where [simp]: "URG = 32"
definition HEAD :: u8 where [simp]: "HEAD = 64"
definition BACKHEAD :: u8 where [simp]: "BACKHEAD = 128"

section \<open>Sizes and limits\<close>

definition MSL :: int where [simp]: "MSL = 1"
definition MAX_DLEN :: int where [simp]: "MAX_DLEN = 1375"
definition MAX_LEN :: int where [simp]: "MAX_LEN = 1400"
definition HEADER_LEN :: int where [simp]: "HEADER_LEN = 22"
definition DEFAULT_HEADER_LEN :: int where [simp]: "DEFAULT_HEADER_LEN = 22"
definition TCP_RECVWN_SIZE :: int where [simp]: "TCP_RECVWN_SIZE = 32 * MAX_DLEN"
definition TCP_RECV_WINDOW_SIZE :: int where [simp]: "TCP_RECV_WINDOW_SIZE = 128 * MAX_DLEN"
definition TCP_SEND_WINDOW_SIZE :: int where [simp]: "TCP_SEND_WINDOW_SIZE = 128 * MAX_DLEN"
definition TCP_SEND_BUFFER_SIZE :: int where [simp]: "TCP_SEND_BUFFER_SIZE = 128 * MAX_DLEN"
definition TCP_RECV_BUFFER_SIZE :: int where [simp]: "TCP_RECV_BUFFER_SIZE = 100"
definition MAX_SOCK_SIZE :: int where [simp]: "MAX_SOCK_SIZE = 1024"
definition MAX_QUEUE :: int where [simp]: "MAX_QUEUE = 1024"
definition RETRANSMIT_LIMIT :: int where [simp]: "RETRANSMIT_LIMIT = 10"
definition TCP_RTO_MAX :: int where [simp]: "TCP_RTO_MAX = 100"

text \<open>\<open>(1/8)\<close> and \<open>(1/4)\<close> are divisions of two \<open>int\<close> operands.\<close>

definition ALPHA :: int where [simp]: "ALPHA = 1 div 8"
definition BETA :: int where [simp]: "BETA = 1 div 4"

definition IW :: int where [simp]: "IW = 3 * MAX_LEN"
definition SMSS :: int where [simp]: "SMSS = 1 * MAX_LEN"

end
