(* ===== verification/Packet.thy ===== *)
theory Packet
  imports Tcp_Consts
begin

text \<open>
  \<open>src/tju_packet.c\<close> and \<open>include/tju_packet.h\<close>, with the checksum of \<open>src/tju_tcp.c\<close>
  that \<open>create_packet\<close> calls: the packet structure, its serialisation to the 22-byte
  wire header followed by the payload, the field readers, parsing, and the checksum.
  A packet in memory carries its payload as a block, or \<open>None\<close> for the \<open>NULL\<close> pointer;
  the field \<open>sent_time\<close> is never read or written by the program and is left out.
  Allocation always succeeds, as the code assumes.
\<close>

section \<open>Packets\<close>

record tju_header =
  source_port :: u16
  destination_port :: u16
  seq_num :: u32
  ack_num :: u32
  hlen :: u16
  plen :: u16
  flags :: u8
  advertised_window :: u16
  ext :: u8
  checksum :: u16

record tju_packet =
  header :: tju_header
  pkt_data :: "bytes option"

section \<open>Checksum\<close>

text \<open>The loop over the payload: \<open>char\<close> is signed, so each byte is sign-extended.\<close>

fun checksum_loop :: "u16 \<Rightarrow> bytes \<Rightarrow> nat \<Rightarrow> u16 outcome" where
  "checksum_loop cksum d 0 = Inr cksum"
| "checksum_loop cksum [] (Suc n) = Inl (Undefined OutOfBounds)"
| "checksum_loop cksum (b # d) (Suc n) = checksum_loop (cksum + scast b) d n"

definition header_sum :: "tju_header \<Rightarrow> u16" where
  "header_sum h =
     ucast (drop_bit 16 (ucast (source_port h) :: u32) AND 0xFFFF)
     + (source_port h AND 0xFFFF)
     + ucast (drop_bit 16 (ucast (destination_port h) :: u32) AND 0xFFFF)
     + (destination_port h AND 0xFFFF)
     + ucast (seq_num h) + ucast (ack_num h)
     + htons (hlen h) + htons (plen h)
     + ucast (flags h) + advertised_window h + ucast (ext h)"

definition tcp_compute_checksum :: "tju_packet \<Rightarrow> u16 outcome" where
  "tcp_compute_checksum pkt =
     (let h = header pkt;
          data_len = nat (uint (plen h) - uint (hlen h))
      in bindE
           (case pkt_data pkt of
              None \<Rightarrow> if 0 < data_len then Inl (Undefined BadPointer) else Inr (header_sum h)
            | Some d \<Rightarrow> checksum_loop (header_sum h) d data_len)
           (\<lambda>cksum. Inr (NOT (drop_bit 16 cksum + (cksum AND 0xFFFF)))))"

definition set_checksum :: "tju_packet \<Rightarrow> tju_packet outcome" where
  "set_checksum pkt =
     bindE (tcp_compute_checksum pkt)
       (\<lambda>cksum. Inr (pkt\<lparr>header := (header pkt)\<lparr>checksum := cksum\<rparr>\<rparr>))"

definition tcp_check :: "tju_packet \<Rightarrow> bool outcome" where
  "tcp_check pkt = bindE (tcp_compute_checksum pkt) (\<lambda>cksum. Inr (checksum (header pkt) = cksum))"

section \<open>Building a packet\<close>

text \<open>
  \<open>dat\<close> is the memory the argument \<open>data\<close> points to (empty for \<open>NULL\<close> and for the
  uninitialised pointers some callers pass together with \<open>len = 0\<close>). The checksum field
  is not initialised before \<open>set_checksum\<close> and is not read by it; the model starts it at 0.
\<close>

definition create_packet ::
  "u16 \<Rightarrow> u16 \<Rightarrow> u32 \<Rightarrow> u32 \<Rightarrow> u16 \<Rightarrow> u16 \<Rightarrow> u8 \<Rightarrow> u16 \<Rightarrow> u8 \<Rightarrow> bytes \<Rightarrow> int \<Rightarrow> tju_packet outcome"
  where
  "create_packet src dst seq ack hl pl fl adv_window ex dat len =
     (let h = \<lparr>source_port = src, destination_port = dst, seq_num = seq, ack_num = ack,
               hlen = hl, plen = pl, flags = fl, advertised_window = adv_window, ext = ex,
               checksum = 0\<rparr>
      in bindE (if 0 < len then bindE (mem_read dat 0 (nat len)) (\<lambda>d. Inr (Some d)) else Inr None)
           (\<lambda>d. set_checksum \<lparr>header = h, pkt_data = d\<rparr>))"

definition header_in_char ::
  "u16 \<Rightarrow> u16 \<Rightarrow> u32 \<Rightarrow> u32 \<Rightarrow> u16 \<Rightarrow> u16 \<Rightarrow> u8 \<Rightarrow> u16 \<Rightarrow> u8 \<Rightarrow> u16 \<Rightarrow> bytes outcome" where
  "header_in_char src dst seq ack hl pl fl adv_window ex cksum =
     (let msg = replicate (unat pl) 0
      in bindE (mem_write msg 0 (bytes16 (htons src))) (\<lambda>msg.
         bindE (mem_write msg 2 (bytes16 (htons dst))) (\<lambda>msg.
         bindE (mem_write msg 4 (bytes32 (htonl seq))) (\<lambda>msg.
         bindE (mem_write msg 8 (bytes32 (htonl ack))) (\<lambda>msg.
         bindE (mem_write msg 12 (bytes16 (htons hl))) (\<lambda>msg.
         bindE (mem_write msg 14 (bytes16 (htons pl))) (\<lambda>msg.
         bindE (mem_write msg 16 [fl]) (\<lambda>msg.
         bindE (mem_write msg 17 (bytes16 (htons adv_window))) (\<lambda>msg.
         bindE (mem_write msg 19 [ex]) (\<lambda>msg.
         mem_write msg 20 (bytes16 (htons cksum))))))))))))"

definition packet_to_buf :: "tju_packet \<Rightarrow> bytes outcome" where
  "packet_to_buf p =
     (let h = header p
      in bindE (header_in_char (source_port h) (destination_port h) (seq_num h) (ack_num h)
                  (hlen h) (plen h) (flags h) (advertised_window h) (ext h) (checksum h))
           (\<lambda>msg. if hlen h < plen h
                  then bindE (derefE (pkt_data p)) (\<lambda>d.
                       bindE (mem_read d 0 (unat (plen h) - unat (hlen h))) (\<lambda>d.
                       mem_write msg (unat (hlen h)) d))
                  else Inr msg))"

definition create_packet_buf ::
  "u16 \<Rightarrow> u16 \<Rightarrow> u32 \<Rightarrow> u32 \<Rightarrow> u16 \<Rightarrow> u16 \<Rightarrow> u8 \<Rightarrow> u16 \<Rightarrow> u8 \<Rightarrow> bytes \<Rightarrow> int \<Rightarrow> bytes outcome"
  where
  "create_packet_buf src dst seq ack hl pl fl adv_window ex dat len =
     bindE (create_packet src dst seq ack hl pl fl adv_window ex dat len) packet_to_buf"

section \<open>Reading a packet\<close>

text \<open>
  The readers copy 1, 2 or 4 bytes at a fixed offset. They are applied to buffers of at
  least 22 bytes only: \<open>buf_to_packet\<close> and the kernel's entry point, which see a buffer
  first, make a shorter one an out-of-bounds error.
\<close>

definition field :: "bytes \<Rightarrow> nat \<Rightarrow> nat \<Rightarrow> bytes" where
  "field msg off n = take n (drop off msg)"

definition get_src :: "bytes \<Rightarrow> u16" where
  "get_src msg = ntohs (word16 (field msg 0 2))"

definition get_dst :: "bytes \<Rightarrow> u16" where
  "get_dst msg = ntohs (word16 (field msg 2 2))"

definition get_seq :: "bytes \<Rightarrow> u32" where
  "get_seq msg = ntohl (word32 (field msg 4 4))"

definition get_ack :: "bytes \<Rightarrow> u32" where
  "get_ack msg = ntohl (word32 (field msg 8 4))"

definition get_hlen :: "bytes \<Rightarrow> u16" where
  "get_hlen msg = ntohs (word16 (field msg 12 2))"

definition get_plen :: "bytes \<Rightarrow> u16" where
  "get_plen msg = ntohs (word16 (field msg 14 2))"

definition get_flags :: "bytes \<Rightarrow> u8" where
  "get_flags msg = word8 (field msg 16 1)"

definition get_advertised_window :: "bytes \<Rightarrow> u16" where
  "get_advertised_window msg = ntohs (word16 (field msg 17 2))"

definition get_ext :: "bytes \<Rightarrow> u8" where
  "get_ext msg = word8 (field msg 19 1)"

definition get_checksum :: "bytes \<Rightarrow> u16" where
  "get_checksum msg = ntohs (word16 (field msg 20 2))"

definition is_fin :: "bytes \<Rightarrow> bool" where
  "is_fin pkt \<longleftrightarrow> get_flags pkt = ACK OR FIN"

definition read_header :: "bytes \<Rightarrow> tju_header" where
  "read_header buf =
     \<lparr>source_port = get_src buf, destination_port = get_dst buf, seq_num = get_seq buf,
      ack_num = get_ack buf, hlen = get_hlen buf, plen = get_plen buf, flags = get_flags buf,
      advertised_window = get_advertised_window buf, ext = get_ext buf,
      checksum = get_checksum buf\<rparr>"

definition buf_to_packet :: "bytes \<Rightarrow> tju_packet outcome" where
  "buf_to_packet buf =
     bindE (requireE (22 \<le> length buf) (Undefined OutOfBounds)) (\<lambda>_.
       let h = read_header buf;
           len = uint (plen h) - uint (hlen h)
       in if 0 < len
          then bindE (mem_read buf (unat (hlen h)) (nat len))
                 (\<lambda>d. Inr \<lparr>header = h, pkt_data = Some d\<rparr>)
          else Inr \<lparr>header = h, pkt_data = None\<rparr>)"

definition build_state_pkt :: "bytes \<Rightarrow> u8 \<Rightarrow> (bytes \<times> int) outcome" where
  "build_state_pkt recv_pkt fl =
     (let len = HEADER_LEN;
          seq = get_seq recv_pkt + to_u32 len;
          ack = get_seq recv_pkt + 1;
          adv_wnd = to_u16 TCP_RECV_BUFFER_SIZE
      in bindE (create_packet_buf (get_dst recv_pkt) (get_src recv_pkt) seq ack (to_u16 len)
                  (to_u16 len) fl adv_wnd 0 [] 0)
           (\<lambda>send_pkt. Inr (send_pkt, len)))"

section \<open>The serialised header\<close>

definition header_bytes :: "tju_header \<Rightarrow> bytes" where
  "header_bytes h =
     bytes16 (htons (source_port h)) @ bytes16 (htons (destination_port h))
     @ bytes32 (htonl (seq_num h)) @ bytes32 (htonl (ack_num h))
     @ bytes16 (htons (hlen h)) @ bytes16 (htons (plen h)) @ [flags h]
     @ bytes16 (htons (advertised_window h)) @ [ext h] @ bytes16 (htons (checksum h))"

lemma length_header_bytes [simp]: "length (header_bytes h) = 22"
  by (simp add: header_bytes_def)

lemma header_in_char_eq:
  assumes "22 \<le> unat (plen h)"
  shows "header_in_char (source_port h) (destination_port h) (seq_num h) (ack_num h) (hlen h)
           (plen h) (flags h) (advertised_window h) (ext h) (checksum h)
         = Inr (header_bytes h @ replicate (unat (plen h) - 22) 0)"
proof -
  have wr: "mem_write (pre @ replicate n 0) k bs = Inr ((pre @ bs) @ replicate (n - length bs) 0)"
    if "length pre = k" and "length bs \<le> n" for pre bs :: bytes and n k
    using that mem_write_append_zeros by metis
  have start: "mem_write (replicate n 0) 0 bs = Inr (bs @ replicate (n - length bs) 0)"
    if "length bs \<le> n" for bs :: bytes and n
    using that wr [of "[]" 0 bs n] by simp
  show ?thesis
    using assms
    by (simp add: header_in_char_def Let_def start wr header_bytes_def
        del: append_assoc replicate.simps)
qed

lemma header_in_char_short:
  "unat pl < 22 \<Longrightarrow>
     header_in_char src dst seq ack hl pl fl adv ex ck = Inl (Undefined OutOfBounds)"
  by (auto simp: header_in_char_def Let_def mem_write_def bytes16_def bytes32_def)

text \<open>The readers applied to a buffer that starts with a serialised header.\<close>

lemma field_append_simps:
  "length pre = off \<Longrightarrow> length x = n \<Longrightarrow> field (pre @ x @ post) off n = x"
  by (simp add: field_def)

lemma get_header_bytes [simp]:
  "get_src (header_bytes h @ r) = source_port h"
  "get_dst (header_bytes h @ r) = destination_port h"
  "get_seq (header_bytes h @ r) = seq_num h"
  "get_ack (header_bytes h @ r) = ack_num h"
  "get_hlen (header_bytes h @ r) = hlen h"
  "get_plen (header_bytes h @ r) = plen h"
  "get_flags (header_bytes h @ r) = flags h"
  "get_advertised_window (header_bytes h @ r) = advertised_window h"
  "get_ext (header_bytes h @ r) = ext h"
  "get_checksum (header_bytes h @ r) = checksum h"
  by (simp_all add: get_src_def get_dst_def get_seq_def get_ack_def get_hlen_def get_plen_def
      get_flags_def get_advertised_window_def get_ext_def get_checksum_def header_bytes_def field_def)

section \<open>Serialising and parsing\<close>

text \<open>
  A packet is well formed when its total length covers the wire header and its payload
  pointer agrees with the two length fields.
\<close>

definition wf_packet :: "tju_packet \<Rightarrow> bool" where
  "wf_packet p \<longleftrightarrow> 22 \<le> unat (plen (header p)) \<and>
     (case pkt_data p of
        None \<Rightarrow> plen (header p) \<le> hlen (header p)
      | Some d \<Rightarrow> 22 \<le> unat (hlen (header p)) \<and> hlen (header p) < plen (header p)
                  \<and> length d = unat (plen (header p)) - unat (hlen (header p)))"

definition packet_bytes :: "tju_packet \<Rightarrow> bytes" where
  "packet_bytes p = header_bytes (header p) @
     (case pkt_data p of
        None \<Rightarrow> replicate (unat (plen (header p)) - 22) 0
      | Some d \<Rightarrow> replicate (unat (hlen (header p)) - 22) 0 @ d)"

lemma length_packet_bytes: "wf_packet p \<Longrightarrow> length (packet_bytes p) = unat (plen (header p))"
  by (auto simp: wf_packet_def packet_bytes_def word_less_nat_alt split: option.splits)

lemma get_packet_bytes [simp]:
  "get_src (packet_bytes p) = source_port (header p)"
  "get_dst (packet_bytes p) = destination_port (header p)"
  "get_seq (packet_bytes p) = seq_num (header p)"
  "get_ack (packet_bytes p) = ack_num (header p)"
  "get_hlen (packet_bytes p) = hlen (header p)"
  "get_plen (packet_bytes p) = plen (header p)"
  "get_flags (packet_bytes p) = flags (header p)"
  "get_advertised_window (packet_bytes p) = advertised_window (header p)"
  "get_ext (packet_bytes p) = ext (header p)"
  "get_checksum (packet_bytes p) = checksum (header p)"
  by (simp_all add: packet_bytes_def)

lemma read_header_packet_bytes [simp]: "read_header (packet_bytes p) = header p"
  by (simp add: read_header_def)

lemma packet_to_buf_eq:
  assumes "wf_packet p"
  shows "packet_to_buf p = Inr (packet_bytes p)"
proof (cases "pkt_data p")
  case None
  with assms show ?thesis
    by (simp add: packet_to_buf_def packet_bytes_def wf_packet_def Let_def header_in_char_eq not_less)
next
  case (Some d)
  let ?h = "header p"
  from Some assms have len: "22 \<le> unat (hlen ?h)" "unat (hlen ?h) < unat (plen ?h)"
    "length d = unat (plen ?h) - unat (hlen ?h)"
    by (simp_all add: wf_packet_def word_less_nat_alt)
  let ?z = "replicate (unat (plen ?h) - 22) 0 :: bytes"
  have "mem_write (header_bytes ?h @ ?z) (unat (hlen ?h)) d
      = Inr (header_bytes ?h @ replicate (unat (hlen ?h) - 22) 0 @ d)"
    using len by (simp add: mem_write_def min_def)
  then show ?thesis
    using len Some
    by (simp add: packet_to_buf_def packet_bytes_def Let_def header_in_char_eq mem_read_def
        word_less_nat_alt)
qed

lemma buf_to_packet_packet_bytes:
  assumes "wf_packet p"
  shows "buf_to_packet (packet_bytes p) = Inr p"
proof -
  have len: "22 \<le> length (packet_bytes p)"
    using assms by (simp add: length_packet_bytes) (simp add: wf_packet_def)
  show ?thesis
  proof (cases "pkt_data p")
    case None
    with assms len show ?thesis
      by (auto simp: buf_to_packet_def Let_def wf_packet_def)
  next
    case (Some d)
    with assms have l: "22 \<le> unat (hlen (header p))" "hlen (header p) < plen (header p)"
      "length d = unat (plen (header p)) - unat (hlen (header p))"
      by (simp_all add: wf_packet_def)
    have "mem_read (packet_bytes p) (unat (hlen (header p))) (length d) = Inr d"
      using l Some by (simp add: mem_read_eq_Inr_iff packet_bytes_def)
    then show ?thesis
      using len Some l by (simp add: buf_to_packet_def Let_def)
  qed
qed

section \<open>What the checksum computes and detects\<close>

lemma checksum_loop_eq:
  "n \<le> length d \<Longrightarrow> checksum_loop ck d n = Inr (ck + sum_list (map scast (take n d)))"
  by (induction ck d n rule: checksum_loop.induct) (auto simp: add.assoc)

lemma and_ffff [simp]: "ck AND 0xFFFF = ck" for ck :: u16
proof -
  have "(0xFFFF :: u16) = -1"
    by simp
  then show ?thesis
    by (metis and.right_neutral)
qed

definition payload :: "tju_packet \<Rightarrow> bytes" where
  "payload p = (case pkt_data p of None \<Rightarrow> [] | Some d \<Rightarrow> d)"

lemma tcp_compute_checksum_eq:
  assumes "wf_packet p"
  shows "tcp_compute_checksum p
    = Inr (NOT (header_sum (header p) + sum_list (map scast (payload p))))"
  using assms
  by (cases "pkt_data p")
    (auto simp: tcp_compute_checksum_def Let_def payload_def wf_packet_def checksum_loop_eq
      word_less_nat_alt word_le_nat_alt)

lemma header_sum_checksum [simp]: "header_sum (h\<lparr>checksum := c\<rparr>) = header_sum h"
  by (simp add: header_sum_def)

lemma wf_packet_checksum [simp]:
  "wf_packet (p\<lparr>header := (header p)\<lparr>checksum := c\<rparr>\<rparr>) = wf_packet p"
  by (simp add: wf_packet_def split: option.split)

lemma payload_header [simp]: "payload (p\<lparr>header := h\<rparr>) = payload p"
  by (simp add: payload_def)

lemma set_checksum_eq:
  assumes "wf_packet p"
  shows "set_checksum p = Inr (p\<lparr>header := (header p)
    \<lparr>checksum := NOT (header_sum (header p) + sum_list (map scast (payload p)))\<rparr>\<rparr>)"
  using assms by (simp add: set_checksum_def tcp_compute_checksum_eq)

lemma tcp_check_iff:
  assumes "wf_packet p"
  shows "tcp_check p = Inr (checksum (header p)
    = NOT (header_sum (header p) + sum_list (map scast (payload p))))"
  using assms by (simp add: tcp_check_def tcp_compute_checksum_eq)

lemma set_checksum_tcp_check:
  "wf_packet p \<Longrightarrow> set_checksum p = Inr p' \<Longrightarrow> tcp_check p' = Inr True"
  by (auto simp: set_checksum_eq tcp_check_iff)

section \<open>The codec interface\<close>

text \<open>
  What the sending and the receiving code rely on: a serialiser that succeeds on well
  formed packets and is undone by the parser, and a sealing operation whose result is
  well formed and passes the receiver's check.
\<close>

locale packet_codec =
  fixes enc :: "'p \<Rightarrow> 'e + 'b"
    and dec :: "'b \<Rightarrow> 'e + 'p"
    and wf :: "'p \<Rightarrow> bool"
  assumes enc_total: "wf p \<Longrightarrow> \<exists>b. enc p = Inr b"
    and dec_enc: "wf p \<Longrightarrow> enc p = Inr b \<Longrightarrow> dec b = Inr p"
begin

lemma enc_inject:
  assumes "wf p" and "wf q" and "enc p = enc q"
  shows "p = q"
proof -
  from enc_total [OF assms(1)] obtain b where b: "enc p = Inr b" ..
  with assms have "Inr p = (Inr q :: 'e + 'p)"
    by (metis dec_enc)
  then show ?thesis
    by simp
qed

end

locale sealed_codec = packet_codec enc dec wf
  for enc :: "'p \<Rightarrow> 'e + 'b" and dec :: "'b \<Rightarrow> 'e + 'p" and wf :: "'p \<Rightarrow> bool" +
  fixes seal :: "'p \<Rightarrow> 'e + 'p"
    and check :: "'p \<Rightarrow> 'e + bool"
  assumes seal_total: "wf p \<Longrightarrow> \<exists>p'. seal p = Inr p'"
    and seal_wf: "wf p \<Longrightarrow> seal p = Inr p' \<Longrightarrow> wf p'"
    and seal_check: "wf p \<Longrightarrow> seal p = Inr p' \<Longrightarrow> check p' = Inr True"
begin

lemma sealed_delivery:
  assumes "wf p"
  obtains p' b where "seal p = Inr p'" "wf p'" "enc p' = Inr b" "dec b = Inr p'"
    "bindE (dec b) check = Inr True"
proof -
  from seal_total [OF assms] obtain p' where p': "seal p = Inr p'" ..
  note wf' = seal_wf [OF assms p']
  from enc_total [OF wf'] obtain b where b: "enc p' = Inr b" ..
  show ?thesis
    using that [OF p' wf' b dec_enc [OF wf' b]] dec_enc [OF wf' b] seal_check [OF assms p']
    by simp
qed

end

interpretation tju: sealed_codec packet_to_buf buf_to_packet wf_packet set_checksum tcp_check
  by unfold_locales
    (auto simp: packet_to_buf_eq buf_to_packet_packet_bytes set_checksum_eq set_checksum_tcp_check
      tcp_check_iff)

section \<open>Properties\<close>

text \<open>
  C19: Parsing undoes serialising. A well-formed packet serialises to a buffer of exactly
  \<open>plen\<close> bytes, and \<open>buf_to_packet\<close> reads back the same packet, every header field and
  the payload included.
\<close>

theorem packet_roundtrip:
  assumes "wf_packet p"
  shows "\<exists>buf. packet_to_buf p = Inr buf \<and> length buf = unat (plen (header p))
    \<and> buf_to_packet buf = Inr p"
  using tju.enc_total [OF assms] tju.dec_enc [OF assms] assms
  by (auto simp: packet_to_buf_eq length_packet_bytes)

definition sample_packet :: tju_packet where
  "sample_packet =
     \<lparr>header = \<lparr>source_port = 5678, destination_port = 1234, seq_num = 7, ack_num = 0,
        hlen = 22, plen = 25, flags = NO_FLAG, advertised_window = 100, ext = 0, checksum = 0\<rparr>,
      pkt_data = Some [104, 105, 33]\<rparr>"

lemma wf_sample_packet: "wf_packet sample_packet"
  by (simp add: wf_packet_def sample_packet_def)

lemma packet_roundtrip_witness:
  "\<exists>buf. packet_to_buf sample_packet = Inr buf \<and> length buf = 25
    \<and> buf_to_packet buf = Inr sample_packet"
  using packet_roundtrip [OF wf_sample_packet] by (simp add: sample_packet_def)

text \<open>
  What \<open>create_packet_buf\<close> sends is accepted by the receiver. For every header and
  every payload of \<open>len\<close> bytes that fits the 16-bit length field, the call succeeds, and
  the parsed buffer has the given fields and payload and passes \<open>tcp_check\<close>.
\<close>

theorem create_packet_buf_accepted:
  assumes len: "len = length dat" "22 + len < 65536"
    and pl: "pl = of_nat (22 + len)"
  shows "\<exists>buf p. create_packet_buf src dst seq ack 22 pl fl adv ex dat (int len) = Inr buf
    \<and> buf_to_packet buf = Inr p \<and> tcp_check p = Inr True \<and> payload p = dat
    \<and> source_port (header p) = src \<and> destination_port (header p) = dst
    \<and> seq_num (header p) = seq \<and> ack_num (header p) = ack \<and> flags (header p) = fl
    \<and> advertised_window (header p) = adv \<and> ext (header p) = ex"
proof -
  have upl: "unat pl = 22 + len"
    using len by (simp only: pl unat_of_nat) simp
  define h where "h = \<lparr>source_port = src, destination_port = dst, seq_num = seq, ack_num = ack,
    hlen = 22, plen = pl, flags = fl, advertised_window = adv, ext = ex, checksum = 0\<rparr>"
  define p where "p = \<lparr>header = h, pkt_data = (if 0 < len then Some dat else None)\<rparr>"
  have wf: "wf_packet p"
    using len upl
    by (auto simp: wf_packet_def p_def h_def word_less_nat_alt word_le_nat_alt)
  then obtain p' b where seal: "set_checksum p = Inr p'" and enc: "packet_to_buf p' = Inr b"
    and dec: "buf_to_packet b = Inr p'" and check: "bindE (buf_to_packet b) tcp_check = Inr True"
    by (rule tju.sealed_delivery)
  have "create_packet src dst seq ack 22 pl fl adv ex dat (int len) = set_checksum p"
    using len by (auto simp: create_packet_def Let_def p_def h_def mem_read_def)
  then have "create_packet_buf src dst seq ack 22 pl fl adv ex dat (int len) = Inr b"
    by (simp add: create_packet_buf_def seal enc)
  moreover obtain c where "p' = p\<lparr>header := (header p)\<lparr>checksum := c\<rparr>\<rparr>"
    using seal wf by (auto simp: set_checksum_eq)
  then have "payload p' = dat \<and> source_port (header p') = src \<and> destination_port (header p') = dst
    \<and> seq_num (header p') = seq \<and> ack_num (header p') = ack \<and> flags (header p') = fl
    \<and> advertised_window (header p') = adv \<and> ext (header p') = ex"
    using len by (simp add: p_def h_def payload_def)
  ultimately show ?thesis
    using dec check by auto
qed

lemma create_packet_buf_accepted_witness:
  "\<exists>buf p. create_packet_buf 5678 1234 7 0 22 25 NO_FLAG 100 0 [104, 105, 33] 3 = Inr buf
    \<and> buf_to_packet buf = Inr p \<and> tcp_check p = Inr True \<and> payload p = [104, 105, 33]
    \<and> seq_num (header p) = 7"
  using create_packet_buf_accepted [of 3 "[104, 105, 33]" 25 5678 1234 7 0 NO_FLAG 100 0]
  by fastforce

lemma sum_list_replace:
  "i < length xs \<Longrightarrow> sum_list (map f (xs[i := y])) = sum_list (map f xs) + (f y - f (xs ! i))"
  for f :: "'b \<Rightarrow> 'a :: ab_group_add"
  by (induction xs arbitrary: i) (auto split: nat.splits)

lemma scast_u8_inject: "(scast b :: u16) = scast c \<longleftrightarrow> b = c" for b c :: u8
proof -
  have "ucast (scast x :: u16) = x" for x :: u8
    by (rule bit_word_eqI) (simp add: bit_simps)
  then show ?thesis
    by metis
qed

lemma payload_bit_change:
  assumes wf: "wf_packet p" and d: "pkt_data p = Some d" and i: "i < length d"
    and ne: "b \<noteq> d ! i" and ok: "tcp_check p = Inr True"
  shows "tcp_check (p\<lparr>pkt_data := Some (d[i := b])\<rparr>) = Inr False"
proof -
  let ?p = "p\<lparr>pkt_data := Some (d[i := b])\<rparr>"
  let ?sum = "\<lambda>d. sum_list (map scast d) :: u16"
  have wf': "wf_packet ?p"
    using wf d by (simp add: wf_packet_def)
  have "?sum (d[i := b]) \<noteq> ?sum d"
    using ne i by (simp add: sum_list_replace scast_u8_inject)
  moreover have "checksum (header p) = NOT (header_sum (header p) + ?sum d)"
    using ok d by (simp add: tcp_check_iff wf payload_def)
  ultimately show ?thesis
    using d by (simp add: tcp_check_iff [OF wf'] payload_def)
qed

text \<open>
  C35: The checksum detects every corruption of a single payload byte: if a segment passes
  \<open>tcp_check\<close> and one byte of its payload is replaced by a different one, the check fails.
\<close>

theorem payload_corruption_detected:
  assumes wf: "wf_packet p" and d: "pkt_data p = Some d" and i: "i < length d"
    and ne: "b \<noteq> d ! i" and ok: "tcp_check p = Inr True"
  shows "tcp_check (p\<lparr>pkt_data := Some (d[i := b])\<rparr>) = Inr False"
  using assms by (rule payload_bit_change)

lemma payload_corruption_detected_witness:
  "\<exists>p. set_checksum sample_packet = Inr p \<and> tcp_check p = Inr True
    \<and> tcp_check (p\<lparr>pkt_data := Some [104, 106, 33]\<rparr>) = Inr False"
proof -
  obtain p where p: "set_checksum sample_packet = Inr p" and wf: "wf_packet p"
    and ok: "tcp_check p = Inr True"
    using tju.seal_total tju.seal_wf tju.seal_check wf_sample_packet by blast
  have d: "pkt_data p = Some [104, 105, 33]"
    using p wf_sample_packet by (auto simp: set_checksum_eq sample_packet_def)
  show ?thesis
    using p ok payload_corruption_detected [OF wf d, of 1 106] by simp
qed

text \<open>
  C36: The upper halves of the sequence and acknowledgement numbers are not protected:
  adding any multiple of 65536 to either leaves the outcome of \<open>tcp_check\<close> unchanged, so
  a segment corrupted there is accepted.
\<close>

theorem seq_high_half_unprotected:
  "tcp_check (p\<lparr>header := (header p)
     \<lparr>seq_num := seq_num (header p) + push_bit 16 j, ack_num := ack_num (header p) + push_bit 16 k\<rparr>\<rparr>)
   = tcp_check p"
proof -
  have low: "(ucast (push_bit 16 x :: u32) :: u16) = 0" for x
    by (rule bit_word_eqI) (simp add: bit_simps)
  then have "(ucast (x + push_bit 16 y :: u32) :: u16) = ucast x" for x y
    by (simp add: ucast_add_u16)
  then show ?thesis
    by (cases "pkt_data p")
      (simp_all add: tcp_check_def tcp_compute_checksum_def header_sum_def Let_def)
qed

text \<open>
  When parsing a received buffer is defined: exactly when the buffer holds the 22-byte
  header and, if the length fields promise a payload, as many bytes as \<open>plen\<close> says.
\<close>

theorem buf_to_packet_defined_iff:
  "returns (buf_to_packet buf) \<longleftrightarrow>
     22 \<le> length buf \<and> \<not> (get_hlen buf < get_plen buf \<and> length buf < unat (get_plen buf))"
  by (auto simp: buf_to_packet_def read_header_def Let_def returns_def bindE_eq_Inr_iff
      mem_read_eq_Inr_iff word_less_nat_alt)

end
