(* ===== verification/Tcp_State.thy ===== *)
theory Tcp_State
  imports Tcp_Consts Complex_Main
begin

text \<open>
  The data of one host: the structures of \<open>include/tju_tcp.h\<close>, \<open>include/timer.h\<close>,
  \<open>include/sockqueue.h\<close> and \<open>include/tcp_manager.h\<close>, each kept in a typed map from
  addresses, because sockets share them: \<open>tcp_accept\<close> copies the listening socket byte by
  byte, so the copy's window, timer, queue and buffer pointers are the listener's own.
  Fields the program never uses are left out (\<open>ack_cnt\<close>, \<open>buf\<close>, \<open>marked\<close>,
  \<open>wait_cond\<close>); the locks \<open>signal_lock\<close> and \<open>timer_lock\<close> are taken and released
  around one assignment and are left out too, while \<open>send_lock\<close> and \<open>recv_lock\<close>, which
  the program does not always release, are flags. Memory that \<open>malloc\<close> returns is not
  initialised: the operations that allocate take its former content as an argument.
\<close>

section \<open>Structures\<close>

record tju_sock_addr =
  ip :: u32
  port :: u16

record sender_window_t =
  send_windows :: ptr
  window_size :: u16
  base :: u32
  nextseq :: u32
  rwnd :: u16

record receiver_window_t =
  receiver_window :: ptr
  expect_seq :: u32

record rtt_timer_t =
  estimated_rtt :: rat
  dev_rtt :: rat
  timeout :: rat
  timer_thread :: nat
  started :: int

record sock_node =
  node_data :: ptr
  node_next :: ptr

record sock_queue =
  q_size :: int
  q_base :: ptr

record tju_tcp_t =
  state :: tcp_state
  bind_addr :: tju_sock_addr
  established_local_addr :: tju_sock_addr
  established_remote_addr :: tju_sock_addr
  send_lock :: bool
  sending_buf :: ptr
  sending_len :: int
  sending_capacity :: int
  recv_lock :: bool
  received_buf :: ptr
  received_len :: int
  received_capacity :: int
  wnd_send :: ptr
  wnd_recv :: ptr
  saved_syn :: int
  interrupt_signal :: int
  rtt_timer :: ptr
  timeout_counts :: u8
  syn_queue :: ptr
  accept_queue :: ptr
  con_status :: con_state
  cwnd :: int
  ssthresh :: int
  listen_state :: "int \<Rightarrow> tcp_state"
  finished_handshake :: int

section \<open>The host\<close>

text \<open>
  A running timer thread has read, when it was created, the socket, the timeout and the
  time. A host is the server or the client of the simulation by its host name.
  \<open>poll_delay\<close> is the time a thread that joins the timer thread waits until the timer
  thread wakes up from its \<open>sleep(1)\<close>; it is chosen by the environment and no operation
  changes it. \<open>wire\<close> lists the datagrams the host has sent, the oldest first, and
  \<open>send_threads\<close> the sockets that have a sending thread.
\<close>

record timer_thread_t =
  th_sock :: ptr
  th_limit :: rat
  th_since :: int

datatype hostname = Server | Client | OtherHost

record host =
  socks :: "ptr \<Rightarrow> tju_tcp_t option"
  swnds :: "ptr \<Rightarrow> sender_window_t option"
  rwnds :: "ptr \<Rightarrow> receiver_window_t option"
  timers :: "ptr \<Rightarrow> rtt_timer_t option"
  queues :: "ptr \<Rightarrow> sock_queue option"
  nodes :: "ptr \<Rightarrow> sock_node option"
  blocks :: "ptr \<Rightarrow> bytes option"
  next_ptr :: ptr
  listen_queue :: "int \<Rightarrow> ptr"
  established_queue :: "int \<Rightarrow> ptr"
  connect_sock :: "int \<Rightarrow> ptr"
  is_server :: bool
  threads :: "nat \<Rightarrow> timer_thread_t option"
  next_tid :: nat
  send_threads :: "ptr list"
  clock :: int
  poll_delay :: int
  name_of :: hostname
  wire :: "bytes list"

section \<open>Access\<close>

abbreviation sock_at :: "host \<Rightarrow> ptr \<Rightarrow> tju_tcp_t outcome" where
  "sock_at h p \<equiv> derefE (socks h p)"

abbreviation swnd_at :: "host \<Rightarrow> tju_tcp_t \<Rightarrow> sender_window_t outcome" where
  "swnd_at h s \<equiv> derefE (swnds h (wnd_send s))"

abbreviation rwnd_at :: "host \<Rightarrow> tju_tcp_t \<Rightarrow> receiver_window_t outcome" where
  "rwnd_at h s \<equiv> derefE (rwnds h (wnd_recv s))"

abbreviation timer_at :: "host \<Rightarrow> tju_tcp_t \<Rightarrow> rtt_timer_t outcome" where
  "timer_at h s \<equiv> derefE (timers h (rtt_timer s))"

definition set_sock :: "ptr \<Rightarrow> tju_tcp_t \<Rightarrow> host \<Rightarrow> host" where
  [simp]: "set_sock p s h = h\<lparr>socks := (socks h)(p \<mapsto> s)\<rparr>"

definition set_swnd :: "ptr \<Rightarrow> sender_window_t \<Rightarrow> host \<Rightarrow> host" where
  [simp]: "set_swnd p w h = h\<lparr>swnds := (swnds h)(p \<mapsto> w)\<rparr>"

definition set_rwnd :: "ptr \<Rightarrow> receiver_window_t \<Rightarrow> host \<Rightarrow> host" where
  [simp]: "set_rwnd p w h = h\<lparr>rwnds := (rwnds h)(p \<mapsto> w)\<rparr>"

definition set_timer :: "ptr \<Rightarrow> rtt_timer_t \<Rightarrow> host \<Rightarrow> host" where
  [simp]: "set_timer p t h = h\<lparr>timers := (timers h)(p \<mapsto> t)\<rparr>"

definition set_queue :: "ptr \<Rightarrow> sock_queue \<Rightarrow> host \<Rightarrow> host" where
  [simp]: "set_queue p q h = h\<lparr>queues := (queues h)(p \<mapsto> q)\<rparr>"

definition set_block :: "ptr \<Rightarrow> bytes \<Rightarrow> host \<Rightarrow> host" where
  [simp]: "set_block p b h = h\<lparr>blocks := (blocks h)(p \<mapsto> b)\<rparr>"

definition update_sock :: "ptr \<Rightarrow> (tju_tcp_t \<Rightarrow> tju_tcp_t) \<Rightarrow> host \<Rightarrow> host outcome" where
  "update_sock p f h = bindE (sock_at h p) (\<lambda>s. Inr (set_sock p (f s) h))"

text \<open>\<open>malloc\<close>: the next unused address. Address 0 is never handed out.\<close>

definition malloc :: "(ptr \<Rightarrow> host \<Rightarrow> host) \<Rightarrow> host \<Rightarrow> ptr \<times> host" where
  "malloc init h = (next_ptr h, init (next_ptr h) (h\<lparr>next_ptr := next_ptr h + 1\<rparr>))"

text \<open>
  Everything allocated lies below \<open>next_ptr\<close>, which is the well-formedness condition of
  the allocator.
\<close>

definition heap_ok :: "host \<Rightarrow> bool" where
  "heap_ok h \<longleftrightarrow> 0 < next_ptr h \<and>
     (\<forall>p. next_ptr h \<le> p \<longrightarrow>
        socks h p = None \<and> swnds h p = None \<and> rwnds h p = None \<and> timers h p = None
        \<and> queues h p = None \<and> nodes h p = None \<and> blocks h p = None)
     \<and> (socks h 0 = None \<and> swnds h 0 = None \<and> rwnds h 0 = None \<and> timers h 0 = None
        \<and> queues h 0 = None \<and> nodes h 0 = None \<and> blocks h 0 = None)"

lemma heap_ok_fresh:
  assumes "heap_ok h"
  shows "socks h (next_ptr h) = None" "queues h (next_ptr h) = None"
    "nodes h (next_ptr h) = None" "blocks h (next_ptr h) = None" "0 < next_ptr h"
  using assms by (simp_all add: heap_ok_def)

lemma heap_ok_bound:
  assumes "heap_ok h"
  shows "socks h p = Some s \<Longrightarrow> 0 < p \<and> p < next_ptr h" "nodes h p = Some n \<Longrightarrow> 0 < p \<and> p < next_ptr h"
    "queues h p = Some q \<Longrightarrow> 0 < p \<and> p < next_ptr h" "swnds h p = Some w \<Longrightarrow> 0 < p \<and> p < next_ptr h"
    "rwnds h p = Some r \<Longrightarrow> 0 < p \<and> p < next_ptr h" "timers h p = Some t \<Longrightarrow> 0 < p \<and> p < next_ptr h"
    "blocks h p = Some b \<Longrightarrow> 0 < p \<and> p < next_ptr h"
  using assms by (auto simp: heap_ok_def intro!: gr0I) (metis not_le option.distinct(1))+

lemma heap_ok_null:
  assumes "heap_ok h"
  shows "socks h 0 = None" "nodes h 0 = None" "queues h 0 = None" "blocks h 0 = None"
    "swnds h 0 = None" "rwnds h 0 = None" "timers h 0 = None"
  using assms by (simp_all add: heap_ok_def)

section \<open>A host with nothing allocated\<close>

text \<open>
  \<open>blank_host\<close> is a host before its first allocation; \<open>blank_sock\<close> is one possible content
  of a freshly allocated, uninitialised socket structure. They are used in examples.
\<close>

definition blank_host :: "hostname \<Rightarrow> host" where
  "blank_host nm =
     \<lparr>socks = (\<lambda>_. None), swnds = (\<lambda>_. None), rwnds = (\<lambda>_. None), timers = (\<lambda>_. None),
      queues = (\<lambda>_. None), nodes = (\<lambda>_. None), blocks = (\<lambda>_. None), next_ptr = 1,
      listen_queue = (\<lambda>_. NULL), established_queue = (\<lambda>_. NULL), connect_sock = (\<lambda>_. NULL),
      is_server = False, threads = (\<lambda>_. None), next_tid = 1, send_threads = [], clock = 0,
      poll_delay = 0,
      name_of = nm, wire = []\<rparr>"

definition blank_sock :: tju_tcp_t where
  "blank_sock =
     \<lparr>state = CLOSED, bind_addr = \<lparr>ip = 0, port = 0\<rparr>,
      established_local_addr = \<lparr>ip = 0, port = 0\<rparr>, established_remote_addr = \<lparr>ip = 0, port = 0\<rparr>,
      send_lock = False, sending_buf = NULL, sending_len = 0, sending_capacity = 0,
      recv_lock = False, received_buf = NULL, received_len = 0, received_capacity = 0,
      wnd_send = NULL, wnd_recv = NULL, saved_syn = 0, interrupt_signal = 0, rtt_timer = NULL,
      timeout_counts = 0, syn_queue = NULL, accept_queue = NULL, con_status = SLOW_START,
      cwnd = 0, ssthresh = 0, listen_state = (\<lambda>_. CLOSED), finished_handshake = 0\<rparr>"

lemma heap_ok_blank [simp]: "heap_ok (blank_host nm)"
  by (simp add: heap_ok_def blank_host_def)

end
