(* ===== verification/Sockqueue.thy ===== *)
theory Sockqueue
  imports Tcp_State
begin

text \<open>
  \<open>src/sockqueue.c\<close>: the queues of half-open and of accepted connections, singly linked
  lists of nodes with a size field. The operations work on the node map of the host; the
  predicate \<open>chain\<close> relates a pointer to the list of nodes reached from it, and the
  lemmas show each operation's effect on that list. The loops that walk the list take
  fuel; \<open>next_ptr\<close> is enough on every list of allocated nodes.
\<close>

section \<open>Operations\<close>

definition sockqueue_init :: "host \<Rightarrow> ptr \<times> host" where
  "sockqueue_init = malloc (\<lambda>p. set_queue p \<lparr>q_size = 0, q_base = NULL\<rparr>)"

definition sockqueue_size :: "ptr \<Rightarrow> host \<Rightarrow> int outcome" where
  "sockqueue_size q h = bindE (derefE (queues h q)) (\<lambda>qu. Inr (q_size qu))"

definition sockqueue_is_empty :: "ptr \<Rightarrow> host \<Rightarrow> bool outcome" where
  "sockqueue_is_empty q h = bindE (derefE (queues h q)) (\<lambda>qu. Inr (q_size qu = 0))"

text \<open>\<open>while (node->next != NULL) node = node->next\<close>.\<close>

fun last_node :: "nat \<Rightarrow> (ptr \<Rightarrow> sock_node option) \<Rightarrow> ptr \<Rightarrow> ptr outcome" where
  "last_node 0 ns p = Inl Blocked"
| "last_node (Suc k) ns p =
     bindE (derefE (ns p)) (\<lambda>n. if node_next n \<noteq> NULL then last_node k ns (node_next n) else Inr p)"

definition malloc_node :: "ptr \<Rightarrow> host \<Rightarrow> ptr \<times> host" where
  "malloc_node sock = malloc (\<lambda>p h. h\<lparr>nodes := (nodes h)(p \<mapsto> \<lparr>node_data = sock, node_next = NULL\<rparr>)\<rparr>)"

definition sockqueue_push :: "ptr \<Rightarrow> ptr \<Rightarrow> host \<Rightarrow> (int \<times> host) outcome" where
  "sockqueue_push q sock h =
     bindE (derefE (queues h q)) (\<lambda>qu.
       if q_size qu = MAX_QUEUE then Inr (-1, h)
       else if q_base qu = NULL then
         (let (new, h) = malloc_node sock h
          in Inr (0, set_queue q \<lparr>q_size = q_size qu + 1, q_base = new\<rparr> h))
       else bindE (last_node (next_ptr h) (nodes h) (q_base qu)) (\<lambda>node.
         let (new, h) = malloc_node sock h
         in bindE (derefE (nodes h node)) (\<lambda>n.
              Inr (q_size qu,
                   set_queue q (qu\<lparr>q_size := q_size qu + 1\<rparr>)
                     (h\<lparr>nodes := (nodes h)(node \<mapsto> n\<lparr>node_next := new\<rparr>)\<rparr>)))))"

text \<open>\<open>*sock = *(node->data)\<close>: the structure is copied into memory the caller provides.\<close>

definition copy_sock :: "ptr \<Rightarrow> ptr \<Rightarrow> host \<Rightarrow> host outcome" where
  "copy_sock dst src h =
     bindE (sock_at h src) (\<lambda>s. bindE (sock_at h dst) (\<lambda>_. Inr (set_sock dst s h)))"

definition sockqueue_pop :: "ptr \<Rightarrow> ptr \<Rightarrow> host \<Rightarrow> (int \<times> host) outcome" where
  "sockqueue_pop q sock h =
     bindE (sockqueue_is_empty q h) (\<lambda>e.
       if e then Inr (-1, h)
       else bindE (derefE (queues h q)) (\<lambda>qu.
            bindE (derefE (nodes h (q_base qu))) (\<lambda>n.
            bindE (copy_sock sock (node_data n) h) (\<lambda>h.
              Inr (0, set_queue q \<lparr>q_size = q_size qu - 1, q_base = node_next n\<rparr>
                        (h\<lparr>nodes := (nodes h)(q_base qu := None)\<rparr>))))))"

text \<open>\<open>for (i = 1; i < index; i++)\<close>: \<open>None\<close> when the list ends before.\<close>

fun walk_nodes :: "nat \<Rightarrow> (ptr \<Rightarrow> sock_node option) \<Rightarrow> ptr \<Rightarrow> ptr option outcome" where
  "walk_nodes 0 ns p = Inr (Some p)"
| "walk_nodes (Suc k) ns p =
     bindE (derefE (ns p)) (\<lambda>n.
       if node_next n = NULL then Inr None else walk_nodes k ns (node_next n))"

definition sockqueue_remove :: "ptr \<Rightarrow> ptr \<Rightarrow> int \<Rightarrow> host \<Rightarrow> (int \<times> host) outcome" where
  "sockqueue_remove q sock index h =
     bindE (sockqueue_is_empty q h) (\<lambda>e.
       if e then Inr (-1, h)
       else bindE (derefE (queues h q)) (\<lambda>qu.
         if index = 0 then
           bindE (derefE (nodes h (q_base qu))) (\<lambda>n.
           bindE (copy_sock sock (node_data n) h) (\<lambda>h.
             Inr (0, set_queue q (qu\<lparr>q_base := NULL\<rparr>)
                       (h\<lparr>nodes := (nodes h)(q_base qu := None)\<rparr>))))
         else
           bindE (walk_nodes (nat (index - 1)) (nodes h) (q_base qu)) (\<lambda>r.
             case r of None \<Rightarrow> Inr (-1, h)
             | Some prev \<Rightarrow>
                 bindE (derefE (nodes h prev)) (\<lambda>np.
                   if node_next np = NULL then Inr (-1, h)
                   else bindE (derefE (nodes h (node_next np))) (\<lambda>n.
                        let h1 = h\<lparr>nodes := (nodes h)(prev \<mapsto> np\<lparr>node_next := node_next n\<rparr>)\<rparr>
                        in bindE (copy_sock sock (node_data n) h1) (\<lambda>h2.
                             Inr (0, set_queue q (qu\<lparr>q_size := q_size qu - 1\<rparr>)
                                       (h2\<lparr>nodes := (nodes h2)(node_next np := None)\<rparr>))))))))"

section \<open>The list a chain of nodes represents\<close>

text \<open>
  \<open>seg ns p cells m\<close>: following \<open>next\<close> from \<open>p\<close> visits the nodes \<open>cells\<close> (address and
  data of each) and arrives at \<open>m\<close>. A chain is a segment that ends in \<open>NULL\<close>.
\<close>

fun seg :: "(ptr \<Rightarrow> sock_node option) \<Rightarrow> ptr \<Rightarrow> (ptr \<times> ptr) list \<Rightarrow> ptr \<Rightarrow> bool" where
  "seg ns p [] m \<longleftrightarrow> p = m"
| "seg ns p ((a, d) # cells) m \<longleftrightarrow>
     p = a \<and> a \<noteq> NULL \<and> (\<exists>nx. ns a = Some \<lparr>node_data = d, node_next = nx\<rparr> \<and> seg ns nx cells m)"

abbreviation chain :: "(ptr \<Rightarrow> sock_node option) \<Rightarrow> ptr \<Rightarrow> (ptr \<times> ptr) list \<Rightarrow> bool" where
  "chain ns p cells \<equiv> seg ns p cells NULL"

lemma chain_NULL [simp]: "chain ns 0 cells \<longleftrightarrow> cells = []"
  by (cases cells) auto

lemma seg_append [simp]: "seg ns p (xs @ ys) m \<longleftrightarrow> (\<exists>k. seg ns p xs k \<and> seg ns k ys m)"
  by (induction ns p xs m rule: seg.induct) auto

lemma seg_update [simp]: "a \<notin> fst ` set cells \<Longrightarrow> seg (ns(a := v)) p cells m = seg ns p cells m"
  by (induction ns p cells m rule: seg.induct) auto

lemma chain_unique: "chain ns p xs \<Longrightarrow> chain ns p ys \<Longrightarrow> xs = ys"
proof (induction ns p xs "NULL" arbitrary: ys rule: seg.induct)
  case (2 ns p a d cells)
  then obtain ys' where "ys = (a, d) # ys'"
    by (cases ys) auto
  with 2 show ?case
    by auto
qed auto

lemma chain_distinct: "chain ns p cells \<Longrightarrow> distinct (map fst cells)"
proof (induction cells arbitrary: p)
  case (Cons c cells)
  obtain a d where c: "c = (a, d)"
    by fastforce
  from Cons.prems obtain nx where nx: "ns a = Some \<lparr>node_data = d, node_next = nx\<rparr>"
    and ch: "chain ns nx cells"
    by (auto simp: c)
  have "a \<notin> fst ` set cells"
  proof
    assume "a \<in> fst ` set cells"
    then obtain d' us vs where split: "cells = us @ (a, d') # vs"
      by (force simp: in_set_conv_decomp)
    with ch have "chain ns a ((a, d') # vs)"
      by auto
    with nx have "chain ns nx vs"
      by auto
    with ch have "cells = vs"
      by (rule chain_unique)
    with split show False
      by (metis append_is_Nil_conv append_self_conv2 append_Cons append_eq_append_conv
          length_Cons length_append le_add2 not_less_eq_eq)
  qed
  with Cons.IH [OF ch] show ?case
    by (simp add: c)
qed simp

lemma seg_addresses: "seg ns p cells m \<Longrightarrow> a \<in> fst ` set cells \<Longrightarrow> a \<noteq> NULL \<and> ns a \<noteq> None"
  by (induction ns p cells m rule: seg.induct) auto

lemma chain_length:
  assumes "heap_ok h" and "chain (nodes h) p cells"
  shows "length cells < next_ptr h"
proof -
  have "fst ` set cells \<subseteq> {1..<next_ptr h}"
    using seg_addresses [OF assms(2)] heap_ok_bound(2) [OF assms(1)] by fastforce
  then have "card (fst ` set cells) \<le> card {1..<next_ptr h}"
    by (rule card_mono [rotated]) simp
  moreover have "card (fst ` set cells) = length cells"
    using chain_distinct [OF assms(2)] by (metis distinct_card length_map set_map)
  ultimately show ?thesis
    using heap_ok_fresh(5) [OF assms(1)] by simp
qed

lemma last_node_eq:
  "chain ns p (cells @ [(a, d)]) \<Longrightarrow> length cells < k \<Longrightarrow> last_node k ns p = Inr a"
proof (induction cells arbitrary: p k)
  case Nil
  then show ?case
    by (cases k) auto
next
  case (Cons c cells)
  obtain k' where k: "k = Suc k'"
    using Cons.prems(2) by (cases k) auto
  obtain b e where c: "c = (b, e)"
    by fastforce
  from Cons.prems(1) obtain nx where nx: "ns p = Some \<lparr>node_data = e, node_next = nx\<rparr>"
    and ch: "chain ns nx (cells @ [(a, d)])"
    by (auto simp: c)
  from ch have "nx \<noteq> NULL"
    by (metis append_is_Nil_conv chain_NULL not_Cons_self2)
  with Cons.IH [OF ch] Cons.prems(2) k nx show ?case
    by simp
qed

section \<open>Effect of the operations\<close>

text \<open>
  \<open>q_rep h q n cells\<close>: the queue at \<open>q\<close> has size field \<open>n\<close> and its chain visits \<open>cells\<close>.
  The size field is a separate argument because \<open>sockqueue_remove\<close> can let it differ from
  the length of the chain.
\<close>

definition q_rep :: "host \<Rightarrow> ptr \<Rightarrow> int \<Rightarrow> (ptr \<times> ptr) list \<Rightarrow> bool" where
  "q_rep h q n cells \<longleftrightarrow>
     (\<exists>b. queues h q = Some \<lparr>q_size = n, q_base = b\<rparr> \<and> chain (nodes h) b cells)"

text \<open>Only the list nodes, the queue and the allocator change.\<close>

definition queue_frame :: "ptr \<Rightarrow> ptr set \<Rightarrow> host \<Rightarrow> host \<Rightarrow> bool" where
  "queue_frame q as h h' \<longleftrightarrow>
     h' = h\<lparr>nodes := nodes h', queues := queues h', next_ptr := next_ptr h', socks := socks h'\<rparr>
     \<and> (\<forall>q'. q' \<noteq> q \<longrightarrow> queues h' q' = queues h q') \<and> (\<forall>a. a \<notin> as \<longrightarrow> nodes h' a = nodes h a)"

lemma seg_cong:
  "(\<And>a. a \<in> fst ` set cells \<Longrightarrow> ns' a = ns a) \<Longrightarrow> seg ns' p cells m = seg ns p cells m"
  by (induction ns p cells m rule: seg.induct) auto

lemma q_rep_frame:
  assumes "queue_frame q as h h'" and "q' \<noteq> q" and "as \<inter> fst ` set cells = {}"
  shows "q_rep h' q' n cells = q_rep h q' n cells"
proof -
  have "seg (nodes h') b cells NULL = seg (nodes h) b cells NULL" for b
    using assms by (intro seg_cong) (auto simp: queue_frame_def)
  then show ?thesis
    using assms by (simp add: q_rep_def queue_frame_def)
qed

lemma sockqueue_init_rep:
  assumes "heap_ok h" and "sockqueue_init h = (q, h')"
  shows "q_rep h' q 0 []" "heap_ok h'" "q = next_ptr h"
  using assms by (auto simp: sockqueue_init_def malloc_def q_rep_def heap_ok_def)

lemma sockqueue_push_effect:
  assumes ok: "heap_ok h" and rep: "q_rep h q n cells" and n: "n \<noteq> 1024"
  shows "\<exists>h'. sockqueue_push q s h = Inr (if cells = [] then 0 else n, h')
    \<and> q_rep h' q (n + 1) (cells @ [(next_ptr h, s)]) \<and> heap_ok h' \<and> socks h' = socks h
    \<and> next_ptr h' = next_ptr h + 1 \<and> queue_frame q (insert (next_ptr h) (fst ` set cells)) h h'"
proof -
  obtain b where q: "queues h q = Some \<lparr>q_size = n, q_base = b\<rparr>" and ch: "chain (nodes h) b cells"
    using rep by (auto simp: q_rep_def)
  let ?new = "next_ptr h"
  have fresh: "nodes h ?new = None" "?new \<noteq> NULL" "q < ?new" "0 < q"
    using heap_ok_fresh [OF ok] heap_ok_bound(3) [OF ok q] by simp_all
  show ?thesis
  proof (cases cells rule: rev_cases)
    case Nil
    then show ?thesis
      using q ch n fresh ok
      by (auto simp: sockqueue_push_def malloc_node_def malloc_def q_rep_def queue_frame_def heap_ok_def)
  next
    case (snoc cells' c)
    obtain a d where c: "c = (a, d)"
      by fastforce
    have len: "length cells' < ?new"
      using chain_length [OF ok ch] snoc by simp
    have last: "last_node ?new (nodes h) b = Inr a"
      using ch len unfolding snoc c by (rule last_node_eq)
    have a: "nodes h a = Some \<lparr>node_data = d, node_next = NULL\<rparr>" and seg: "seg (nodes h) b cells' a"
      and "a \<noteq> NULL"
      using ch by (auto simp: snoc c)
    have dist: "a \<notin> fst ` set cells'" "?new \<notin> fst ` set cells'" "a \<noteq> ?new"
      using chain_distinct [OF ch] seg_addresses [OF seg, of ?new] a fresh by (auto simp: snoc c)
    have "b \<noteq> NULL"
      using ch snoc by (metis append_is_Nil_conv chain_NULL not_Cons_self2)
    then have push: "sockqueue_push q s h = Inr (n, h
        \<lparr>nodes := (nodes h)(?new \<mapsto> \<lparr>node_data = s, node_next = NULL\<rparr>,
           a \<mapsto> \<lparr>node_data = d, node_next = ?new\<rparr>),
         queues := (queues h)(q \<mapsto> \<lparr>q_size = n + 1, q_base = b\<rparr>), next_ptr := ?new + 1\<rparr>)"
      using q n last a dist
      by (simp add: sockqueue_push_def malloc_node_def malloc_def)
    show ?thesis
      unfolding push using ok q seg dist fresh \<open>a \<noteq> NULL\<close> heap_ok_bound(2) [OF ok a]
      by (auto simp: q_rep_def queue_frame_def snoc c heap_ok_def)
  qed
qed

lemma sockqueue_push_full:
  "q_rep h q 1024 cells \<Longrightarrow> sockqueue_push q s h = Inr (-1, h)"
  by (auto simp: q_rep_def sockqueue_push_def)

lemma sockqueue_pop_effect:
  assumes ok: "heap_ok h" and rep: "q_rep h q n ((a, d) # cells)" and n: "n \<noteq> 0"
    and d: "socks h d = Some v" and dst: "socks h dst = Some w"
  shows "\<exists>h'. sockqueue_pop q dst h = Inr (0, h') \<and> q_rep h' q (n - 1) cells \<and> heap_ok h'
    \<and> socks h' = (socks h)(dst \<mapsto> v) \<and> next_ptr h' = next_ptr h \<and> queue_frame q {a} h h'"
proof -
  obtain b nx where q: "queues h q = Some \<lparr>q_size = n, q_base = a\<rparr>"
    and a: "nodes h a = Some \<lparr>node_data = d, node_next = nx\<rparr>" and ch: "chain (nodes h) nx cells"
    using rep by (auto simp: q_rep_def)
  have "a \<notin> fst ` set cells"
    using chain_distinct [of "nodes h" a "(a, d) # cells"] rep q by (auto simp: q_rep_def)
  then show ?thesis
    using ok q a ch n d dst heap_ok_bound(1) [OF ok dst] heap_ok_bound(3) [OF ok q]
    by (auto simp: sockqueue_pop_def sockqueue_is_empty_def copy_sock_def q_rep_def queue_frame_def
        heap_ok_def)
qed

lemma sockqueue_pop_empty: "q_rep h q 0 cells \<Longrightarrow> sockqueue_pop q dst h = Inr (-1, h)"
  by (auto simp: q_rep_def sockqueue_pop_def sockqueue_is_empty_def)

lemma seg_node:
  assumes "seg ns p (xs @ (a, d) # ys) m"
  shows "\<exists>nx. ns a = Some \<lparr>node_data = d, node_next = nx\<rparr> \<and> seg ns nx ys m"
  using assms by auto

lemma walk_nodes_eq:
  "chain ns p (xs @ (a, d) # ys) \<Longrightarrow> walk_nodes (length xs) ns p = Inr (Some a)"
proof (induction xs arbitrary: p)
  case (Cons c xs)
  obtain b e where c: "c = (b, e)"
    by fastforce
  from Cons.prems obtain nx where nx: "ns p = Some \<lparr>node_data = e, node_next = nx\<rparr>"
    and ch: "chain ns nx (xs @ (a, d) # ys)"
    by (auto simp: c)
  from ch have "nx \<noteq> NULL"
    by (metis append_is_Nil_conv chain_NULL list.distinct(1))
  with Cons.IH [OF ch] nx show ?case
    by simp
qed auto

lemma sockqueue_remove_head_effect:
  assumes ok: "heap_ok h" and rep: "q_rep h q n ((a, d) # cells)" and n: "n \<noteq> 0"
    and d: "socks h d = Some v" and dst: "socks h dst = Some w"
  shows "\<exists>h'. sockqueue_remove q dst 0 h = Inr (0, h') \<and> q_rep h' q n [] \<and> heap_ok h'
    \<and> socks h' = (socks h)(dst \<mapsto> v) \<and> next_ptr h' = next_ptr h \<and> queue_frame q {a} h h'"
proof -
  obtain nx where q: "queues h q = Some \<lparr>q_size = n, q_base = a\<rparr>"
    and a: "nodes h a = Some \<lparr>node_data = d, node_next = nx\<rparr>"
    using rep by (auto simp: q_rep_def)
  show ?thesis
    using ok q a n d dst heap_ok_bound(1) [OF ok dst] heap_ok_bound(3) [OF ok q]
    by (auto simp: sockqueue_remove_def sockqueue_is_empty_def copy_sock_def q_rep_def queue_frame_def
        heap_ok_def)
qed

lemma sockqueue_remove_inner_effect:
  assumes ok: "heap_ok h" and rep: "q_rep h q n (xs @ (a, d) # (b, e) # ys)" and n: "n \<noteq> 0"
    and e: "socks h e = Some v" and dst: "socks h dst = Some w"
  shows "\<exists>h'. sockqueue_remove q dst (int (length xs) + 1) h = Inr (0, h')
    \<and> q_rep h' q (n - 1) (xs @ (a, d) # ys) \<and> socks h' = (socks h)(dst \<mapsto> v)"
proof -
  obtain r where q: "queues h q = Some \<lparr>q_size = n, q_base = r\<rparr>"
    and ch: "chain (nodes h) r (xs @ (a, d) # (b, e) # ys)"
    using rep by (auto simp: q_rep_def)
  obtain nx where a: "nodes h a = Some \<lparr>node_data = d, node_next = b\<rparr>"
    and b: "nodes h b = Some \<lparr>node_data = e, node_next = nx\<rparr>"
    and segs: "seg (nodes h) r xs a" "chain (nodes h) nx ys" "b \<noteq> NULL" "a \<noteq> NULL"
    using ch by auto
  have walk: "walk_nodes (length xs) (nodes h) r = Inr (Some a)"
    using ch by (rule walk_nodes_eq)
  have dist: "a \<notin> fst ` set xs" "a \<notin> fst ` set ys" "b \<notin> fst ` set xs" "b \<notin> fst ` set ys" "a \<noteq> b"
    using chain_distinct [OF ch] by auto
  show ?thesis
    using q a b segs walk dist n e dst
    by (auto simp: sockqueue_remove_def sockqueue_is_empty_def copy_sock_def q_rep_def)
qed

section \<open>The queue interface of the connection manager\<close>

text \<open>
  The connection code pushes socket pointers and pops structure contents. The interface
  states what a push and a pop do to the list of pending sockets and to the sockets'
  contents; first-in first-out delivery of a whole batch is proved once from these laws.
\<close>

fun run_pushes :: "('s \<Rightarrow> 'h \<Rightarrow> 'e + (int \<times> 'h)) \<Rightarrow> 's list \<Rightarrow> 'h \<Rightarrow> 'e + 'h" where
  "run_pushes push [] h = Inr h"
| "run_pushes push (s # ss) h = bindE (push s h) (\<lambda>(r, h). run_pushes push ss h)"

locale conn_queue =
  fixes ok :: "'h \<Rightarrow> bool"
    and content :: "'h \<Rightarrow> 's \<Rightarrow> 'v option"
    and push :: "'s \<Rightarrow> 'h \<Rightarrow> 'e + (int \<times> 'h)"
    and pop :: "'s \<Rightarrow> 'h \<Rightarrow> 'e + (int \<times> 'h)"
    and rep :: "'h \<Rightarrow> 's list \<Rightarrow> bool"
    and cap :: nat
  assumes push_law: "ok h \<Longrightarrow> rep h ss \<Longrightarrow> length ss < cap \<Longrightarrow>
      \<exists>r h'. push s h = Inr (r, h') \<and> 0 \<le> r \<and> rep h' (ss @ [s]) \<and> ok h' \<and> content h' = content h"
    and push_full: "rep h ss \<Longrightarrow> length ss = cap \<Longrightarrow> push s h = Inr (-1, h)"
    and pop_law: "ok h \<Longrightarrow> rep h (s # ss) \<Longrightarrow> content h s = Some v \<Longrightarrow> content h d = Some w \<Longrightarrow>
      \<exists>h'. pop d h = Inr (0, h') \<and> rep h' ss \<and> ok h' \<and> content h' = (content h)(d \<mapsto> v)"
    and pop_empty: "rep h [] \<Longrightarrow> pop d h = Inr (-1, h)"
begin

lemma run_pushes_law:
  "ok h \<Longrightarrow> rep h ss \<Longrightarrow> length ss + length ts \<le> cap \<Longrightarrow>
     \<exists>h'. run_pushes push ts h = Inr h' \<and> rep h' (ss @ ts) \<and> ok h' \<and> content h' = content h"
proof (induction ts arbitrary: h ss)
  case (Cons t ts)
  then obtain r h1 where "push t h = Inr (r, h1)" and rep: "rep h1 (ss @ [t])" and ok: "ok h1"
    and c: "content h1 = content h"
    using push_law [of h ss t] by auto
  moreover have "length (ss @ [t]) + length ts \<le> cap"
    using Cons.prems by simp
  ultimately show ?case
    using Cons.IH [OF ok rep] by auto
qed auto

lemma run_pops_law:
  "ok h \<Longrightarrow> rep h ss \<Longrightarrow> map (content h) ss = map Some vs \<Longrightarrow> length ds = length ss \<Longrightarrow>
     (\<forall>d \<in> set ds. content h d \<noteq> None) \<Longrightarrow> distinct ds \<Longrightarrow> set ds \<inter> set ss = {} \<Longrightarrow>
     \<exists>h'. run_pushes pop ds h = Inr h' \<and> rep h' [] \<and> ok h' \<and> map (content h') ds = map Some vs
       \<and> (\<forall>x. x \<notin> set ds \<longrightarrow> content h' x = content h x)"
proof (induction ss arbitrary: h vs ds)
  case (Cons s ss)
  obtain v vs' where vs: "vs = v # vs'"
    using Cons.prems(3) by (cases vs) auto
  obtain d ds' where ds: "ds = d # ds'"
    using Cons.prems(4) by (cases ds) auto
  obtain w where w: "content h d = Some w"
    using Cons.prems(5) by (auto simp: ds)
  have v: "content h s = Some v"
    using Cons.prems(3) by (simp add: vs)
  obtain h1 where pop: "pop d h = Inr (0, h1)" and rep: "rep h1 ss" and ok: "ok h1"
    and c: "content h1 = (content h)(d \<mapsto> v)"
    using pop_law [OF Cons.prems(1,2) v w] by auto
  have "map (content h1) ss = map Some vs'"
    using Cons.prems(3,7) by (auto simp: c vs ds)
  moreover have "\<forall>x \<in> set ds'. content h1 x \<noteq> None"
    using Cons.prems(5) by (simp add: c ds)
  ultimately obtain h2 where "run_pushes pop ds' h1 = Inr h2" "rep h2 []" "ok h2"
    "map (content h2) ds' = map Some vs'" "\<forall>x. x \<notin> set ds' \<longrightarrow> content h2 x = content h1 x"
    using Cons.IH [OF ok rep, of vs' ds'] Cons.prems(4,6,7) by (auto simp: ds)
  then show ?case
    using Cons.prems(6) by (intro exI [of _ h2]) (auto simp: ds vs pop c)
qed auto

lemma fifo:
  assumes "ok h" "rep h []" "length ss \<le> cap" "map (content h) ss = map Some vs"
    "length ds = length ss" "\<forall>d \<in> set ds. content h d \<noteq> None" "distinct ds" "set ds \<inter> set ss = {}"
  shows "\<exists>h1 h2. run_pushes push ss h = Inr h1 \<and> run_pushes pop ds h1 = Inr h2
    \<and> map (content h2) ds = map Some vs \<and> rep h2 []"
proof -
  obtain h1 where h1: "run_pushes push ss h = Inr h1" "rep h1 ss" "ok h1" "content h1 = content h"
    using run_pushes_law [OF assms(1,2), of ss] assms(3) by auto
  then show ?thesis
    using run_pops_law [OF h1(3,2), of vs ds] assms by auto
qed

end

definition pending :: "ptr \<Rightarrow> host \<Rightarrow> ptr list \<Rightarrow> bool" where
  "pending q h ss \<longleftrightarrow> (\<exists>cells. q_rep h q (int (length ss)) cells \<and> map snd cells = ss)"

interpretation sq: conn_queue heap_ok socks "sockqueue_push q" "sockqueue_pop q" "pending q" 1024
  for q :: ptr
proof unfold_locales
  fix h ss s
  assume ok: "heap_ok h" and "pending q h ss" and "length ss < 1024"
  then obtain cells where rep: "q_rep h q (int (length ss)) cells" and cells: "map snd cells = ss"
    by (auto simp: pending_def)
  show "\<exists>r h'. sockqueue_push q s h = Inr (r, h') \<and> 0 \<le> r \<and> pending q h' (ss @ [s]) \<and> heap_ok h'
      \<and> socks h' = socks h"
    using sockqueue_push_effect [OF ok rep, of s] \<open>length ss < 1024\<close> cells
    by (auto simp: pending_def add.commute intro!: exI [of _ "cells @ [(next_ptr h, s)]"])
next
  fix h ss s
  assume "pending q h ss" and "length ss = 1024"
  then show "sockqueue_push q s h = Inr (-1, h)"
    using sockqueue_push_full by (auto simp: pending_def)
next
  fix h s ss v d w
  assume ok: "heap_ok h" and "pending q h (s # ss)" and v: "socks h s = Some v"
    and d: "socks h d = Some w"
  then obtain a cells where rep: "q_rep h q (int (length ss) + 1) ((a, s) # cells)"
    and cells: "map snd cells = ss"
    by (auto simp: pending_def Cons_eq_map_conv add.commute)
  then show "\<exists>h'. sockqueue_pop q d h = Inr (0, h') \<and> pending q h' ss \<and> heap_ok h'
      \<and> socks h' = (socks h)(d \<mapsto> v)"
    using sockqueue_pop_effect [OF ok rep _ v d] cells by (auto simp: pending_def)
next
  fix h d
  assume "pending q h []"
  then show "sockqueue_pop q d h = Inr (-1, h)"
    using sockqueue_pop_empty by (auto simp: pending_def)
qed

section \<open>Properties\<close>

text \<open>
  C24: The socket queue is first-in first-out. Pushing up to 1024 sockets onto an empty
  queue succeeds, and popping as many into other socket structures succeeds and copies
  the contents out in the order of the pushes.
\<close>

theorem sockqueue_fifo:
  assumes "heap_ok h" "pending q h []" "length ss \<le> 1024" "map (socks h) ss = map Some vs"
    "length ds = length ss" "\<forall>d \<in> set ds. socks h d \<noteq> None" "distinct ds" "set ds \<inter> set ss = {}"
  shows "\<exists>h1 h2. run_pushes (sockqueue_push q) ss h = Inr h1
    \<and> run_pushes (sockqueue_pop q) ds h1 = Inr h2 \<and> map (socks h2) ds = map Some vs"
  using sq.fifo [OF assms] by blast

definition four_socks :: "hostname \<Rightarrow> host" where
  "four_socks nm = (blank_host nm)\<lparr>next_ptr := 6,
     queues := [5 \<mapsto> \<lparr>q_size = 0, q_base = NULL\<rparr>],
     socks := [1 \<mapsto> blank_sock\<lparr>cwnd := 11\<rparr>, 2 \<mapsto> blank_sock\<lparr>cwnd := 22\<rparr>, 3 \<mapsto> blank_sock, 4 \<mapsto> blank_sock]\<rparr>"

lemma sockqueue_fifo_witness:
  "\<exists>h1 h2. run_pushes (sockqueue_push 5) [1, 2] (four_socks Server) = Inr h1
    \<and> run_pushes (sockqueue_pop 5) [3, 4] h1 = Inr h2
    \<and> map (socks h2) [3, 4] = [Some (blank_sock\<lparr>cwnd := 11\<rparr>), Some (blank_sock\<lparr>cwnd := 22\<rparr>)]"
proof -
  have "heap_ok (four_socks Server)"
    by (simp add: heap_ok_def four_socks_def blank_host_def)
  moreover have "pending 5 (four_socks Server) []"
    by (simp add: pending_def q_rep_def four_socks_def)
  moreover have "map (socks (four_socks Server)) [1, 2]
      = map Some [blank_sock\<lparr>cwnd := 11\<rparr>, blank_sock\<lparr>cwnd := 22\<rparr>]"
    by (simp add: four_socks_def)
  moreover have "\<forall>d \<in> set [3, 4]. socks (four_socks Server) d \<noteq> None"
    by (simp add: four_socks_def)
  ultimately show ?thesis
    using sockqueue_fifo [of "four_socks Server" 5 "[1, 2]"
        "[blank_sock\<lparr>cwnd := 11\<rparr>, blank_sock\<lparr>cwnd := 22\<rparr>]" "[3, 4]"]
    by simp
qed

text \<open>
  C37: Removing the entry with index 0 empties the chain but does not decrease the size:
  every other pending socket is lost, and the next pop of the queue, which its size says
  is not empty, dereferences \<open>NULL\<close>.
\<close>

theorem sockqueue_remove_head_loses:
  assumes ok: "heap_ok h" and rep: "q_rep h q n ((a, d) # cells)" and n: "n \<noteq> 0"
    and d: "socks h d = Some v" and dst: "socks h dst = Some w"
  shows "\<exists>h'. sockqueue_remove q dst 0 h = Inr (0, h') \<and> q_rep h' q n []
    \<and> sockqueue_pop q dst h' = Inl (Undefined BadPointer)"
proof -
  obtain h' where h': "sockqueue_remove q dst 0 h = Inr (0, h')" "q_rep h' q n []" "heap_ok h'"
    using sockqueue_remove_head_effect [OF assms] by blast
  then have "sockqueue_pop q dst h' = Inl (Undefined BadPointer)"
    using n heap_ok_null(2) [OF h'(3)]
    by (auto simp: q_rep_def sockqueue_pop_def sockqueue_is_empty_def)
  with h' show ?thesis
    by blast
qed

lemma sockqueue_remove_head_loses_witness:
  "\<exists>h h'. sockqueue_remove 5 3 0 h = Inr (0, h') \<and> q_rep h 5 2 [(6, 1), (7, 2)]
    \<and> q_rep h' 5 2 [] \<and> sockqueue_pop 5 3 h' = Inl (Undefined BadPointer)"
proof -
  define h where "h = (four_socks Server)\<lparr>next_ptr := 8,
    queues := [5 \<mapsto> \<lparr>q_size = 2, q_base = 6\<rparr>],
    nodes := [6 \<mapsto> \<lparr>node_data = 1, node_next = 7\<rparr>, 7 \<mapsto> \<lparr>node_data = 2, node_next = NULL\<rparr>]\<rparr>"
  have "heap_ok h"
    by (simp add: heap_ok_def h_def four_socks_def blank_host_def)
  moreover have rep: "q_rep h 5 2 [(6, 1), (7, 2)]"
    by (simp add: q_rep_def h_def)
  moreover have "socks h 1 = Some (blank_sock\<lparr>cwnd := 11\<rparr>)" "socks h 3 = Some blank_sock"
    by (simp_all add: h_def four_socks_def)
  ultimately show ?thesis
    using sockqueue_remove_head_loses [of h 5 2 6 1 "[(7, 2)]" _ 3] by (simp, blast)
qed

end
