(* ===== verification/Queue.thy ===== *)
theory Queue
  imports Tcp_Prelude
begin

text \<open>
  \<open>src/queue.c\<close>: the bounded circular buffer behind buffered channels. Values are any
  type in place of \<open>void*\<close>; \<open>None\<close> is the \<open>NULL\<close> that an empty queue returns. The
  allocator is an argument of \<open>queue_init\<close>: whether the two \<open>malloc\<close> calls succeed, and
  what the new array contains. The queue is refined to a bounded list, and the interface
  the channel code relies on is a locale interpreted here.
\<close>

datatype errno = EINVAL | ENOMEM | ENOBUFS | EPIPE

record 'a queue_t =
  ring_size :: int
  ring_next :: int
  ring_capacity :: int
  ring_data :: "'a list"

section \<open>Operations\<close>

definition queue_at_capacity :: "'a queue_t \<Rightarrow> bool" where
  "queue_at_capacity q \<longleftrightarrow> ring_capacity q \<le> ring_size q"

text \<open>\<open>INT_MAX / sizeof(void*)\<close> on the 64-bit hosts.\<close>

definition max_capacity :: nat where
  "max_capacity = 2147483647 div 8"

definition queue_init :: "bool \<Rightarrow> (nat \<Rightarrow> 'a list) \<Rightarrow> nat \<Rightarrow> errno + 'a queue_t" where
  "queue_init mem junk cap =
     (if max_capacity < cap then Inl EINVAL
      else if \<not> mem then Inl ENOMEM
      else Inr \<lparr>ring_size = 0, ring_next = 0, ring_capacity = int cap, ring_data = junk cap\<rparr>)"

definition queue_add :: "'a \<Rightarrow> 'a queue_t \<Rightarrow> errno + 'a queue_t" where
  "queue_add v q =
     (if queue_at_capacity q then Inl ENOBUFS
      else let pos = ring_next q + ring_size q;
               pos = (if ring_capacity q \<le> pos then pos - ring_capacity q else pos)
           in Inr (q\<lparr>ring_data := (ring_data q)[nat pos := v], ring_size := ring_size q + 1\<rparr>))"

definition queue_remove :: "'a queue_t \<Rightarrow> 'a option \<times> 'a queue_t" where
  "queue_remove q =
     (if 0 < ring_size q then
        let v = ring_data q ! nat (ring_next q);
            q = q\<lparr>ring_next := ring_next q + 1, ring_size := ring_size q - 1\<rparr>
        in (Some v, if ring_capacity q \<le> ring_next q
                    then q\<lparr>ring_next := ring_next q - ring_capacity q\<rparr> else q)
      else (None, q))"

definition queue_peek :: "'a queue_t \<Rightarrow> 'a option" where
  "queue_peek q = (if ring_size q \<noteq> 0 then Some (ring_data q ! nat (ring_next q)) else None)"

section \<open>Invariant and abstraction\<close>

definition queue_inv :: "'a queue_t \<Rightarrow> bool" where
  "queue_inv q \<longleftrightarrow> ring_capacity q = int (length (ring_data q))
     \<and> 0 \<le> ring_size q \<and> ring_size q \<le> ring_capacity q
     \<and> 0 \<le> ring_next q \<and> (ring_next q < ring_capacity q \<or> ring_next q = 0)"

definition queue_list :: "'a queue_t \<Rightarrow> 'a list" where
  "queue_list q = map (\<lambda>i. ring_data q ! ((nat (ring_next q) + i) mod length (ring_data q)))
     [0..<nat (ring_size q)]"

lemma length_queue_list [simp]: "length (queue_list q) = nat (ring_size q)"
  by (simp add: queue_list_def)

lemma ring_index: "n < c \<Longrightarrow> i \<le> c \<Longrightarrow> (n + i) mod c = (if n + i < c then n + i else n + i - c)"
  for n c i :: nat
  by (simp add: le_mod_geq)

text \<open>The slot written by an add lies in the array and holds no queued value.\<close>

lemma queue_add_slot:
  assumes inv: "queue_inv q" and free: "\<not> queue_at_capacity q"
  defines "pos \<equiv> (let p = ring_next q + ring_size q
                  in if ring_capacity q \<le> p then p - ring_capacity q else p)"
  shows "0 \<le> pos" "nat pos < length (ring_data q)"
    "nat pos = (nat (ring_next q) + nat (ring_size q)) mod length (ring_data q)"
proof -
  let ?c = "length (ring_data q)" and ?n = "nat (ring_next q)" and ?s = "nat (ring_size q)"
  have b: "?n < ?c" "?s < ?c" "0 \<le> ring_next q" "0 \<le> ring_size q" "ring_capacity q = int ?c"
    using inv free by (auto simp: queue_inv_def queue_at_capacity_def)
  then show "0 \<le> pos" "nat pos < ?c"
    by (auto simp: pos_def Let_def)
  have "nat pos = (if ?n + ?s < ?c then ?n + ?s else ?n + ?s - ?c)"
    using b by (auto simp: pos_def Let_def nat_diff_distrib nat_add_distrib)
  then show "nat pos = (?n + ?s) mod ?c"
    using b ring_index [of ?n ?c ?s] by simp
qed

lemma ring_index_inj:
  fixes n c i j :: nat
  assumes "n < c" "i < c" "j < c" "(n + i) mod c = (n + j) mod c"
  shows "i = j"
  using assms(4) ring_index [of n c i] ring_index [of n c j] assms(1-3) by (simp split: if_splits)

lemma queue_add_list:
  assumes inv: "queue_inv q" and add: "queue_add v q = Inr q'"
  shows "queue_list q' = queue_list q @ [v]" "queue_inv q'" "ring_capacity q' = ring_capacity q"
proof -
  let ?c = "length (ring_data q)" and ?n = "nat (ring_next q)" and ?s = "nat (ring_size q)"
  have free: "\<not> queue_at_capacity q"
    using add by (auto simp: queue_add_def split: if_splits)
  have b: "?n < ?c" "?s < ?c" "0 \<le> ring_size q" "0 \<le> ring_next q"
    using inv free by (auto simp: queue_inv_def queue_at_capacity_def)
  have q': "q' = q\<lparr>ring_data := (ring_data q)[(?n + ?s) mod ?c := v], ring_size := ring_size q + 1\<rparr>"
    using add free queue_add_slot(3) [OF inv free] by (simp add: queue_add_def Let_def)
  have "(ring_data q)[(?n + ?s) mod ?c := v] ! ((?n + i) mod ?c) = ring_data q ! ((?n + i) mod ?c)"
    if "i < ?s" for i
    using that b ring_index_inj [of ?n ?c i ?s] by (metis less_trans nat_neq_iff nth_list_update_neq)
  moreover have "nat (ring_size q + 1) = Suc ?s" "(?n + ?s) mod ?c < ?c"
    using b by (auto simp: nat_add_distrib intro!: mod_less_divisor)
  ultimately show "queue_list q' = queue_list q @ [v]"
    by (simp add: queue_list_def q')
  show "queue_inv q'" "ring_capacity q' = ring_capacity q"
    using inv free by (auto simp: queue_inv_def queue_at_capacity_def q')
qed

lemma queue_remove_list:
  assumes inv: "queue_inv q" and "queue_remove q = (r, q')"
  shows "queue_list q' = tl (queue_list q)" "queue_inv q'" "ring_capacity q' = ring_capacity q"
    "r = (if queue_list q = [] then None else Some (hd (queue_list q)))"
proof -
  let ?c = "length (ring_data q)" and ?n = "nat (ring_next q)" and ?s = "nat (ring_size q)"
  have *: "queue_list q' = tl (queue_list q) \<and> queue_inv q' \<and> ring_capacity q' = ring_capacity q
    \<and> r = (if queue_list q = [] then None else Some (hd (queue_list q)))"
  proof (cases "0 < ring_size q")
    case False
    with assms show ?thesis
      by (auto simp: queue_remove_def queue_inv_def queue_list_def)
  next
    case True
    define m where "m = (if ring_capacity q \<le> ring_next q + 1 then 0 else ring_next q + 1)"
    have b: "?n < ?c" "0 \<le> ring_next q" "ring_capacity q = int ?c" "ring_size q \<le> int ?c"
      using inv True by (auto simp: queue_inv_def)
    have r: "r = Some (ring_data q ! ?n)"
      and q': "q' = q\<lparr>ring_next := m, ring_size := ring_size q - 1\<rparr>"
      using assms(2) True b by (auto simp: queue_remove_def Let_def m_def split: if_splits)
    have upt: "[0..<?s] = 0 # map Suc [0..<?s - 1]"
      using True by (simp add: upt_conv_Cons map_Suc_upt)
    have "(nat m + i) mod ?c = (?n + Suc i) mod ?c" for i
    proof -
      have "nat m = Suc ?n mod ?c"
        using b by (auto simp: m_def nat_add_distrib mod_Suc)
      then show ?thesis
        by (metis add_Suc_shift mod_add_left_eq)
    qed
    then have "queue_list q' = tl (queue_list q)"
      using True by (simp add: queue_list_def q' upt nat_diff_distrib comp_def del: upt_Suc)
    moreover have "queue_list q \<noteq> []" "hd (queue_list q) = ring_data q ! ?n"
      using True b by (auto simp: queue_list_def upt)
    ultimately show ?thesis
      using inv True b r by (auto simp: queue_inv_def q' m_def)
  qed
  then show "queue_list q' = tl (queue_list q)" "queue_inv q'" "ring_capacity q' = ring_capacity q"
    "r = (if queue_list q = [] then None else Some (hd (queue_list q)))"
    by simp_all
qed

lemma queue_peek_list:
  "queue_inv q \<Longrightarrow> queue_peek q = (if queue_list q = [] then None else Some (hd (queue_list q)))"
  using queue_remove_list(4) [of q "fst (queue_remove q)" "snd (queue_remove q)"]
  by (auto simp: queue_peek_def queue_remove_def queue_inv_def Let_def queue_list_def)

section \<open>The interface of the channels\<close>

text \<open>
  A channel adds and removes values through a bounded queue: a queue that represents a
  list, accepts a value while the list is shorter than its capacity, and gives the values
  back in order. \<open>run_queue\<close> performs a sequence of operations, and \<open>run_spec\<close> is the
  same on a plain list with a bound.
\<close>

datatype 'a queue_op = Add 'a | Remove

datatype 'a queue_res = Added | Refused | Removed "'a option"

fun run_queue :: "('a \<Rightarrow> 'q \<Rightarrow> 'e + 'q) \<Rightarrow> ('q \<Rightarrow> 'a option \<times> 'q) \<Rightarrow> 'a queue_op list \<Rightarrow> 'q
    \<Rightarrow> 'a queue_res list \<times> 'q" where
  "run_queue add rem [] q = ([], q)"
| "run_queue add rem (Add v # ops) q =
     (case add v q of
        Inl e \<Rightarrow> (let (rs, q') = run_queue add rem ops q in (Refused # rs, q'))
      | Inr q1 \<Rightarrow> (let (rs, q') = run_queue add rem ops q1 in (Added # rs, q')))"
| "run_queue add rem (Remove # ops) q =
     (let (r, q1) = rem q; (rs, q') = run_queue add rem ops q1 in (Removed r # rs, q'))"

fun run_spec :: "nat \<Rightarrow> 'a queue_op list \<Rightarrow> 'a list \<Rightarrow> 'a queue_res list \<times> 'a list" where
  "run_spec c [] xs = ([], xs)"
| "run_spec c (Add v # ops) xs =
     (if length xs < c
      then let (rs, ys) = run_spec c ops (xs @ [v]) in (Added # rs, ys)
      else let (rs, ys) = run_spec c ops xs in (Refused # rs, ys))"
| "run_spec c (Remove # ops) xs =
     (let (rs, ys) = run_spec c ops (tl xs)
      in (Removed (if xs = [] then None else Some (hd xs)) # rs, ys))"

locale bounded_queue =
  fixes add :: "'a \<Rightarrow> 'q \<Rightarrow> 'e + 'q"
    and rem :: "'q \<Rightarrow> 'a option \<times> 'q"
    and lst :: "'q \<Rightarrow> 'a list"
    and inv :: "'q \<Rightarrow> bool"
    and cap :: "'q \<Rightarrow> nat"
  assumes bound: "inv q \<Longrightarrow> length (lst q) \<le> cap q"
    and add_ok: "inv q \<Longrightarrow> length (lst q) < cap q \<Longrightarrow>
      \<exists>q'. add v q = Inr q' \<and> inv q' \<and> lst q' = lst q @ [v] \<and> cap q' = cap q"
    and add_full: "inv q \<Longrightarrow> length (lst q) = cap q \<Longrightarrow> \<exists>e. add v q = Inl e"
    and rem_law: "inv q \<Longrightarrow> rem q = (r, q') \<Longrightarrow> inv q' \<and> lst q' = tl (lst q) \<and> cap q' = cap q
      \<and> r = (if lst q = [] then None else Some (hd (lst q)))"
begin

lemma run_refines:
  "inv q \<Longrightarrow> run_queue add rem ops q = (rs, q') \<Longrightarrow>
     inv q' \<and> cap q' = cap q \<and> run_spec (cap q) ops (lst q) = (rs, lst q')"
proof (induction ops arbitrary: q rs q')
  case (Cons x ops)
  show ?case
  proof (cases x)
    case (Add v)
    show ?thesis
    proof (cases "length (lst q) < cap q")
      case True
      then obtain q1 where q1: "add v q = Inr q1" "inv q1" "lst q1 = lst q @ [v]" "cap q1 = cap q"
        using add_ok [OF Cons.prems(1)] by blast
      obtain rs1 where run: "run_queue add rem ops q1 = (rs1, q')" and "rs = Added # rs1"
        using Cons.prems(2) by (auto simp: Add q1 split: prod.splits)
      with Cons.IH [OF q1(2) run] True q1 show ?thesis
        by (simp add: Add)
    next
      case False
      then obtain e where e: "add v q = Inl e"
        using add_full [OF Cons.prems(1)] bound [OF Cons.prems(1)] by fastforce
      obtain rs1 where run: "run_queue add rem ops q = (rs1, q')" and "rs = Refused # rs1"
        using Cons.prems(2) by (auto simp: Add e split: prod.splits)
      with Cons.IH [OF Cons.prems(1) run] False show ?thesis
        by (simp add: Add)
    qed
  next
    case Remove
    obtain r q1 where r: "rem q = (r, q1)"
      by fastforce
    then obtain rs1 where run: "run_queue add rem ops q1 = (rs1, q')" and "rs = Removed r # rs1"
      using Cons.prems(2) by (auto simp: Remove split: prod.splits)
    with Cons.IH [of q1 rs1 q'] rem_law [OF Cons.prems(1) r] show ?thesis
      by (simp add: Remove)
  qed
qed simp

end

interpretation ring: bounded_queue queue_add queue_remove queue_list queue_inv
    "\<lambda>q. nat (ring_capacity q)"
proof unfold_locales
  fix q :: "'a queue_t" and v
  assume inv: "queue_inv q"
  then show "length (queue_list q) \<le> nat (ring_capacity q)"
    by (auto simp: queue_inv_def)
  show "\<exists>q'. queue_add v q = Inr q' \<and> queue_inv q' \<and> queue_list q' = queue_list q @ [v]
      \<and> nat (ring_capacity q') = nat (ring_capacity q)"
    if "length (queue_list q) < nat (ring_capacity q)"
  proof -
    have "ring_size q < ring_capacity q"
      using that inv by (auto simp: queue_inv_def)
    then obtain q' where "queue_add v q = Inr q'"
      by (auto simp: queue_add_def queue_at_capacity_def Let_def)
    with queue_add_list [OF inv this] show ?thesis
      by auto
  qed
  show "\<exists>e. queue_add v q = Inl e" if "length (queue_list q) = nat (ring_capacity q)"
    using that inv by (auto simp: queue_add_def queue_at_capacity_def queue_inv_def)
next
  fix q :: "'a queue_t" and r q'
  assume "queue_inv q" and "queue_remove q = (r, q')"
  then show "queue_inv q' \<and> queue_list q' = tl (queue_list q)
      \<and> nat (ring_capacity q') = nat (ring_capacity q)
      \<and> r = (if queue_list q = [] then None else Some (hd (queue_list q)))"
    using queue_remove_list [of q r q'] by simp
qed

section \<open>Properties\<close>

lemma queue_init_inv:
  assumes "queue_init mem junk cap = Inr q" and "length (junk cap) = cap"
  shows "queue_inv q" "queue_list q = []" "ring_capacity q = int cap"
  using assms by (auto simp: queue_init_def queue_inv_def queue_list_def split: if_splits)

text \<open>
  C20: The circular buffer implements a bounded list. From a freshly initialised queue of
  capacity \<open>cap\<close>, every sequence of adds and removes gives exactly the results of the
  plain list of at most \<open>cap\<close> values: the same acceptances, refusals and removed values.
\<close>

theorem queue_refines_list:
  assumes "queue_init mem junk cap = Inr q" and "length (junk cap) = cap"
  shows "fst (run_queue queue_add queue_remove ops q) = fst (run_spec cap ops [])"
proof -
  obtain rs q' where run: "run_queue queue_add queue_remove ops q = (rs, q')"
    by fastforce
  with ring.run_refines [OF queue_init_inv(1) [OF assms] run] queue_init_inv(2,3) [OF assms]
  show ?thesis
    by simp
qed

lemma queue_refines_list_witness:
  "\<exists>q. queue_init True (\<lambda>n. replicate n 0) 2 = Inr q
    \<and> fst (run_queue queue_add queue_remove
             [Add 1, Add 2, Add 3, Remove, Add (4 :: nat), Remove, Remove, Remove] q)
      = [Added, Added, Refused, Removed (Some 1), Added, Removed (Some 2), Removed (Some 4), Removed None]"
proof -
  obtain q :: "nat queue_t" where q: "queue_init True (\<lambda>n. replicate n 0) 2 = Inr q"
    by (simp add: queue_init_def max_capacity_def)
  show ?thesis
    using queue_refines_list [OF q, of "[Add 1, Add 2, Add 3, Remove, Add 4, Remove, Remove, Remove]"] q
    by simp
qed

end
