(* ===== verification/Float32.thy ===== *)
theory Float32
  imports Tcp_Prelude Complex_Main "HOL-Library.Log_Nat"
begin

text \<open>
  The C type \<open>float\<close>, as far as the timer, the congestion controller and the window test
  use it: a value is the rational number it denotes, and every operation rounds its exact
  result to 24 significant bits, ties to even (IEEE 754 binary32, round to nearest).
  Infinities, subnormal numbers and overflow are outside the range the program reaches
  and are not represented: \<open>fl32\<close> has an unbounded exponent.
\<close>

section \<open>Rounding\<close>

definition round_even :: "rat \<Rightarrow> int" where
  "round_even x =
     (let f = \<lfloor>x\<rfloor>; r = x - of_int f
      in if r < 1 / 2 then f else if 1 / 2 < r then f + 1 else if even f then f else f + 1)"

text \<open>The binary exponent of a non-zero number: the \<open>e\<close> with \<open>2^e \<le> \<bar>x\<bar> < 2^(e+1)\<close>.\<close>

definition f_exponent :: "rat \<Rightarrow> int" where
  "f_exponent x =
     (let (p, q) = quotient_of x; e = bitlen \<bar>p\<bar> - bitlen q
      in if \<bar>x\<bar> < 2 powi e then e - 1 else e)"

definition fl32 :: "rat \<Rightarrow> rat" where
  "fl32 x =
     (if x = 0 then 0
      else let e = f_exponent x in of_int (round_even (x * 2 powi (23 - e))) * 2 powi (e - 23))"

text \<open>The operations: conversion from \<open>int\<close>, the arithmetic, and conversion to \<open>int\<close>,
  which discards the fraction.\<close>

definition f_of_int :: "int \<Rightarrow> rat" where
  "f_of_int i = fl32 (of_int i)"

definition f_add :: "rat \<Rightarrow> rat \<Rightarrow> rat" where
  "f_add a b = fl32 (a + b)"

definition f_sub :: "rat \<Rightarrow> rat \<Rightarrow> rat" where
  "f_sub a b = fl32 (a - b)"

definition f_mul :: "rat \<Rightarrow> rat \<Rightarrow> rat" where
  "f_mul a b = fl32 (a * b)"

definition f_div :: "rat \<Rightarrow> rat \<Rightarrow> rat" where
  "f_div a b = fl32 (a / b)"

definition f_to_int :: "rat \<Rightarrow> int" where
  "f_to_int x = (if 0 \<le> x then \<lfloor>x\<rfloor> else - \<lfloor>- x\<rfloor>)"

text \<open>A rational that is a \<open>float\<close> value.\<close>

definition is_f32 :: "rat \<Rightarrow> bool" where
  "is_f32 x \<longleftrightarrow> fl32 x = x"

section \<open>Bounds\<close>

lemma round_even_ge: "of_int i \<le> x \<Longrightarrow> i \<le> round_even x"
proof -
  assume "of_int i \<le> x"
  then have "i \<le> \<lfloor>x\<rfloor>"
    by (simp add: le_floor_iff)
  then show ?thesis
    by (auto simp: round_even_def Let_def)
qed

lemma round_even_le: "x \<le> of_int i \<Longrightarrow> round_even x \<le> i"
proof -
  assume le: "x \<le> of_int i"
  then have f: "\<lfloor>x\<rfloor> \<le> i"
    by (simp add: floor_le_iff)
  show ?thesis
  proof (cases "\<lfloor>x\<rfloor> = i")
    case True
    with le have "x - of_int \<lfloor>x\<rfloor> \<le> 0"
      by simp
    then show ?thesis
      using f by (auto simp: round_even_def Let_def)
  next
    case False
    with f have "\<lfloor>x\<rfloor> + 1 \<le> i"
      by simp
    then show ?thesis
      by (auto simp: round_even_def Let_def)
  qed
qed

lemma round_even_of_int [simp]: "round_even (of_int i) = i"
  by (intro antisym round_even_ge round_even_le) simp_all

lemma round_even_mono: "x \<le> y \<Longrightarrow> round_even x \<le> round_even y"
proof -
  assume le: "x \<le> y"
  then have f: "\<lfloor>x\<rfloor> \<le> \<lfloor>y\<rfloor>"
    by (rule floor_mono)
  show ?thesis
  proof (cases "\<lfloor>x\<rfloor> = \<lfloor>y\<rfloor>")
    case True
    with le have "x - of_int \<lfloor>x\<rfloor> \<le> y - of_int \<lfloor>y\<rfloor>"
      by simp
    with True show ?thesis
      by (auto simp: round_even_def Let_def)
  next
    case False
    with f have "x \<le> of_int \<lfloor>y\<rfloor>"
      using le by (meson floor_less_iff not_le order_le_less)
    then have "round_even x \<le> \<lfloor>y\<rfloor>"
      by (rule round_even_le)
    also have "\<dots> \<le> round_even y"
      by (rule round_even_ge) simp
    finally show ?thesis .
  qed
qed

lemma bitlen_bounds_powi:
  assumes "0 < p"
  shows "(2 :: rat) powi (bitlen p - 1) \<le> of_int p" and "of_int p < (2 :: rat) powi bitlen p"
proof -
  have pos: "1 \<le> bitlen p"
    using assms by (simp add: bitlen_alt_def)
  have b: "2 ^ nat (bitlen p - 1) \<le> p" "p < 2 ^ nat (bitlen p)"
    using bitlen_bounds [OF assms] by simp_all
  have "(2 :: rat) powi (bitlen p - 1) = of_int (2 ^ nat (bitlen p - 1))"
    using pos by (simp add: power_int_nonneg_exp)
  then show "(2 :: rat) powi (bitlen p - 1) \<le> of_int p"
    using b(1) by (simp only: of_int_le_iff)
  have "(2 :: rat) powi bitlen p = of_int (2 ^ nat (bitlen p))"
    using pos by (simp add: power_int_nonneg_exp)
  then show "of_int p < (2 :: rat) powi bitlen p"
    using b(2) by (simp only: of_int_less_iff)
qed

lemma f_exponent_bounds:
  assumes "0 < x"
  shows "2 powi f_exponent x \<le> x" and "x < 2 powi (f_exponent x + 1)"
proof -
  obtain p q where pq: "quotient_of x = (p, q)"
    by fastforce
  have q: "0 < q" and x: "x = of_int p / of_int q"
    using pq by (simp_all add: quotient_of_denom_pos quotient_of_div)
  with assms have p: "0 < p"
    by (simp add: zero_less_divide_iff)
  define e where "e = bitlen p - bitlen q"
  note pb = bitlen_bounds_powi [OF p] and qb = bitlen_bounds_powi [OF q]
  have "(2 :: rat) powi (e - 1) = 2 powi (bitlen p - 1) / 2 powi bitlen q"
    by (simp add: e_def flip: power_int_diff) (simp add: algebra_simps)
  also have "\<dots> \<le> x"
    unfolding x using pb(1) qb(2) p q by (intro frac_le) (auto intro: order_less_imp_le)
  finally have lo: "2 powi (e - 1) \<le> x" .
  have "x \<le> of_int p / 2 powi (bitlen q - 1)"
    unfolding x using p q qb(1) by (intro divide_left_mono) auto
  also have "\<dots> < 2 powi bitlen p / 2 powi (bitlen q - 1)"
    using pb(2) by (intro divide_strict_right_mono) simp_all
  also have "\<dots> = 2 powi (e + 1)"
    by (simp add: e_def flip: power_int_diff) (simp add: algebra_simps)
  finally have hi: "x < 2 powi (e + 1)" .
  have "f_exponent x = (if x < 2 powi e then e - 1 else e)"
    using assms p by (simp add: f_exponent_def pq e_def Let_def)
  then show "2 powi f_exponent x \<le> x" and "x < 2 powi (f_exponent x + 1)"
    using lo hi by (auto split: if_splits)
qed

lemma fl32_0 [simp]: "fl32 0 = 0"
  by (simp add: fl32_def)

lemma scaled_bounds:
  assumes "0 < x"
  shows "of_int (2 ^ 23) \<le> x * 2 powi (23 - f_exponent x)"
    and "x * 2 powi (23 - f_exponent x) \<le> of_int (2 ^ 24)"
proof -
  let ?e = "f_exponent x"
  have "(2 :: rat) powi ?e * 2 powi (23 - ?e) = of_int (2 ^ 23)"
    by (simp flip: power_int_add)
  then show "of_int (2 ^ 23) \<le> x * 2 powi (23 - ?e)"
    using f_exponent_bounds(1) [OF assms] mult_right_mono [of "2 powi ?e" x "2 powi (23 - ?e)"]
    by simp
  have "(2 :: rat) powi (?e + 1) * 2 powi (23 - ?e) = of_int (2 ^ 24)"
    by (simp flip: power_int_add)
  then show "x * 2 powi (23 - ?e) \<le> of_int (2 ^ 24)"
    using f_exponent_bounds(2) [OF assms] mult_right_mono [of x "2 powi (?e + 1)" "2 powi (23 - ?e)"]
    by simp
qed

lemma fl32_bounds:
  assumes "0 < x"
  shows "2 powi f_exponent x \<le> fl32 x" and "fl32 x \<le> 2 powi (f_exponent x + 1)"
proof -
  let ?e = "f_exponent x"
  define m where "m = round_even (x * 2 powi (23 - ?e))"
  have eq: "fl32 x = of_int m * 2 powi (?e - 23)"
    using assms by (simp add: fl32_def Let_def m_def)
  have m: "2 ^ 23 \<le> m" "m \<le> 2 ^ 24"
    using scaled_bounds [OF assms] by (simp_all only: m_def round_even_ge round_even_le)
  have "of_int (2 ^ 23) * (2 :: rat) powi (?e - 23) = 2 powi ?e"
    by (simp add: power_int_diff)
  then show "2 powi ?e \<le> fl32 x"
    using m(1) eq mult_right_mono [of "of_int (2 ^ 23)" "of_int m" "(2 :: rat) powi (?e - 23)"]
    by (metis of_int_le_iff power_int_eq_0_iff zero_le_power_int zero_le_numeral)
  have "of_int (2 ^ 24) * (2 :: rat) powi (?e - 23) = 2 powi (?e + 1)"
    by (simp add: power_int_diff power_int_add)
  then show "fl32 x \<le> 2 powi (?e + 1)"
    using m(2) eq mult_right_mono [of "of_int m" "of_int (2 ^ 24)" "(2 :: rat) powi (?e - 23)"]
    by (metis of_int_le_iff zero_le_power_int zero_le_numeral)
qed

lemma fl32_pos: "0 < x \<Longrightarrow> 0 < fl32 x"
  using fl32_bounds(1) [of x] by (meson order_less_le_trans zero_less_numeral zero_less_power_int)

lemma fl32_nonneg: "0 \<le> x \<Longrightarrow> 0 \<le> fl32 x"
  using fl32_pos [of x] by (cases "x = 0") auto

lemma fl32_mono:
  assumes "0 \<le> x" and "x \<le> y"
  shows "fl32 x \<le> fl32 y"
proof (cases "x = 0")
  case True
  with assms show ?thesis
    by (simp add: fl32_nonneg)
next
  case False
  with assms have x: "0 < x" and y: "0 < y"
    by simp_all
  show ?thesis
  proof (cases "f_exponent x = f_exponent y")
    case True
    have "x * 2 powi (23 - f_exponent y) \<le> y * 2 powi (23 - f_exponent y)"
      using assms by (intro mult_right_mono) simp_all
    then have "round_even (x * 2 powi (23 - f_exponent y)) \<le> round_even (y * 2 powi (23 - f_exponent y))"
      by (rule round_even_mono)
    with True x y show ?thesis
      by (simp add: fl32_def Let_def)
  next
    case False
    have "(2 :: rat) powi f_exponent x < 2 powi (f_exponent y + 1)"
      using f_exponent_bounds [OF x] f_exponent_bounds [OF y] assms by linarith
    then have "f_exponent x < f_exponent y + 1"
      by (meson not_le one_le_numeral power_int_increasing)
    with False have "f_exponent x + 1 \<le> f_exponent y"
      by simp
    then have "(2 :: rat) powi (f_exponent x + 1) \<le> 2 powi f_exponent y"
      by (intro power_int_increasing) simp_all
    then show ?thesis
      using fl32_bounds(2) [OF x] fl32_bounds(1) [OF y] by linarith
  qed
qed

lemma fl32_exact:
  assumes "0 \<le> i" and "i < 2 ^ 24"
  shows "fl32 (of_int i) = of_int i"
proof (cases "i = 0")
  case False
  with assms have pos: "(0 :: rat) < of_int i"
    by simp
  let ?e = "f_exponent (of_int i)"
  have "(of_int i :: rat) < of_int (2 ^ 24)"
    using assms(2) by (simp only: of_int_less_iff)
  then have "(2 :: rat) powi ?e < 2 powi 24"
    using f_exponent_bounds(1) [OF pos] by simp
  then have "?e < 24"
    by (meson not_le one_le_numeral power_int_increasing)
  then have sc: "(2 :: rat) powi (23 - ?e) = of_int (2 ^ nat (23 - ?e))"
    by (simp add: power_int_nonneg_exp)
  then have "round_even (of_int i * 2 powi (23 - ?e)) = i * 2 ^ nat (23 - ?e)"
    by (metis of_int_mult round_even_of_int)
  moreover have "(2 :: rat) powi (23 - ?e) * 2 powi (?e - 23) = 1"
    by (simp flip: power_int_add)
  then have "of_int (i * 2 ^ nat (23 - ?e)) * (2 :: rat) powi (?e - 23) = of_int i"
    by (simp only: of_int_mult mult.assoc mult_1_right flip: sc)
  ultimately show ?thesis
    using pos by (simp add: fl32_def Let_def)
qed simp

lemma fl32_le_int:
  assumes "0 \<le> x" and "x \<le> of_int i" and "i < 2 ^ 24"
  shows "fl32 x \<le> of_int i"
proof -
  have "0 \<le> (of_int i :: rat)"
    using assms by linarith
  then show ?thesis
    using fl32_mono [OF assms(1,2)] assms(3) by (simp add: fl32_exact)
qed

end
