(* ===== verification/Congestion.thy ===== *)
theory Congestion
  imports Tcp_State Float32
begin

text \<open>
  Congestion control: \<open>handle_success_ack\<close> of \<open>src/kernel.c\<close> and \<open>handle_loss_ack\<close> of
  \<open>src/timer.c\<close>, with the helpers of \<open>src/utils.c\<close>. They read and write four fields of the
  socket. The increase in congestion avoidance is computed in \<open>float\<close> and truncated.
\<close>

section \<open>Helpers of utils.c\<close>

definition max_float :: "rat \<Rightarrow> rat \<Rightarrow> rat" where
  "max_float a b = (if b < a then a else b)"

definition min_int :: "int \<Rightarrow> int \<Rightarrow> int" where
  "min_int a b = (if a < b then a else b)"

definition min_among_3 :: "int \<Rightarrow> int \<Rightarrow> int \<Rightarrow> int" where
  "min_among_3 a b c = (let temp = (if a < b then a else b) in if temp < c then temp else c)"

lemma min_among_3_eq: "min_among_3 a b c = min_int a (min_int b c)"
  by (auto simp: min_among_3_def min_int_def Let_def)

section \<open>The controller\<close>

text \<open>\<open>(int)(SMSS*((float)SMSS/sock->cwnd))\<close>, the macro \<open>SMSS\<close> being \<open>1*MAX_LEN\<close>.\<close>

definition ca_increment :: "int \<Rightarrow> int" where
  "ca_increment cw =
     f_to_int (f_mul (f_of_int (1 * MAX_LEN))
       (f_div (f_mul (f_of_int 1) (f_of_int MAX_LEN)) (f_of_int cw)))"

definition handle_success_ack :: "tju_tcp_t \<Rightarrow> tju_tcp_t outcome" where
  "handle_success_ack s =
     (case con_status s of
        SLOW_START \<Rightarrow>
          (let s = s\<lparr>cwnd := cwnd s + SMSS\<rparr>
           in Inr (if ssthresh s < cwnd s then s\<lparr>con_status := CONGESTION_AVOIDANCE\<rparr> else s))
      | CONGESTION_AVOIDANCE \<Rightarrow>
          bindE (requireE (cwnd s \<noteq> 0) (Undefined BadConversion))
            (\<lambda>_. Inr (s\<lparr>cwnd := cwnd s + ca_increment (cwnd s)\<rparr>))
      | FAST_RECOVERY \<Rightarrow> Inr (s\<lparr>cwnd := cwnd s + SMSS\<rparr>))"

definition handle_loss_ack :: "tju_tcp_t \<Rightarrow> tju_tcp_t" where
  "handle_loss_ack s =
     (let counts = unat (timeout_counts s) mod 4
      in if con_status s = SLOW_START then
           (let s = s\<lparr>ssthresh := (cwnd s + 1) sdiv 2\<rparr>;
                s = s\<lparr>cwnd := 1 * SMSS\<rparr>
            in if ssthresh s < cwnd s then s\<lparr>con_status := CONGESTION_AVOIDANCE\<rparr> else s)
         else if con_status s = CONGESTION_AVOIDANCE \<and> counts = 3 then
           (let s = s\<lparr>ssthresh := (cwnd s + 1) sdiv 2\<rparr>
            in s\<lparr>cwnd := ssthresh s + 3 * SMSS, con_status := FAST_RECOVERY\<rparr>)
         else if con_status s = FAST_RECOVERY then
           s\<lparr>ssthresh := (cwnd s + 1) sdiv 2, cwnd := 1, con_status := SLOW_START\<rparr>
         else s)"

section \<open>The increase in congestion avoidance\<close>

lemma ca_increment_bounds:
  assumes "1400 \<le> cw"
  shows "0 \<le> ca_increment cw" and "ca_increment cw \<le> 1400"
proof -
  have one: "f_of_int 1 = 1" and smss: "f_of_int 1400 = 1400"
    using fl32_exact [of 1] fl32_exact [of 1400] by (simp_all add: f_of_int_def)
  have "(1400 :: rat) \<le> of_int cw"
    using assms by simp
  then have "fl32 1400 \<le> f_of_int cw"
    unfolding f_of_int_def by (intro fl32_mono) simp_all
  then have cw: "1400 \<le> f_of_int cw"
    using smss by (simp add: f_of_int_def)
  define t where "t = f_div 1400 (f_of_int cw)"
  have t: "0 \<le> t" "t \<le> 1"
    using cw fl32_nonneg [of "1400 / f_of_int cw"] fl32_le_int [of "1400 / f_of_int cw" 1]
    by (simp_all add: t_def f_div_def)
  define u where "u = f_mul 1400 t"
  have u: "0 \<le> u" "u \<le> 1400"
    using t fl32_nonneg [of "1400 * t"] fl32_le_int [of "1400 * t" 1400]
    by (simp_all add: u_def f_mul_def)
  have "f_mul 1 1400 = 1400"
    using fl32_exact [of 1400] by (simp add: f_mul_def)
  then have inc: "ca_increment cw = \<lfloor>u\<rfloor>"
    using u(1) by (simp add: ca_increment_def one smss f_to_int_def u_def t_def)
  show "0 \<le> ca_increment cw" "ca_increment cw \<le> 1400"
    unfolding inc using u by (simp_all add: floor_le_iff)
qed

section \<open>Invariant\<close>

text \<open>
  Events of the controller, the run of a sequence of them, and the invariant: the window
  is positive, it is at least one segment in congestion avoidance, and larger than three
  segments in fast recovery.
\<close>

datatype cc_event = AckEvent | LossEvent

fun cc_step :: "cc_event \<Rightarrow> tju_tcp_t \<Rightarrow> tju_tcp_t outcome" where
  "cc_step AckEvent s = handle_success_ack s"
| "cc_step LossEvent s = Inr ((handle_loss_ack s)\<lparr>timeout_counts := timeout_counts s + 1\<rparr>)"

fun cc_run :: "cc_event list \<Rightarrow> tju_tcp_t \<Rightarrow> tju_tcp_t outcome" where
  "cc_run [] s = Inr s"
| "cc_run (e # es) s = bindE (cc_step e s) (cc_run es)"

definition cc_inv :: "tju_tcp_t \<Rightarrow> bool" where
  "cc_inv s \<longleftrightarrow> 0 < cwnd s
     \<and> (con_status s = CONGESTION_AVOIDANCE \<longrightarrow> SMSS \<le> cwnd s)
     \<and> (con_status s = FAST_RECOVERY \<longrightarrow> 3 * SMSS \<le> cwnd s)"

lemma half_nonneg: "0 < c \<Longrightarrow> 0 \<le> (c + 1) sdiv 2" and half_le: "0 < c \<Longrightarrow> (c + 1) sdiv 2 \<le> c"
  for c :: int
  by (simp_all add: signed_divide_int_def)

lemma handle_success_ack_inv:
  assumes "cc_inv s"
  shows "\<exists>s'. handle_success_ack s = Inr s' \<and> cc_inv s' \<and> cwnd s \<le> cwnd s' \<and> cwnd s' \<le> cwnd s + SMSS
    \<and> ssthresh s' = ssthresh s"
  using assms ca_increment_bounds [of "cwnd s"]
  by (auto simp: handle_success_ack_def cc_inv_def Let_def split: con_state.splits)

lemma handle_loss_ack_inv: "cc_inv s \<Longrightarrow> cc_inv (handle_loss_ack s)"
  using half_nonneg [of "cwnd s"]
  by (auto simp: handle_loss_ack_def cc_inv_def Let_def)

lemma cc_step_inv:
  assumes "cc_inv s"
  shows "\<exists>s'. cc_step e s = Inr s' \<and> cc_inv s' \<and> cwnd s' \<le> cwnd s + 3 * SMSS"
proof (cases e)
  case AckEvent
  then show ?thesis
    using handle_success_ack_inv [OF assms] by fastforce
next
  case LossEvent
  have "cwnd (handle_loss_ack s) \<le> cwnd s + 3 * SMSS"
    using assms half_le [of "cwnd s"] by (auto simp: handle_loss_ack_def cc_inv_def Let_def)
  moreover have "cc_inv ((handle_loss_ack s)\<lparr>timeout_counts := timeout_counts s + 1\<rparr>)"
    using handle_loss_ack_inv [OF assms] by (simp add: cc_inv_def)
  ultimately show ?thesis
    by (simp add: LossEvent)
qed

lemma cc_run_inv:
  "cc_inv s \<Longrightarrow> \<exists>s'. cc_run es s = Inr s' \<and> cc_inv s' \<and> cwnd s' \<le> cwnd s + 3 * SMSS * int (length es)"
proof (induction es arbitrary: s)
  case (Cons e es)
  obtain s1 where s1: "cc_step e s = Inr s1" "cc_inv s1" "cwnd s1 \<le> cwnd s + 3 * SMSS"
    using cc_step_inv [OF Cons.prems] by blast
  then show ?case
    using Cons.IH [OF s1(2)] by (force simp: algebra_simps)
qed simp

lemma cc_run_append: "cc_run (xs @ ys) s = bindE (cc_run xs s) (cc_run ys)"
  by (induction xs arbitrary: s) (simp_all add: bindE_def split: sum.split)

section \<open>Properties\<close>



lemma fast_recovery_run:
  "con_status s = FAST_RECOVERY \<Longrightarrow>
     cc_run (replicate n AckEvent) s = Inr (s\<lparr>cwnd := cwnd s + SMSS * int n\<rparr>)"
  by (induction n arbitrary: s) (simp_all add: handle_success_ack_def algebra_simps)

text \<open>
  Acknowledgements never end fast recovery. Any number of them adds one full segment
  each and leaves the state as it is; the next timeout sets the window to a single byte
  and the threshold to half the inflated window, and returns to slow start.
\<close>

theorem fast_recovery_left_by_timeout_only:
  assumes "con_status s = FAST_RECOVERY"
  shows "\<exists>s1 s2. cc_run (replicate n AckEvent) s = Inr s1 \<and> con_status s1 = FAST_RECOVERY
    \<and> cwnd s1 = cwnd s + SMSS * int n
    \<and> cc_run (replicate n AckEvent @ [LossEvent]) s = Inr s2 \<and> con_status s2 = SLOW_START
    \<and> cwnd s2 = 1 \<and> ssthresh s2 = (cwnd s + SMSS * int n + 1) sdiv 2"
  using assms by (simp add: fast_recovery_run cc_run_append handle_loss_ack_def Let_def)

lemma fast_recovery_left_by_timeout_only_witness:
  "\<exists>s2. cc_run (replicate 3 AckEvent @ [LossEvent]) (blank_sock\<lparr>con_status := FAST_RECOVERY, cwnd := 4900\<rparr>)
      = Inr s2 \<and> con_status s2 = SLOW_START \<and> cwnd s2 = 1 \<and> ssthresh s2 = 4550"
  using fast_recovery_left_by_timeout_only [of "blank_sock\<lparr>con_status := FAST_RECOVERY, cwnd := 4900\<rparr>" 3]
  by auto

text \<open>
  In congestion avoidance only every fourth timeout counts. Starting with a counter
  divisible by four, three timeouts change neither window nor threshold; the fourth
  halves the threshold, sets the window to it plus three segments and enters fast recovery.
\<close>

theorem fourth_timeout_counts:
  assumes "con_status s = CONGESTION_AVOIDANCE" and "unat (timeout_counts s) mod 4 = 0"
  shows "\<exists>s3 s4. cc_run [LossEvent, LossEvent, LossEvent] s = Inr s3
    \<and> s3 = s\<lparr>timeout_counts := timeout_counts s + 3\<rparr>
    \<and> cc_run [LossEvent, LossEvent, LossEvent, LossEvent] s = Inr s4
    \<and> con_status s4 = FAST_RECOVERY \<and> ssthresh s4 = (cwnd s + 1) sdiv 2
    \<and> cwnd s4 = (cwnd s + 1) sdiv 2 + 3 * SMSS"
proof -
  have mod4: "unat (timeout_counts s + of_nat k) mod 4 = k mod 4" if "k < 256" for k
  proof -
    have "unat (timeout_counts s + of_nat k) = (unat (timeout_counts s) + k) mod 256"
      using that by (simp add: unat_word_ariths unat_of_nat)
    then have "unat (timeout_counts s + of_nat k) mod 4 = (unat (timeout_counts s) + k) mod 4"
      by (simp add: mod_mod_cancel)
    also have "\<dots> = k mod 4"
      using assms(2) by (metis add.left_neutral mod_add_left_eq)
    finally show ?thesis .
  qed
  have "unat (timeout_counts s + 1) mod 4 = 1" "unat (timeout_counts s + 2) mod 4 = 2"
    "unat (timeout_counts s + 3) mod 4 = 3"
    using mod4 [of 1] mod4 [of 2] mod4 [of 3] by simp_all
  then show ?thesis
    using assms by (simp add: handle_loss_ack_def Let_def add.assoc)
qed

lemma fourth_timeout_counts_witness:
  "\<exists>s4. cc_run [LossEvent, LossEvent, LossEvent, LossEvent]
      (blank_sock\<lparr>con_status := CONGESTION_AVOIDANCE, cwnd := 5600\<rparr>) = Inr s4
    \<and> con_status s4 = FAST_RECOVERY \<and> cwnd s4 = 7000"
  using fourth_timeout_counts [of "blank_sock\<lparr>con_status := CONGESTION_AVOIDANCE, cwnd := 5600\<rparr>"]
  by (auto simp: blank_sock_def)

end
