(* ===== verification/Segment.thy ===== *)
theory Segment
  imports Packet Tcp_State
begin

text \<open>
  Output of segments: \<open>sendToLayer3\<close> and \<open>cal_hash\<close> of \<open>src/kernel.c\<close> and the functions of
  \<open>src/tju_tcp.c\<close> that build a control segment from a socket and send it. \<open>segment\<close> is
  the datagram these calls produce, with what the receiver reads from it.
\<close>

section \<open>The lower layer\<close>

text \<open>
  \<open>sendto\<close> hands the first \<open>len\<close> bytes of the buffer to the network: a datagram is
  appended to the host's wire. A packet longer than \<open>MAX_LEN\<close> is dropped with a message.
\<close>

definition sendToLayer3 :: "bytes \<Rightarrow> int \<Rightarrow> host \<Rightarrow> host outcome" where
  "sendToLayer3 pkt len h =
     (if MAX_LEN < len then Inr h
      else if name_of h = OtherHost then Inl (Exit (-1))
      else bindE (mem_read pkt 0 (nat len)) (\<lambda>m. Inr (h\<lparr>wire := wire h @ [m]\<rparr>)))"

text \<open>
  The hash is the truncated remainder of a sum of \<open>int\<close> values: it is negative when the
  sum is. The sum is computed as the hosts do, in 32-bit two's complement.
\<close>

definition cal_hash :: "u32 \<Rightarrow> u16 \<Rightarrow> u32 \<Rightarrow> u16 \<Rightarrow> int" where
  "cal_hash local_ip local_port remote_ip remote_port =
     i32 (sint local_ip + uint local_port + sint remote_ip + uint remote_port) smod MAX_SOCK_SIZE"

text \<open>An index into one of the arrays of \<open>MAX_SOCK_SIZE\<close> entries.\<close>

definition slot :: "int \<Rightarrow> unit outcome" where
  "slot i = requireE (0 \<le> i \<and> i < MAX_SOCK_SIZE) (Undefined OutOfBounds)"

lemma slot_simps [simp]: "0 \<le> i \<Longrightarrow> i < 1024 \<Longrightarrow> slot i = Inr ()"
  by (simp add: slot_def)

lemma slot_eq_Inr [simp]: "slot i = Inr u \<longleftrightarrow> 0 \<le> i \<and> i < 1024"
  by (simp add: slot_def)

section \<open>Control segments\<close>

definition tcp_send_fin_ack :: "ptr \<Rightarrow> host \<Rightarrow> host outcome" where
  "tcp_send_fin_ack p h =
     bindE (sock_at h p) (\<lambda>s. bindE (rwnd_at h s) (\<lambda>r.
       let seq = expect_seq r; ack = seq; fl = ACK OR FIN
       in bindE (create_packet_buf (port (established_local_addr s)) (port (established_remote_addr s))
                   seq ack (to_u16 HEADER_LEN) (to_u16 HEADER_LEN) fl 0 0 [] 0)
            (\<lambda>send_pkt. sendToLayer3 send_pkt HEADER_LEN h)))"

definition tcp_send_syn :: "ptr \<Rightarrow> host \<Rightarrow> host outcome" where
  "tcp_send_syn p h =
     bindE (sock_at h p) (\<lambda>s. bindE (rwnd_at h s) (\<lambda>r.
       let seq = expect_seq r; ack = seq; fl = SYN
       in bindE (create_packet_buf (port (established_local_addr s)) (port (established_remote_addr s))
                   seq ack (to_u16 HEADER_LEN) (to_u16 HEADER_LEN) fl 0 0 [] 0)
            (\<lambda>send_pkt. sendToLayer3 send_pkt HEADER_LEN h)))"

definition tcp_send_syn_ack :: "ptr \<Rightarrow> host \<Rightarrow> host outcome" where
  "tcp_send_syn_ack p h =
     bindE (sock_at h p) (\<lambda>s. bindE (rwnd_at h s) (\<lambda>r.
       let seq = expect_seq r; ack = seq; fl = SYN OR ACK
       in bindE (create_packet_buf (port (established_local_addr s)) (port (established_remote_addr s))
                   seq ack (to_u16 HEADER_LEN) (to_u16 HEADER_LEN) fl 0 0 [] 0)
            (\<lambda>send_pkt. sendToLayer3 send_pkt HEADER_LEN h)))"

definition tcp_send_ack :: "ptr \<Rightarrow> host \<Rightarrow> host outcome" where
  "tcp_send_ack p h =
     bindE (sock_at h p) (\<lambda>s. bindE (rwnd_at h s) (\<lambda>r.
       let seq = expect_seq r; ack = seq; rw = TCP_RECV_BUFFER_SIZE - received_len s
       in bindE (create_packet_buf (port (established_local_addr s)) (port (established_remote_addr s))
                   seq ack (to_u16 HEADER_LEN) (to_u16 HEADER_LEN) ACK (to_u16 rw) 0 [] 0)
            (\<lambda>send_pkt. sendToLayer3 send_pkt HEADER_LEN h)))"

definition tcp_send_rst :: "ptr \<Rightarrow> host \<Rightarrow> host outcome" where
  "tcp_send_rst p h =
     bindE (sock_at h p) (\<lambda>s. bindE (rwnd_at h s) (\<lambda>r.
       let seq = expect_seq r; ack = seq
       in bindE (create_packet_buf (port (established_local_addr s)) (port (established_remote_addr s))
                   seq ack (to_u16 HEADER_LEN) (to_u16 HEADER_LEN) RST 0 0 [] 0)
            (\<lambda>send_pkt. sendToLayer3 send_pkt HEADER_LEN h)))"

definition tcp_update_expected_seq :: "ptr \<Rightarrow> bytes \<Rightarrow> host \<Rightarrow> host outcome" where
  "tcp_update_expected_seq p pkt h =
     bindE (sock_at h p) (\<lambda>s. bindE (rwnd_at h s) (\<lambda>r.
       let expected_seq = get_seq pkt + ucast (get_plen pkt) - ucast (get_hlen pkt)
       in Inr (set_rwnd (wnd_recv s) (r\<lparr>expect_seq := expected_seq\<rparr>) h)))"

definition tcp_init_listener :: "ptr \<Rightarrow> host \<Rightarrow> host outcome" where
  "tcp_init_listener p h =
     bindE (sock_at h p) (\<lambda>s. bindE (rwnd_at h s) (\<lambda>r. bindE (swnd_at h s) (\<lambda>w.
       Inr (set_swnd (wnd_send s) (w\<lparr>base := 0, nextseq := 0\<rparr>)
             (set_rwnd (wnd_recv s) (r\<lparr>expect_seq := 0\<rparr>) (set_sock p (s\<lparr>state := LISTEN\<rparr>) h))))))"

text \<open>\<open>None\<close>: the function ends without a value, which a caller may not use.\<close>

definition tcp_check_seq :: "tju_packet \<Rightarrow> ptr \<Rightarrow> host \<Rightarrow> int option outcome" where
  "tcp_check_seq pkt p h =
     bindE (sock_at h p) (\<lambda>s. bindE (rwnd_at h s) (\<lambda>r.
       if flags (header pkt) = ACK
       then Inr (Some (if seq_num (header pkt) = expect_seq r then 0 else -1))
       else Inr None))"

lemma create_packet_buf_no_exit [simp]:
  "create_packet_buf src dst seq ack hl pl fl adv ex dat len \<noteq> Inl (Exit i)"
proof -
  have loop: "checksum_loop ck d n \<noteq> Inl (Exit i)" for ck d n
    by (induction ck d n rule: checksum_loop.induct) simp_all
  have set: "set_checksum p \<noteq> Inl (Exit i)" for p
    using loop by (cases "pkt_data p")
      (auto simp: set_checksum_def tcp_compute_checksum_def bindE_eq_Inl_iff Let_def)
  have head: "header_in_char a b c d e f g h' j k \<noteq> Inl (Exit i)" for a b c d e f g h' j k
    by (simp add: header_in_char_def Let_def bindE_eq_Inl_iff)
  have "packet_to_buf p \<noteq> Inl (Exit i)" for p
    by (simp add: packet_to_buf_def Let_def bindE_eq_Inl_iff head)
  then show ?thesis
    by (simp add: create_packet_buf_def create_packet_def Let_def bindE_eq_Inl_iff set)
qed

section \<open>The datagram of a segment\<close>

definition seg_packet :: "u16 \<Rightarrow> u16 \<Rightarrow> u32 \<Rightarrow> u32 \<Rightarrow> u8 \<Rightarrow> u16 \<Rightarrow> bytes \<Rightarrow> tju_packet" where
  "seg_packet src dst seq ack fl adv dat =
     (let hd = \<lparr>source_port = src, destination_port = dst, seq_num = seq, ack_num = ack,
               hlen = 22, plen = of_nat (22 + length dat), flags = fl, advertised_window = adv,
               ext = 0, checksum = 0\<rparr>;
          p = \<lparr>header = hd, pkt_data = (if dat = [] then None else Some dat)\<rparr>
      in p\<lparr>header := hd\<lparr>checksum := NOT (header_sum hd + sum_list (map scast dat))\<rparr>\<rparr>)"

definition segment :: "u16 \<Rightarrow> u16 \<Rightarrow> u32 \<Rightarrow> u32 \<Rightarrow> u8 \<Rightarrow> u16 \<Rightarrow> bytes \<Rightarrow> bytes" where
  "segment src dst seq ack fl adv dat = packet_bytes (seg_packet src dst seq ack fl adv dat)"

lemma unat_seg_len: "22 + length dat < 65536 \<Longrightarrow> unat (of_nat (22 + length dat) :: u16) = 22 + length dat"
  by (simp only: unat_of_nat) simp

lemma unat_plen_seg:
  "22 + length dat < 65536 \<Longrightarrow> unat (plen (header (seg_packet src dst seq ack fl adv dat))) = 22 + length dat"
  by (simp add: seg_packet_def Let_def unat_seg_len del: of_nat_add)

lemma wf_seg_packet [simp]:
  assumes "22 + length dat < 65536"
  shows "wf_packet (seg_packet src dst seq ack fl adv dat)"
  using unat_seg_len [OF assms] assms
  by (simp add: wf_packet_def seg_packet_def Let_def word_less_nat_alt word_le_nat_alt del: of_nat_add)

lemma header_seg_packet [simp]:
  "source_port (header (seg_packet src dst seq ack fl adv dat)) = src"
  "destination_port (header (seg_packet src dst seq ack fl adv dat)) = dst"
  "seq_num (header (seg_packet src dst seq ack fl adv dat)) = seq"
  "ack_num (header (seg_packet src dst seq ack fl adv dat)) = ack"
  "hlen (header (seg_packet src dst seq ack fl adv dat)) = 22"
  "flags (header (seg_packet src dst seq ack fl adv dat)) = fl"
  "advertised_window (header (seg_packet src dst seq ack fl adv dat)) = adv"
  "ext (header (seg_packet src dst seq ack fl adv dat)) = 0"
  "payload (seg_packet src dst seq ack fl adv dat) = dat"
  by (simp_all add: seg_packet_def payload_def Let_def)

lemma plen_seg_packet: "plen (header (seg_packet src dst seq ack fl adv dat)) = of_nat (22 + length dat)"
  by (simp add: seg_packet_def Let_def)

lemma get_segment [simp]:
  "get_src (segment src dst seq ack fl adv dat) = src"
  "get_dst (segment src dst seq ack fl adv dat) = dst"
  "get_seq (segment src dst seq ack fl adv dat) = seq"
  "get_ack (segment src dst seq ack fl adv dat) = ack"
  "get_hlen (segment src dst seq ack fl adv dat) = 22"
  "get_flags (segment src dst seq ack fl adv dat) = fl"
  "get_advertised_window (segment src dst seq ack fl adv dat) = adv"
  "get_ext (segment src dst seq ack fl adv dat) = 0"
  by (simp_all add: segment_def)

lemma get_plen_segment: "get_plen (segment src dst seq ack fl adv dat) = of_nat (22 + length dat)"
  by (simp add: segment_def plen_seg_packet)

lemma length_segment [simp]:
  "22 + length dat < 65536 \<Longrightarrow> length (segment src dst seq ack fl adv dat) = 22 + length dat"
  by (simp add: segment_def length_packet_bytes unat_plen_seg)

lemma drop_segment [simp]:
  "22 + length dat < 65536 \<Longrightarrow> drop 22 (segment src dst seq ack fl adv dat) = dat"
  by (simp add: segment_def packet_bytes_def unat_plen_seg)
    (simp add: seg_packet_def Let_def)

text \<open>What \<open>create_packet_buf\<close> returns when the header length is 22 and \<open>plen\<close> fits.\<close>

lemma seg_packet_sealed:
  fixes src dst :: u16 and seq ack :: u32 and fl :: u8 and adv :: u16 and dat :: bytes
  assumes "22 + length dat < 65536"
  defines "q \<equiv> \<lparr>header = \<lparr>source_port = src, destination_port = dst, seq_num = seq, ack_num = ack,
      hlen = 22, plen = of_nat (22 + length dat), flags = fl, advertised_window = adv, ext = 0,
      checksum = 0\<rparr>, pkt_data = (if dat = [] then None else Some dat)\<rparr>"
  shows "wf_packet q" and "set_checksum q = Inr (seg_packet src dst seq ack fl adv dat)"
proof -
  have sealed: "seg_packet src dst seq ack fl adv dat = q\<lparr>header := (header q)
      \<lparr>checksum := NOT (header_sum (header q) + sum_list (map scast (payload q)))\<rparr>\<rparr>"
    by (simp add: seg_packet_def q_def Let_def payload_def)
  show "wf_packet q"
    using wf_seg_packet [OF assms(1), of src dst seq ack fl adv] unfolding sealed by simp
  then show "set_checksum q = Inr (seg_packet src dst seq ack fl adv dat)"
    unfolding sealed by (rule set_checksum_eq)
qed

lemma create_segment:
  assumes "22 + length dat < 65536"
  shows "create_packet_buf src dst seq ack 22 (of_nat (22 + length dat)) fl adv 0 dat (int (length dat))
    = Inr (segment src dst seq ack fl adv dat)"
proof -
  have "create_packet src dst seq ack 22 (of_nat (22 + length dat)) fl adv 0 dat (int (length dat))
      = Inr (seg_packet src dst seq ack fl adv dat)"
    using seg_packet_sealed(2) [OF assms, of src dst seq ack fl adv]
    by (cases "dat = []") (auto simp: create_packet_def Let_def mem_read_def simp del: of_nat_add)
  then show ?thesis
    using assms by (simp add: create_packet_buf_def packet_to_buf_eq segment_def del: of_nat_add)
qed

lemma create_control:
  "create_packet_buf src dst seq ack 22 22 fl adv 0 [] 0 = Inr (segment src dst seq ack fl adv [])"
  using create_segment [of "[]"] by simp

lemma length_control [simp]: "length (segment src dst seq ack fl adv []) = 22"
  by simp

text \<open>The receiver parses a segment and accepts its checksum.\<close>

lemma segment_accepted:
  assumes "22 + length dat < 65536"
  shows "buf_to_packet (segment src dst seq ack fl adv dat) = Inr (seg_packet src dst seq ack fl adv dat)"
    and "tcp_check (seg_packet src dst seq ack fl adv dat) = Inr True"
proof -
  let ?p = "seg_packet src dst seq ack fl adv dat"
  note wf = wf_seg_packet [OF assms, of src dst seq ack fl adv]
  show "buf_to_packet (segment src dst seq ack fl adv dat) = Inr ?p"
    using wf by (simp add: segment_def buf_to_packet_packet_bytes)
  show "tcp_check ?p = Inr True"
    by (rule set_checksum_tcp_check [OF seg_packet_sealed [OF assms]])
qed

section \<open>Effect of sending\<close>

lemma sendToLayer3_segment:
  "22 + length dat \<le> 1400 \<Longrightarrow> name_of h \<noteq> OtherHost \<Longrightarrow>
     sendToLayer3 (segment src dst seq ack fl adv dat) (22 + int (length dat)) h
     = Inr (h\<lparr>wire := wire h @ [segment src dst seq ack fl adv dat]\<rparr>)"
  by (simp add: sendToLayer3_def mem_read_def nat_add_distrib)

lemma sendToLayer3_control:
  "name_of h \<noteq> OtherHost \<Longrightarrow>
     sendToLayer3 (segment src dst seq ack fl adv []) 22 h
     = Inr (h\<lparr>wire := wire h @ [segment src dst seq ack fl adv []]\<rparr>)"
  using sendToLayer3_segment [of "[]"] by simp

text \<open>The control segment of a socket with the given flags and advertised window.\<close>

definition control :: "tju_tcp_t \<Rightarrow> u32 \<Rightarrow> u8 \<Rightarrow> u16 \<Rightarrow> bytes" where
  "control s seq fl adv =
     segment (port (established_local_addr s)) (port (established_remote_addr s)) seq seq fl adv []"

lemma get_control [simp]:
  "get_flags (control s seq fl adv) = fl" "get_seq (control s seq fl adv) = seq"
  "get_plen (control s seq fl adv) = 22" "get_hlen (control s seq fl adv) = 22"
  "get_src (control s seq fl adv) = port (established_local_addr s)"
  "get_dst (control s seq fl adv) = port (established_remote_addr s)"
  "get_advertised_window (control s seq fl adv) = adv" "length (control s seq fl adv) = 22"
  by (simp_all add: control_def get_plen_segment)

lemma send_control_effect:
  assumes "socks h p = Some s" "rwnds h (wnd_recv s) = Some r" "name_of h \<noteq> OtherHost"
  shows "tcp_send_fin_ack p h = Inr (h\<lparr>wire := wire h @ [control s (expect_seq r) (ACK OR FIN) 0]\<rparr>)"
    "tcp_send_syn p h = Inr (h\<lparr>wire := wire h @ [control s (expect_seq r) SYN 0]\<rparr>)"
    "tcp_send_syn_ack p h = Inr (h\<lparr>wire := wire h @ [control s (expect_seq r) (SYN OR ACK) 0]\<rparr>)"
    "tcp_send_ack p h = Inr (h\<lparr>wire := wire h
       @ [control s (expect_seq r) ACK (to_u16 (TCP_RECV_BUFFER_SIZE - received_len s))]\<rparr>)"
    "tcp_send_rst p h = Inr (h\<lparr>wire := wire h @ [control s (expect_seq r) RST 0]\<rparr>)"
  using assms
  by (simp_all add: tcp_send_fin_ack_def tcp_send_syn_def tcp_send_syn_ack_def tcp_send_ack_def
      tcp_send_rst_def control_def create_control sendToLayer3_control to_u16_def Let_def)

end
