(* ===== verification/Timer.thy ===== *)
theory Timer
  imports Segment Congestion
begin

text \<open>
  \<open>src/timer.c\<close>: the round-trip estimator and the retransmission timer. The estimator works
  on the timer structure and computes in \<open>float\<close>. The timer is a thread that polls once a
  second; its states are the entries of the host's thread table. \<open>tcp_stop_timer\<close> waits
  for the running thread with \<open>pthread_join\<close>, so the thread's last poll is part of it: it
  happens \<open>poll_delay\<close> seconds later, and finds the interrupt signal or, if the timeout has
  passed by then, runs the callback. Joining a thread that has ended, or oneself from the
  callback, returns at once. The closing part of \<open>tcp_close\<close> of \<open>src/api.c\<close> is here
  because the callback calls it.
\<close>

section \<open>Estimator\<close>

text \<open>\<open>(1 - ALPHA) * e + ALPHA * m\<close>: \<open>ALPHA\<close> and \<open>BETA\<close> have type \<open>int\<close> and are converted.
  \<open>abs\<close> is the function of \<open>stdlib.h\<close>: its argument is converted to \<open>int\<close>.\<close>

definition tcp_set_estimator :: "rat \<Rightarrow> rtt_timer_t \<Rightarrow> rtt_timer_t" where
  "tcp_set_estimator mrtt_us t =
     (let t = t\<lparr>estimated_rtt :=
                 f_add (f_mul (f_of_int (1 - ALPHA)) (estimated_rtt t)) (f_mul (f_of_int ALPHA) mrtt_us)\<rparr>
      in t\<lparr>dev_rtt :=
              f_add (f_mul (f_of_int (1 - BETA)) (dev_rtt t))
                (f_of_int (BETA * \<bar>f_to_int (f_sub (estimated_rtt t) mrtt_us)\<bar>))\<rparr>)"

definition tcp_bound_rto :: "rtt_timer_t \<Rightarrow> rtt_timer_t" where
  "tcp_bound_rto t =
     (if of_int TCP_RTO_MAX < timeout t then t\<lparr>timeout := f_of_int TCP_RTO_MAX\<rparr> else t)"

text \<open>\<open>CLOCK_G\<close> is the \<open>double\<close> 0.1, converted to \<open>float\<close> by the call of \<open>max\<close>.\<close>

definition CLOCK_G :: rat where
  "CLOCK_G = fl32 (1 / 10)"

definition tcp_set_rto :: "rtt_timer_t \<Rightarrow> rtt_timer_t" where
  "tcp_set_rto t =
     (let v = max_float CLOCK_G (f_mul (f_of_int 4) (dev_rtt t))
      in tcp_bound_rto (t\<lparr>estimated_rtt := v, timeout := v\<rparr>))"

definition tcp_ack_update_rtt :: "rat \<Rightarrow> rat \<Rightarrow> rtt_timer_t \<Rightarrow> int \<times> rtt_timer_t" where
  "tcp_ack_update_rtt seq_rtt_us sack_rtt_us t =
     (let m = (if seq_rtt_us < 0 then sack_rtt_us else seq_rtt_us)
      in (0, tcp_set_rto (tcp_set_estimator m t)))"

section \<open>Creation\<close>

text \<open>\<open>malloc\<close> does not initialise \<open>started\<close>; \<open>tcp_init_timer\<close> sets it after the call.\<close>

definition tcp_init_rtt :: "int \<Rightarrow> ptr \<Rightarrow> host \<Rightarrow> host outcome" where
  "tcp_init_rtt junk p h =
     (let (t, h) = malloc (\<lambda>t. set_timer t
            \<lparr>estimated_rtt = f_of_int 3, dev_rtt = f_of_int 3, timeout = f_of_int 3, timer_thread = 0,
             started = junk\<rparr>) h
      in update_sock p (\<lambda>s. s\<lparr>rtt_timer := t\<rparr>) h)"

text \<open>The callback is \<open>tcp_write_timer_handler\<close> for every socket and is not stored.\<close>

definition tcp_init_timer :: "int \<Rightarrow> ptr \<Rightarrow> host \<Rightarrow> host outcome" where
  "tcp_init_timer junk p h =
     bindE (tcp_init_rtt junk p h) (\<lambda>h. bindE (sock_at h p) (\<lambda>s. bindE (timer_at h s) (\<lambda>t.
       Inr (set_timer (rtt_timer s) (t\<lparr>started := 0\<rparr>) h))))"

section \<open>Starting and stopping\<close>

text \<open>\<open>tcp_start_timer\<close> behind the test of \<open>started\<close>.\<close>

definition launch_timer :: "ptr \<Rightarrow> host \<Rightarrow> host outcome" where
  "launch_timer p h =
     bindE (sock_at h p) (\<lambda>s. bindE (timer_at h s) (\<lambda>t.
       let tid = next_tid h;
           h = set_sock p (s\<lparr>interrupt_signal := 0\<rparr>) h;
           h = set_timer (rtt_timer s) (t\<lparr>started := 1, timer_thread := tid\<rparr>) h
       in Inr (h\<lparr>next_tid := tid + 1,
                threads := (threads h)(tid \<mapsto> \<lparr>th_sock = p, th_limit = timeout t, th_since = clock h\<rparr>)\<rparr>)))"

text \<open>One poll of the timer thread \<open>tid\<close>, with the callback \<open>cb\<close>.\<close>

definition check_timeout_with ::
  "(ptr \<Rightarrow> host \<Rightarrow> host outcome) \<Rightarrow> nat \<Rightarrow> host \<Rightarrow> host outcome" where
  "check_timeout_with cb tid h =
     (case threads h tid of
        None \<Rightarrow> Inr h
      | Some th \<Rightarrow>
          (let sock = th_sock th; elapsed = clock h - th_since th
           in if of_int elapsed < th_limit th then
                bindE (sock_at h sock) (\<lambda>s.
                  if interrupt_signal s = 1 then
                    bindE (timer_at h s) (\<lambda>t.
                      Inr (set_timer (rtt_timer s)
                            (snd (tcp_ack_update_rtt (f_of_int elapsed) (f_of_int 1000) t))
                            (h\<lparr>threads := (threads h)(tid := None)\<rparr>)))
                  else Inr h)
              else cb sock (h\<lparr>threads := (threads h)(tid := None)\<rparr>)))"

definition stop_timer_with :: "(ptr \<Rightarrow> host \<Rightarrow> host outcome) \<Rightarrow> ptr \<Rightarrow> host \<Rightarrow> host outcome" where
  "stop_timer_with cb p h =
     bindE (sock_at h p) (\<lambda>s. bindE (timer_at h s) (\<lambda>t.
       if started t = 0 then Inr h
       else let h = set_timer (rtt_timer s) (t\<lparr>started := 0\<rparr>) h;
                h = set_sock p (s\<lparr>interrupt_signal := 1\<rparr>) h
            in if threads h (timer_thread t) = None then Inr h
               else check_timeout_with cb (timer_thread t) (h\<lparr>clock := clock h + poll_delay h\<rparr>)))"

section \<open>Retransmission\<close>

text \<open>
  \<open>next_seq - base\<close> is unsigned and becomes an \<open>int\<close>. The bytes are copied from the send
  window; \<open>start\<close> starts the timer.
\<close>

definition retransmit_timer_with :: "(ptr \<Rightarrow> host \<Rightarrow> host outcome) \<Rightarrow> ptr \<Rightarrow> host \<Rightarrow> host outcome" where
  "retransmit_timer_with start p h =
     bindE (sock_at h p) (\<lambda>s. bindE (swnd_at h s) (\<lambda>w.
       let len = sint (nextseq w - base w)
       in if len < 0 then Inl (Exit 0)
          else if MAX_LEN < len then Inl (Exit 0)
          else bindE (derefE (blocks h (send_windows w))) (\<lambda>blk.
               bindE (mem_read blk (unat (base w)) (nat len)) (\<lambda>buf.
                 let plen = to_u16 (DEFAULT_HEADER_LEN + len); seq = base w
                 in bindE (create_packet_buf (port (established_local_addr s))
                             (port (established_remote_addr s)) seq 0 (to_u16 DEFAULT_HEADER_LEN) plen
                             NO_FLAG 1 0 buf len) (\<lambda>msg.
                    bindE (start p h) (sendToLayer3 msg (uint plen)))))))"

text \<open>\<open>tcp_close\<close> up to its busy wait for the state \<open>CLOSED\<close>. \<open>free\<close> ends the receive block.\<close>

definition tcp_close_begin :: "ptr \<Rightarrow> host \<Rightarrow> host outcome" where
  "tcp_close_begin p h =
     bindE (sock_at h p) (\<lambda>s.
       bindE (if received_buf s \<noteq> NULL
              then bindE (derefE (blocks h (received_buf s))) (\<lambda>_.
                     Inr (set_sock p (s\<lparr>received_len := 0, received_buf := NULL\<rparr>)
                           (h\<lparr>blocks := (blocks h)(received_buf s := None)\<rparr>)))
              else Inr h)
         (\<lambda>h. bindE (update_sock p (\<lambda>s. s\<lparr>state := FIN_WAIT_1\<rparr>) h) (tcp_send_fin_ack p)))"

text \<open>
  The callback. \<open>close\<close> is \<open>tcp_outlimit_retransmit\<close>, which calls \<open>tcp_close\<close>.
\<close>

definition timer_handler_with ::
  "(ptr \<Rightarrow> host \<Rightarrow> host outcome) \<Rightarrow> (ptr \<Rightarrow> host \<Rightarrow> host outcome) \<Rightarrow> ptr \<Rightarrow> host \<Rightarrow> host outcome" where
  "timer_handler_with start close p h =
     bindE (sock_at h p) (\<lambda>s.
       case state s of
         SYN_SENT \<Rightarrow> bindE (start p h) (tcp_send_syn p)
       | SYN_RECV \<Rightarrow> bindE (start p h) (tcp_send_syn_ack p)
       | ESTABLISHED \<Rightarrow>
           (if finished_handshake s = 0 then
              tcp_send_ack p (set_sock p (s\<lparr>finished_handshake := 1\<rparr>) h)
            else if RETRANSMIT_LIMIT < uint (timeout_counts s) then close p h
            else let s = handle_loss_ack s
                 in retransmit_timer_with start p
                      (set_sock p (s\<lparr>timeout_counts := timeout_counts s + 1\<rparr>) h))
       | _ \<Rightarrow> Inr h)"

section \<open>The operations\<close>

text \<open>
  A callback that runs while another thread joins its own finds \<open>started = 0\<close>, so its
  \<open>tcp_start_timer\<close> goes straight to \<open>launch_timer\<close>; if it closes the connection it does
  not end before the peer has, and the joining thread, the one that would handle the
  peer's segments, waits for it.
\<close>

definition joined_handler :: "ptr \<Rightarrow> host \<Rightarrow> host outcome" where
  "joined_handler = timer_handler_with launch_timer (\<lambda>_ _. Inl Blocked)"

definition tcp_stop_timer :: "ptr \<Rightarrow> host \<Rightarrow> host outcome" where
  "tcp_stop_timer = stop_timer_with joined_handler"

definition tcp_start_timer :: "ptr \<Rightarrow> host \<Rightarrow> host outcome" where
  "tcp_start_timer p h =
     bindE (sock_at h p) (\<lambda>s. bindE (timer_at h s) (\<lambda>t.
       bindE (if started t = 1 then tcp_stop_timer p h else Inr h) (launch_timer p)))"

definition tcp_retransmit_timer :: "ptr \<Rightarrow> host \<Rightarrow> host outcome" where
  "tcp_retransmit_timer = retransmit_timer_with tcp_start_timer"

definition tcp_outlimit_retransmit :: "ptr \<Rightarrow> host \<Rightarrow> host outcome" where
  "tcp_outlimit_retransmit = tcp_close_begin"

definition tcp_write_timer_handler :: "ptr \<Rightarrow> host \<Rightarrow> host outcome" where
  "tcp_write_timer_handler = timer_handler_with tcp_start_timer tcp_outlimit_retransmit"

definition tcp_check_timeout :: "nat \<Rightarrow> host \<Rightarrow> host outcome" where
  "tcp_check_timeout = check_timeout_with tcp_write_timer_handler"

section \<open>The estimator\<close>

lemma f_small [simp]: "f_of_int 0 = 0" "f_of_int 1 = 1" "f_of_int 3 = 3" "f_of_int 4 = 4" "f_of_int 100 = 100"
  using fl32_exact [of 1] fl32_exact [of 3] fl32_exact [of 4] fl32_exact [of 100]
  by (simp_all add: f_of_int_def)

lemma tcp_set_estimator_eq:
  "is_f32 (estimated_rtt t) \<Longrightarrow> is_f32 (dev_rtt t) \<Longrightarrow> tcp_set_estimator m t = t"
  by (simp add: tcp_set_estimator_def is_f32_def f_add_def f_mul_def Let_def)

text \<open>The retransmission timeout that every update installs, and the updated timer.\<close>

definition rto :: "rtt_timer_t \<Rightarrow> rat" where
  "rto t = max CLOCK_G (f_mul 4 (dev_rtt t))"

definition updated :: "rtt_timer_t \<Rightarrow> rtt_timer_t" where
  "updated t = t\<lparr>estimated_rtt := rto t, timeout := min 100 (rto t)\<rparr>"

lemma updated_simps [simp]:
  "started (updated t) = started t" "timer_thread (updated t) = timer_thread t"
  "dev_rtt (updated t) = dev_rtt t"
  by (simp_all add: updated_def)

lemma tcp_set_rto_eq: "tcp_set_rto t = updated t"
  by (auto simp: tcp_set_rto_def updated_def tcp_bound_rto_def max_float_def rto_def Let_def
      max_def min_def)

lemma tcp_ack_update_rtt_eq:
  "is_f32 (estimated_rtt t) \<Longrightarrow> is_f32 (dev_rtt t) \<Longrightarrow> tcp_ack_update_rtt m sack t = (0, updated t)"
  by (simp add: tcp_ack_update_rtt_def tcp_set_estimator_eq tcp_set_rto_eq Let_def)

section \<open>Effect of starting and stopping\<close>

definition launched :: "ptr \<Rightarrow> tju_tcp_t \<Rightarrow> rtt_timer_t \<Rightarrow> host \<Rightarrow> host" where
  "launched p s t h = h\<lparr>
     socks := (socks h)(p \<mapsto> s\<lparr>interrupt_signal := 0\<rparr>),
     timers := (timers h)(rtt_timer s \<mapsto> t\<lparr>started := 1, timer_thread := next_tid h\<rparr>),
     next_tid := next_tid h + 1,
     threads := (threads h)(next_tid h \<mapsto> \<lparr>th_sock = p, th_limit = timeout t, th_since = clock h\<rparr>)\<rparr>"

lemma launched_simps [simp]:
  "socks (launched p s t h) = (socks h)(p \<mapsto> s\<lparr>interrupt_signal := 0\<rparr>)"
  "timers (launched p s t h) = (timers h)(rtt_timer s \<mapsto> t\<lparr>started := 1, timer_thread := next_tid h\<rparr>)"
  "threads (launched p s t h) = (threads h)(next_tid h \<mapsto> \<lparr>th_sock = p, th_limit = timeout t, th_since = clock h\<rparr>)"
  "swnds (launched p s t h) = swnds h" "rwnds (launched p s t h) = rwnds h"
  "blocks (launched p s t h) = blocks h" "name_of (launched p s t h) = name_of h"
  "wire (launched p s t h) = wire h" "clock (launched p s t h) = clock h"
  "queues (launched p s t h) = queues h" "nodes (launched p s t h) = nodes h"
  "next_ptr (launched p s t h) = next_ptr h" "next_tid (launched p s t h) = next_tid h + 1"
  "listen_queue (launched p s t h) = listen_queue h" "connect_sock (launched p s t h) = connect_sock h"
  "established_queue (launched p s t h) = established_queue h" "is_server (launched p s t h) = is_server h"
  "send_threads (launched p s t h) = send_threads h" "poll_delay (launched p s t h) = poll_delay h"
  by (simp_all add: launched_def)

lemma launch_timer_eq:
  "socks h p = Some s \<Longrightarrow> timers h (rtt_timer s) = Some t \<Longrightarrow> launch_timer p h = Inr (launched p s t h)"
  by (simp add: launch_timer_def launched_def Let_def)

text \<open>The timer of a socket is idle when it is not started or its thread has ended.\<close>

definition timer_idle :: "host \<Rightarrow> rtt_timer_t \<Rightarrow> bool" where
  "timer_idle h t \<longleftrightarrow> started t = 0 \<or> threads h (timer_thread t) = None"

lemma tcp_start_timer_idle:
  "socks h p = Some s \<Longrightarrow> timers h (rtt_timer s) = Some t \<Longrightarrow> timer_idle h t \<Longrightarrow>
     tcp_start_timer p h = Inr (launched p s t h)"
  by (auto simp: tcp_start_timer_def tcp_stop_timer_def stop_timer_with_def launch_timer_eq Let_def
      timer_idle_def launch_timer_def launched_def)

text \<open>
  The timer of a socket runs: its thread is alive, was started for this socket, has seen no
  interrupt, and will not have expired at the time of its next poll.
\<close>

definition timer_running :: "host \<Rightarrow> ptr \<Rightarrow> rtt_timer_t \<Rightarrow> timer_thread_t \<Rightarrow> bool" where
  "timer_running h p t th \<longleftrightarrow> started t = 1 \<and> threads h (timer_thread t) = Some th \<and> th_sock th = p
     \<and> of_int (clock h + poll_delay h - th_since th) < th_limit th
     \<and> is_f32 (estimated_rtt t) \<and> is_f32 (dev_rtt t)"

definition stopped :: "ptr \<Rightarrow> tju_tcp_t \<Rightarrow> rtt_timer_t \<Rightarrow> host \<Rightarrow> host" where
  "stopped p s t h = h\<lparr>
     socks := (socks h)(p \<mapsto> s\<lparr>interrupt_signal := 1\<rparr>),
     timers := (timers h)(rtt_timer s \<mapsto> (updated t)\<lparr>started := 0\<rparr>),
     threads := (threads h)(timer_thread t := None), clock := clock h + poll_delay h\<rparr>"

lemma updated_started: "updated (t\<lparr>started := v\<rparr>) = (updated t)\<lparr>started := v\<rparr>"
  by (simp add: updated_def rto_def)

lemma tcp_stop_timer_running:
  assumes "socks h p = Some s" "timers h (rtt_timer s) = Some t" "timer_running h p t th"
  shows "tcp_stop_timer p h = Inr (stopped p s t h)"
  using assms
  by (simp add: tcp_stop_timer_def stop_timer_with_def check_timeout_with_def timer_running_def Let_def
      tcp_ack_update_rtt_eq stopped_def updated_started)

lemma tcp_stop_timer_idle:
  assumes "socks h p = Some s" "timers h (rtt_timer s) = Some t" "timer_idle h t"
  shows "\<exists>s' t'. tcp_stop_timer p h = Inr (h\<lparr>socks := (socks h)(p \<mapsto> s'), timers := (timers h)(rtt_timer s \<mapsto> t')\<rparr>)
    \<and> s' = s\<lparr>interrupt_signal := interrupt_signal s'\<rparr> \<and> t' = t\<lparr>started := 0\<rparr>"
proof (cases "started t = 0")
  case True
  then have "tcp_stop_timer p h = Inr (h\<lparr>socks := (socks h)(p \<mapsto> s), timers := (timers h)(rtt_timer s \<mapsto> t)\<rparr>)"
    using assms by (simp add: tcp_stop_timer_def stop_timer_with_def fun_upd_idem)
  moreover have "s = s\<lparr>interrupt_signal := interrupt_signal s\<rparr>" "t = t\<lparr>started := 0\<rparr>"
    using True by simp_all
  ultimately show ?thesis
    by blast
next
  case False
  then show ?thesis
    using assms
    by (intro exI [of _ "s\<lparr>interrupt_signal := 1\<rparr>"] exI [of _ "t\<lparr>started := 0\<rparr>"])
      (simp add: tcp_stop_timer_def stop_timer_with_def timer_idle_def Let_def)
qed

lemma tcp_start_timer_running:
  assumes "socks h p = Some s" "timers h (rtt_timer s) = Some t" "timer_running h p t th"
  shows "tcp_start_timer p h
    = Inr (launched p s (updated t) (h\<lparr>threads := (threads h)(timer_thread t := None),
                                        clock := clock h + poll_delay h\<rparr>))"
proof -
  have "started t = 1"
    using assms(3) by (simp add: timer_running_def)
  then show ?thesis
    using assms(1,2) tcp_stop_timer_running [OF assms]
    by (simp add: tcp_start_timer_def launch_timer_def launched_def stopped_def Let_def)
qed

section \<open>Properties\<close>

lemma CLOCK_G_le: "0 < CLOCK_G" "CLOCK_G \<le> 1"
  using fl32_pos [of "1 / 10"] fl32_le_int [of "1 / 10" 1] by (simp_all add: CLOCK_G_def)

text \<open>
  The retransmission timeout does not depend on any measurement: \<open>ALPHA\<close> and \<open>BETA\<close>
  are integer divisions and equal 0. An update leaves the deviation as it is and installs
  the smaller of 100 and four times the deviation, whatever round-trip time was measured.
\<close>

theorem rtt_estimate_ignores_samples:
  assumes "is_f32 (estimated_rtt t)" "is_f32 (dev_rtt t)"
  shows "tcp_ack_update_rtt m k t = (0, t\<lparr>estimated_rtt := max CLOCK_G (f_mul 4 (dev_rtt t)),
    timeout := min 100 (max CLOCK_G (f_mul 4 (dev_rtt t)))\<rparr>)"
  using assms by (simp add: tcp_ack_update_rtt_eq updated_def rto_def)

definition initial_timer :: rtt_timer_t where
  "initial_timer = \<lparr>estimated_rtt = 3, dev_rtt = 3, timeout = 3, timer_thread = 0, started = 0\<rparr>"

lemma fl32_3_12: "fl32 3 = 3" "fl32 12 = 12"
  using fl32_exact [of 3] fl32_exact [of 12] by simp_all

lemma rtt_estimate_ignores_samples_witness:
  "timeout (snd (tcp_ack_update_rtt 0 1000 initial_timer)) = 12
   \<and> timeout (snd (tcp_ack_update_rtt 90 1000 initial_timer)) = 12"
  using rtt_estimate_ignores_samples [of initial_timer 0 1000]
    rtt_estimate_ignores_samples [of initial_timer 90 1000] CLOCK_G_le
  by (simp add: initial_timer_def is_f32_def fl32_3_12 f_mul_def)

text \<open>
  C34: The timeout that an update of the estimator installs always lies between the clock
  granularity (a tenth of a second) and \<open>TCP_RTO_MAX\<close>, for every timer and measurement.
\<close>

theorem rto_bounded:
  "CLOCK_G \<le> timeout (snd (tcp_ack_update_rtt m k t))
   \<and> timeout (snd (tcp_ack_update_rtt m k t)) \<le> of_int TCP_RTO_MAX"
proof -
  have "CLOCK_G \<le> 100"
    using CLOCK_G_le by linarith
  then show ?thesis
    by (simp add: tcp_ack_update_rtt_def tcp_set_rto_eq updated_def rto_def Let_def)
qed

text \<open>
  Restarting the timer leaves one timer thread of the socket. Whether its timer is idle
  or running, \<open>tcp_start_timer\<close> succeeds, the thread that ran before is gone, and the new
  thread is the one the timer names, was started now, and will run its full timeout.
\<close>

theorem tcp_start_timer_restarts:
  assumes s: "socks h p = Some s" and t: "timers h (rtt_timer s) = Some t"
    and run: "timer_idle h t \<or> timer_running h p t th"
    and only: "\<forall>tid th. threads h tid = Some th \<and> th_sock th = p \<longrightarrow> tid = timer_thread t"
    and idle: "started t = 0 \<longrightarrow> threads h (timer_thread t) = None"
  shows "\<exists>h' t'. tcp_start_timer p h = Inr h' \<and> timers h' (rtt_timer s) = Some t' \<and> started t' = 1
    \<and> {tid. \<exists>th. threads h' tid = Some th \<and> th_sock th = p} = {timer_thread t'}
    \<and> (\<exists>th. threads h' (timer_thread t') = Some th \<and> th_since th = clock h' \<and> th_limit th = timeout t')
    \<and> wire h' = wire h"
proof (cases "timer_idle h t")
  case True
  have "{tid. tid \<noteq> next_tid h \<longrightarrow> (\<exists>th. threads h tid = Some th \<and> th_sock th = p)} = {next_tid h}"
    using True only idle by (auto simp: timer_idle_def)
  with tcp_start_timer_idle [OF s t True] show ?thesis
    by (simp cong: conj_cong)
next
  case False
  with run have r: "timer_running h p t th"
    by simp
  have "{tid. (tid = timer_thread t \<longrightarrow> timer_thread t = next_tid h) \<and> (tid \<noteq> timer_thread t \<longrightarrow>
      tid \<noteq> next_tid h \<longrightarrow> (\<exists>th. threads h tid = Some th \<and> th_sock th = p))} = {next_tid h}"
    using only by auto
  with tcp_start_timer_running [OF s t r] show ?thesis
    by (simp cong: conj_cong)
qed

definition timer_example :: "con_state \<Rightarrow> host" where
  "timer_example cs = (blank_host Server)\<lparr>
     socks := [1 \<mapsto> blank_sock\<lparr>state := ESTABLISHED, rtt_timer := 2, wnd_send := 3, wnd_recv := 4,
       finished_handshake := 1, cwnd := 1400, ssthresh := 4200, con_status := cs,
       established_local_addr := \<lparr>ip = 0, port = 1234\<rparr>, established_remote_addr := \<lparr>ip = 0, port = 5678\<rparr>\<rparr>],
     timers := [2 \<mapsto> \<lparr>estimated_rtt = 3, dev_rtt = 3, timeout = 3, timer_thread = 7, started = 1\<rparr>],
     swnds := [3 \<mapsto> \<lparr>send_windows = 5, window_size = 44928, base = 1, nextseq = 3, rwnd = 100\<rparr>],
     rwnds := [4 \<mapsto> \<lparr>receiver_window = NULL, expect_seq = 0\<rparr>],
     blocks := [5 \<mapsto> [10, 20, 30, 40]], next_ptr := 6, next_tid := 8,
     threads := [7 \<mapsto> \<lparr>th_sock = 1, th_limit = 3, th_since = 0\<rparr>]\<rparr>"

lemmas timer_example_simps = timer_example_def blank_host_def blank_sock_def

lemma tcp_start_timer_restarts_witness:
  "\<exists>h' t'. tcp_start_timer 1 (timer_example SLOW_START) = Inr h' \<and> timers h' 2 = Some t' \<and> started t' = 1
    \<and> {tid. \<exists>th. threads h' tid = Some th \<and> th_sock th = 1} = {timer_thread t'}"
  using tcp_start_timer_restarts [of "timer_example SLOW_START" 1]
  by (fastforce simp: timer_example_simps timer_running_def is_f32_def fl32_3_12)

lemma seg_len_u16: "n + 22 < 65536 \<Longrightarrow> to_u16 (22 + int n) = of_nat (22 + n)"
  by (simp add: to_u16_def)

lemma uint_seg_len: "n + 22 < 65536 \<Longrightarrow> uint (of_nat (22 + n) :: u16) = int (22 + n)"
  by (simp add: uint_nat unat_of_nat del: of_nat_add)

text \<open>What a retransmission sends: everything between \<open>base\<close> and \<open>nextseq\<close>, as one segment.\<close>

definition outstanding :: "sender_window_t \<Rightarrow> bytes \<Rightarrow> bytes" where
  "outstanding w blk = take (unat (nextseq w - base w)) (drop (unat (base w)) blk)"

lemma retransmit_timer_effect:
  assumes "socks h p = Some s" "swnds h (wnd_send s) = Some w"
    and "blocks h (send_windows w) = Some blk" and len: "unat (nextseq w - base w) \<le> 1378"
    and blk: "unat (base w) + unat (nextseq w - base w) \<le> length blk"
    and start: "start p h = Inr h'" and name: "name_of h' \<noteq> OtherHost"
  shows "retransmit_timer_with start p h = Inr (h'\<lparr>wire := wire h'
    @ [segment (port (established_local_addr s)) (port (established_remote_addr s)) (base w) 0 NO_FLAG 1
         (outstanding w blk)]\<rparr>)"
proof -
  define n where "n = unat (nextseq w - base w)"
  have len: "n \<le> 1378" and blk: "unat (base w) + n \<le> length blk"
    using assms(4,5) by (simp_all add: n_def)
  have slen: "sint (nextseq w - base w) = int n"
    unfolding n_def using assms(4) by (intro sint_small) simp
  have out: "outstanding w blk = take n (drop (unat (base w)) blk)" and l: "length (outstanding w blk) = n"
    using blk by (simp_all add: outstanding_def n_def)
  have "mem_read blk (unat (base w)) n = Inr (outstanding w blk)"
    using blk by (simp add: mem_read_def out)
  moreover have "create_packet_buf src dst seq 0 22 (to_u16 (22 + int n)) fl 1 0 (outstanding w blk) (int n)
      = Inr (segment src dst seq 0 fl 1 (outstanding w blk))" for src dst seq fl
    using create_segment [of "outstanding w blk" src dst seq 0 fl 1] l len by (simp add: seg_len_u16)
  moreover have "uint (to_u16 (22 + int n)) = 22 + int n"
    using len uint_seg_len [of n] by (simp add: seg_len_u16)
  ultimately show ?thesis
    using assms(1-3) len start name sendToLayer3_segment [of "outstanding w blk" h'] l
    by (simp add: retransmit_timer_with_def slen to_u16_def [of 22] Let_def)
qed

text \<open>The timer thread \<open>tid\<close> of socket \<open>p\<close> finds that its timeout has passed.\<close>

definition timer_expired :: "host \<Rightarrow> ptr \<Rightarrow> tju_tcp_t \<Rightarrow> rtt_timer_t \<Rightarrow> nat \<Rightarrow> bool" where
  "timer_expired h p s t tid \<longleftrightarrow> socks h p = Some s \<and> timers h (rtt_timer s) = Some t \<and> timer_thread t = tid
     \<and> (\<exists>th. threads h tid = Some th \<and> th_sock th = p \<and> th_limit th \<le> of_int (clock h - th_since th))"

lemma check_timeout_expired:
  "timer_expired h p s t tid \<Longrightarrow>
     tcp_check_timeout tid h = tcp_write_timer_handler p (h\<lparr>threads := (threads h)(tid := None)\<rparr>)"
  by (auto simp: timer_expired_def tcp_check_timeout_def check_timeout_with_def Let_def)

lemma handle_loss_ack_frame [simp]:
  "rtt_timer (handle_loss_ack s) = rtt_timer s" "wnd_send (handle_loss_ack s) = wnd_send s"
  "wnd_recv (handle_loss_ack s) = wnd_recv s" "state (handle_loss_ack s) = state s"
  "established_local_addr (handle_loss_ack s) = established_local_addr s"
  "established_remote_addr (handle_loss_ack s) = established_remote_addr s"
  "timeout_counts (handle_loss_ack s) = timeout_counts s"
  "finished_handshake (handle_loss_ack s) = finished_handshake s"
  by (simp_all add: handle_loss_ack_def Let_def)


lemma timer_example_expired:
  "timer_expired ((timer_example cs)\<lparr>clock := 3\<rparr>) 1 (the (socks (timer_example cs) 1))
     (the (timers (timer_example cs) 2)) 7"
  by (simp add: timer_expired_def timer_example_simps)


text \<open>
  A retransmission that cannot be sent ends the program: when \<open>nextseq\<close> lies behind
  \<open>base\<close> or more than \<open>MAX_LEN\<close> bytes are outstanding, \<open>tcp_retransmit_timer\<close> calls
  \<open>exit(0)\<close>, and only then.
\<close>

theorem retransmit_exits_iff:
  assumes "socks h p = Some s" "swnds h (wnd_send s) = Some w" "timers h (rtt_timer s) = Some t"
    and idle: "timer_idle h t" and name: "name_of h \<noteq> OtherHost"
  shows "tcp_retransmit_timer p h = Inl (Exit 0)
    \<longleftrightarrow> sint (nextseq w - base w) < 0 \<or> 1400 < sint (nextseq w - base w)"
proof -
  have "tcp_start_timer p h = Inr (launched p s t h)"
    using assms by (intro tcp_start_timer_idle)
  moreover have "sendToLayer3 m k (launched p s t h) \<noteq> Inl (Exit 0)" for m k
    using name by (simp add: sendToLayer3_def bindE_eq_Inl_iff)
  ultimately show ?thesis
    using assms(1,2)
    by (simp add: tcp_retransmit_timer_def retransmit_timer_with_def Let_def bindE_eq_Inl_iff)
qed

lemma retransmit_exits_iff_witness:
  "tcp_retransmit_timer 1 ((timer_example SLOW_START)\<lparr>threads := (\<lambda>_. None), swnds := [3 \<mapsto>
     \<lparr>send_windows = 5, window_size = 44928, base = 2, nextseq = 1, rwnd = 100\<rparr>]\<rparr>) = Inl (Exit 0)"
proof -
  let ?w = "\<lparr>send_windows = 5, window_size = 44928, base = 2, nextseq = 1, rwnd = 100\<rparr>"
  show ?thesis
    using retransmit_exits_iff [of _ 1 "the (socks (timer_example SLOW_START) 1)" ?w
        "the (timers (timer_example SLOW_START) 2)"]
    by (simp add: timer_example_simps timer_idle_def)
qed

text \<open>
  The first timeout of an established connection is lost. It only sends an
  acknowledgement and records the end of the handshake: nothing is retransmitted and no
  timer thread of the socket is left, although the timer still counts as started.
\<close>

theorem first_timeout_only_acks:
  assumes ex: "timer_expired h p s t tid" and st: "state s = ESTABLISHED" "finished_handshake s = 0"
    and r: "rwnds h (wnd_recv s) = Some r" and name: "name_of h \<noteq> OtherHost"
    and only: "\<forall>k th. threads h k = Some th \<and> th_sock th = p \<longrightarrow> k = tid"
  shows "\<exists>h'. tcp_check_timeout tid h = Inr h'
    \<and> wire h' = wire h @ [control s (expect_seq r) ACK (to_u16 (100 - received_len s))]
    \<and> socks h' p = Some (s\<lparr>finished_handshake := 1\<rparr>)
    \<and> (\<forall>k th. threads h' k = Some th \<longrightarrow> th_sock th \<noteq> p) \<and> timers h' = timers h"
proof -
  have s: "socks h p = Some s"
    using ex by (auto simp: timer_expired_def)
  have "threads h k = Some th \<Longrightarrow> k \<noteq> tid \<Longrightarrow> th_sock th \<noteq> p" for k th
    using only by blast
  then show ?thesis
    using check_timeout_expired [OF ex] s st r name
    by (simp add: tcp_write_timer_handler_def timer_handler_with_def send_control_effect(4) control_def)
qed

lemma first_timeout_only_acks_witness:
  "\<exists>h h'. tcp_check_timeout 7 h = Inr h' \<and> threads h 7 \<noteq> None
    \<and> (\<forall>k th. threads h' k = Some th \<longrightarrow> th_sock th \<noteq> 1) \<and> length (wire h') = 1"
proof -
  let ?h = "timer_example SLOW_START"
  let ?s = "(the (socks ?h 1))\<lparr>finished_handshake := 0\<rparr>"
  let ?g = "?h\<lparr>clock := 3, socks := [1 \<mapsto> ?s]\<rparr>"
  have "timer_expired ?g 1 ?s (the (timers ?h 2)) 7"
    by (simp add: timer_expired_def timer_example_simps)
  moreover have "state ?s = ESTABLISHED" "finished_handshake ?s = 0"
    "rwnds ?g (wnd_recv ?s) = Some \<lparr>receiver_window = NULL, expect_seq = 0\<rparr>" "name_of ?g \<noteq> OtherHost"
    "\<forall>k th. threads ?g k = Some th \<and> th_sock th = 1 \<longrightarrow> k = 7" "wire ?g = []" "threads ?g 7 \<noteq> None"
    by (simp_all add: timer_example_simps)
  ultimately show ?thesis
    using first_timeout_only_acks [of ?g 1 ?s _ 7]
    by (metis append_Nil length_Cons list.size(3) One_nat_def)
qed

text \<open>
  After more than \<open>RETRANSMIT_LIMIT\<close> timeouts the connection is given up: the receive
  buffer is freed with what it holds, the state becomes \<open>FIN_WAIT_1\<close>, and a \<open>FIN\<close> is sent.
\<close>

theorem retransmit_limit_closes:
  assumes ex: "timer_expired h p s t tid" and st: "state s = ESTABLISHED" "finished_handshake s \<noteq> 0"
    and count: "10 < timeout_counts s" and r: "rwnds h (wnd_recv s) = Some r"
    and name: "name_of h \<noteq> OtherHost" and buf: "blocks h (received_buf s) = Some b" "received_buf s \<noteq> NULL"
  shows "\<exists>h' s'. tcp_check_timeout tid h = Inr h' \<and> socks h' p = Some s' \<and> state s' = FIN_WAIT_1
    \<and> received_len s' = 0 \<and> received_buf s' = NULL \<and> blocks h' (received_buf s) = None
    \<and> wire h' = wire h @ [control s (expect_seq r) (ACK OR FIN) 0]"
proof -
  have s: "socks h p = Some s"
    using ex by (auto simp: timer_expired_def)
  have "10 < uint (timeout_counts s)"
    using count by (simp add: word_less_def)
  then show ?thesis
    using check_timeout_expired [OF ex] s st r name buf
    by (simp add: tcp_write_timer_handler_def timer_handler_with_def tcp_outlimit_retransmit_def
        tcp_close_begin_def update_sock_def send_control_effect(1) control_def)
qed

lemma retransmit_limit_closes_witness:
  "\<exists>h h' s'. tcp_check_timeout 7 h = Inr h' \<and> socks h' 1 = Some s' \<and> state s' = FIN_WAIT_1"
proof -
  let ?h = "timer_example SLOW_START"
  let ?s = "(the (socks ?h 1))\<lparr>timeout_counts := 11, received_buf := 5\<rparr>"
  let ?g = "?h\<lparr>clock := 3, socks := [1 \<mapsto> ?s]\<rparr>"
  have "timer_expired ?g 1 ?s (the (timers ?h 2)) 7"
    by (simp add: timer_expired_def timer_example_simps)
  moreover have "state ?s = ESTABLISHED" "finished_handshake ?s \<noteq> 0" "10 < timeout_counts ?s"
    "rwnds ?g (wnd_recv ?s) = Some \<lparr>receiver_window = NULL, expect_seq = 0\<rparr>" "name_of ?g \<noteq> OtherHost"
    "blocks ?g (received_buf ?s) = Some [10, 20, 30, 40]" "received_buf ?s \<noteq> NULL"
    by (simp_all add: timer_example_simps)
  ultimately show ?thesis
    using retransmit_limit_closes [of ?g 1 ?s] by blast
qed

end
