(* ===== verification/Handshake.thy ===== *)
theory Handshake
  imports Timer Sockqueue
begin

text \<open>
  Connection management of \<open>src/tju_tcp.c\<close>: the server's and the client's part of the
  three-way handshake and the four segments that close a connection. A handler returns the
  C result and the host. \<open>malloc\<close> of a socket structure does not initialise it: \<open>junk\<close> is
  the content the memory happens to have. \<open>sleep\<close> advances the clock, \<open>free\<close> removes the
  socket; segments and timers that other threads handle during a \<open>sleep\<close> come after it.
\<close>

section \<open>Three-way handshake\<close>

definition malloc_sock :: "tju_tcp_t \<Rightarrow> host \<Rightarrow> ptr \<times> host" where
  "malloc_sock junk = malloc (\<lambda>c. set_sock c junk)"

text \<open>A \<open>SYN\<close> for a remote address the listener has no connection with.\<close>

definition server_syn :: "tju_tcp_t \<Rightarrow> ptr \<Rightarrow> bytes \<Rightarrow> tju_sock_addr \<Rightarrow> int \<Rightarrow> host \<Rightarrow> (int \<times> host) outcome" where
  "server_syn junk p pkt conn_addr hashval h =
     (let (conn_sock, h) = malloc_sock (junk\<lparr>bind_addr := conn_addr\<rparr>) h
      in bindE (update_sock p (\<lambda>s. s\<lparr>established_remote_addr := conn_addr\<rparr>) h) (\<lambda>h.
         bindE (tcp_update_expected_seq p pkt h) (\<lambda>h.
         bindE (update_sock p (\<lambda>s. s\<lparr>listen_state := (listen_state s)(hashval := SYN_RECV)\<rparr>) h) (\<lambda>h.
         bindE (sock_at h p) (\<lambda>s.
         bindE (sockqueue_push (syn_queue s) conn_sock h) (\<lambda>(index, h).
           if index < 0 then Inr (-1, h)
           else bindE (update_sock p (\<lambda>s. s\<lparr>saved_syn := index\<rparr>) h) (\<lambda>h.
                bindE (build_state_pkt pkt (SYN OR ACK)) (\<lambda>(send_pkt, len).
                bindE (tcp_start_timer p h) (\<lambda>h.
                bindE (sendToLayer3 send_pkt len h) (\<lambda>h. Inr (0, h)))))))))))"

text \<open>The \<open>ACK\<close> that completes a handshake. The result of \<open>sockqueue_remove\<close> and of the
  second push are not used.\<close>

definition server_ack :: "tju_tcp_t \<Rightarrow> ptr \<Rightarrow> bytes \<Rightarrow> int \<Rightarrow> host \<Rightarrow> (int \<times> host) outcome" where
  "server_ack junk p pkt hashval h =
     bindE (tcp_stop_timer p h) (\<lambda>h.
     bindE (update_sock p (\<lambda>s. s\<lparr>listen_state := (listen_state s)(hashval := ESTABLISHED)\<rparr>) h) (\<lambda>h.
     bindE (tcp_update_expected_seq p pkt h) (\<lambda>h.
     bindE (sock_at h p) (\<lambda>s.
       let index = saved_syn s; (conn_sock, h) = malloc_sock junk h
       in bindE (sockqueue_remove (syn_queue s) conn_sock index h) (\<lambda>(_, h).
          bindE (update_sock conn_sock (\<lambda>c. c\<lparr>state := ESTABLISHED\<rparr>) h) (\<lambda>h.
          bindE (sockqueue_push (accept_queue s) conn_sock h) (\<lambda>(_, h). Inr (0, h))))))))"

text \<open>In state \<open>SYN_RECV\<close> a reset falls through to the default branch.\<close>

definition tcp_rcv_state_server ::
  "tju_tcp_t \<Rightarrow> ptr \<Rightarrow> bytes \<Rightarrow> tju_sock_addr \<Rightarrow> host \<Rightarrow> (int \<times> host) outcome" where
  "tcp_rcv_state_server junk p pkt conn_addr h =
     (let fl = get_flags pkt
      in bindE (sock_at h p) (\<lambda>s. bindE (swnd_at h s) (\<lambda>w.
           let h = set_swnd (wnd_send s) (w\<lparr>rwnd := get_advertised_window pkt\<rparr>) h;
               hashval = cal_hash (ip (bind_addr s)) (port (bind_addr s)) (ip conn_addr) (port conn_addr)
           in bindE (slot hashval) (\<lambda>_.
                case listen_state s hashval of
                  CLOSED \<Rightarrow> Inr (-1, h)
                | LISTEN \<Rightarrow>
                    (if fl = SYN then server_syn junk p pkt conn_addr hashval h
                     else if fl = RST then Inr (0, h) else Inr (-1, h))
                | SYN_RECV \<Rightarrow>
                    (if fl = ACK then server_ack junk p pkt hashval h else Inr (-1, h))
                | _ \<Rightarrow> Inr (-1, h)))))"

definition tcp_rcv_state_client :: "ptr \<Rightarrow> bytes \<Rightarrow> tju_sock_addr \<Rightarrow> host \<Rightarrow> (int \<times> host) outcome" where
  "tcp_rcv_state_client p pkt conn_sock h =
     (let fl = get_flags pkt
      in bindE (sock_at h p) (\<lambda>s. bindE (swnd_at h s) (\<lambda>w.
           let h = set_swnd (wnd_send s) (w\<lparr>rwnd := get_advertised_window pkt\<rparr>) h
           in if fl = SYN OR ACK \<and> state s = SYN_SENT then
                bindE (tcp_stop_timer p h) (\<lambda>h.
                bindE (tcp_update_expected_seq p pkt h) (\<lambda>h.
                bindE (sock_at h p) (\<lambda>s.
                  let seq = get_seq pkt + 1; ack = get_seq pkt + 1;
                      adv_wnd = to_u16 (TCP_RECV_BUFFER_SIZE - received_len s)
                  in bindE (create_packet_buf (port (established_local_addr s)) (port conn_sock) seq ack
                              (to_u16 HEADER_LEN) (to_u16 HEADER_LEN) ACK adv_wnd 0 [] 0) (\<lambda>send_pkt.
                     bindE (sendToLayer3 send_pkt HEADER_LEN h) (\<lambda>h.
                     bindE (update_sock p (\<lambda>s. s\<lparr>state := ESTABLISHED\<rparr>) h) (\<lambda>h. Inr (0, h)))))))
              else Inr (-1, h))))"

section \<open>Closing\<close>

definition sleep :: "int \<Rightarrow> host \<Rightarrow> host" where
  "sleep n h = h\<lparr>clock := clock h + n\<rparr>"

definition free_sock :: "ptr \<Rightarrow> host \<Rightarrow> host" where
  "free_sock p h = h\<lparr>socks := (socks h)(p := None)\<rparr>"

definition tcp_state_close :: "ptr \<Rightarrow> bytes \<Rightarrow> host \<Rightarrow> (int \<times> host) outcome" where
  "tcp_state_close p recv_pkt h =
     (let fl = get_flags recv_pkt
      in bindE (sock_at h p) (\<lambda>s.
           case state s of
             ESTABLISHED \<Rightarrow>
               (if fl = FIN OR ACK then
                  bindE (update_sock p (\<lambda>s. s\<lparr>state := CLOSE_WAIT\<rparr>) h) (\<lambda>h.
                  bindE (tcp_send_ack p h) (\<lambda>h.
                    let h = sleep (MSL * 2) h
                    in bindE (update_sock p (\<lambda>s. s\<lparr>state := LAST_ACK\<rparr>) h) (\<lambda>h.
                       bindE (tcp_send_fin_ack p h) (\<lambda>h. Inr (0, h)))))
                else Inr (-1, h))
           | FIN_WAIT_1 \<Rightarrow>
               (if fl = ACK then bindE (update_sock p (\<lambda>s. s\<lparr>state := FIN_WAIT_2\<rparr>) h) (\<lambda>h. Inr (0, h))
                else Inr (-1, h))
           | FIN_WAIT_2 \<Rightarrow>
               (if fl = FIN OR ACK then
                  bindE (tcp_send_ack p h) (\<lambda>h.
                  bindE (update_sock p (\<lambda>s. s\<lparr>state := TIME_WAIT\<rparr>) h) (\<lambda>h.
                    Inr (0, free_sock p (sleep (2 * MSL) h))))
                else Inr (-1, h))
           | LAST_ACK \<Rightarrow>
               (if fl = ACK then
                  bindE (update_sock p (\<lambda>s. s\<lparr>state := CLOSED\<rparr>) h) (\<lambda>h. Inr (0, free_sock p h))
                else Inr (-1, h))
           | _ \<Rightarrow> Inr (-1, h)))"

section \<open>Effect of the handshake steps\<close>

text \<open>The reply to a \<open>SYN\<close> with sequence number \<open>n\<close>: sequence number \<open>n + 22\<close>, acknowledging
  \<open>n + 1\<close>.\<close>

lemma build_state_pkt_eq:
  "build_state_pkt pkt fl = Inr (segment (get_dst pkt) (get_src pkt) (get_seq pkt + 22) (get_seq pkt + 1) fl 100 [], 22)"
  by (simp add: build_state_pkt_def Let_def to_u16_def to_u32_def create_control)

definition expected_after :: "bytes \<Rightarrow> u32" where
  "expected_after pkt = get_seq pkt + ucast (get_plen pkt) - ucast (get_hlen pkt)"

lemma tcp_update_expected_seq_eq:
  "socks h p = Some s \<Longrightarrow> rwnds h (wnd_recv s) = Some r \<Longrightarrow> tcp_update_expected_seq p pkt h
     = Inr (h\<lparr>rwnds := (rwnds h)(wnd_recv s \<mapsto> r\<lparr>expect_seq := expected_after pkt\<rparr>)\<rparr>)"
  by (simp add: tcp_update_expected_seq_def expected_after_def Let_def)

lemma heap_ok_updates:
  assumes "heap_ok h"
  shows "socks h p = Some s \<Longrightarrow> heap_ok (h\<lparr>socks := (socks h)(p \<mapsto> s')\<rparr>)"
    "swnds h p = Some w \<Longrightarrow> heap_ok (h\<lparr>swnds := (swnds h)(p \<mapsto> w')\<rparr>)"
    "rwnds h p = Some r \<Longrightarrow> heap_ok (h\<lparr>rwnds := (rwnds h)(p \<mapsto> r')\<rparr>)"
    "timers h p = Some t \<Longrightarrow> heap_ok (h\<lparr>timers := (timers h)(p \<mapsto> t')\<rparr>)"
    "heap_ok (h\<lparr>wire := ws\<rparr>)" "heap_ok (h\<lparr>clock := c\<rparr>)" "heap_ok (h\<lparr>threads := ts\<rparr>)"
    "heap_ok (h\<lparr>next_tid := k\<rparr>)"
  using assms heap_ok_bound [OF assms] by (auto simp: heap_ok_def)

lemma malloc_sock_ok:
  assumes "heap_ok h"
  shows "heap_ok (h\<lparr>socks := (socks h)(next_ptr h \<mapsto> v), next_ptr := next_ptr h + 1\<rparr>)"
  using assms by (auto simp: heap_ok_def)

text \<open>The parts of a host that a handshake step does not touch.\<close>

definition host_frame :: "host \<Rightarrow> host \<Rightarrow> bool" where
  "host_frame h h' \<longleftrightarrow> swnds h' = swnds h \<and> blocks h' = blocks h \<and> listen_queue h' = listen_queue h
     \<and> established_queue h' = established_queue h \<and> connect_sock h' = connect_sock h
     \<and> is_server h' = is_server h \<and> name_of h' = name_of h \<and> send_threads h' = send_threads h
     \<and> poll_delay h' = poll_delay h"

text \<open>Two queues of a socket: both represented, on disjoint nodes.\<close>

definition two_queues :: "host \<Rightarrow> ptr \<Rightarrow> int \<Rightarrow> (ptr \<times> ptr) list \<Rightarrow> ptr \<Rightarrow> int \<Rightarrow> (ptr \<times> ptr) list \<Rightarrow> bool" where
  "two_queues h q n cs q' m ds \<longleftrightarrow> q \<noteq> q' \<and> q_rep h q n cs \<and> q_rep h q' m ds \<and> fst ` set cs \<inter> fst ` set ds = {}"

lemma q_rep_fresh:
  assumes "heap_ok h" and "q_rep h q n cells"
  shows "next_ptr h \<notin> fst ` set cells"
  using assms seg_addresses heap_ok_fresh(3) [OF assms(1)] by (fastforce simp: q_rep_def)

lemma two_queues_push:
  assumes ok: "heap_ok h" and tq: "two_queues h q n cs q' m ds" and n: "n \<noteq> 1024"
  shows "\<exists>h'. sockqueue_push q c h = Inr (if cs = [] then 0 else n, h') \<and> heap_ok h'
    \<and> two_queues h' q (n + 1) (cs @ [(next_ptr h, c)]) q' m ds
    \<and> h' = h\<lparr>nodes := nodes h', queues := queues h', next_ptr := next_ptr h + 1\<rparr>"
proof -
  have rep: "q_rep h q n cs" "q_rep h q' m ds" "q \<noteq> q'" "fst ` set cs \<inter> fst ` set ds = {}"
    using tq by (simp_all add: two_queues_def)
  obtain h' where push: "sockqueue_push q c h = Inr (if cs = [] then 0 else n, h')"
    and r: "q_rep h' q (n + 1) (cs @ [(next_ptr h, c)])" and ok': "heap_ok h'" and "socks h' = socks h"
    "next_ptr h' = next_ptr h + 1" and fr: "queue_frame q (insert (next_ptr h) (fst ` set cs)) h h'"
    using sockqueue_push_effect [OF ok rep(1) n] by blast
  moreover have "q_rep h' q' m ds"
    using q_rep_frame [OF fr, of q' ds m] rep q_rep_fresh [OF ok rep(2)] by auto
  moreover have "h' = h\<lparr>nodes := nodes h', queues := queues h', next_ptr := next_ptr h + 1\<rparr>"
    using fr calculation(4,5) by (simp add: queue_frame_def)
  ultimately show ?thesis
    using rep(3,4) q_rep_fresh [OF ok rep(2)] by (auto simp: two_queues_def)
qed

lemma two_queues_cong:
  "queues h' = queues h \<Longrightarrow> nodes h' = nodes h \<Longrightarrow> two_queues h' q n cs q' m ds = two_queues h q n cs q' m ds"
  by (simp add: two_queues_def q_rep_def)

lemma two_queues_sym: "two_queues h q n cs q' m ds \<Longrightarrow> two_queues h q' m ds q n cs"
  by (auto simp: two_queues_def)

lemma server_syn_effect:
  assumes ok: "heap_ok h" and s: "socks h p = Some s" and r: "rwnds h (wnd_recv s) = Some r"
    and t: "timers h (rtt_timer s) = Some t" "timer_idle h t" and name: "name_of h \<noteq> OtherHost"
    and tq: "two_queues h (syn_queue s) n cs (accept_queue s) m ds" and n: "0 \<le> n" "n \<noteq> 1024"
  defines "idx \<equiv> if cs = [] then 0 else n" and "c \<equiv> next_ptr h"
  shows "\<exists>h'. server_syn junk p pkt a hv h = Inr (0, h') \<and> heap_ok h' \<and> host_frame h h'
    \<and> socks h' = (socks h)(c \<mapsto> junk\<lparr>bind_addr := a\<rparr>,
         p \<mapsto> s\<lparr>established_remote_addr := a, listen_state := (listen_state s)(hv := SYN_RECV),
               saved_syn := idx, interrupt_signal := 0\<rparr>)
    \<and> rwnds h' = (rwnds h)(wnd_recv s \<mapsto> r\<lparr>expect_seq := expected_after pkt\<rparr>)
    \<and> timers h' = (timers h)(rtt_timer s \<mapsto> t\<lparr>started := 1, timer_thread := next_tid h\<rparr>)
    \<and> threads h' = (threads h)(next_tid h \<mapsto> \<lparr>th_sock = p, th_limit = timeout t, th_since = clock h\<rparr>)
    \<and> clock h' = clock h \<and> next_tid h' = next_tid h + 1
    \<and> two_queues h' (syn_queue s) (n + 1) (cs @ [(c + 1, c)]) (accept_queue s) m ds
    \<and> wire h' = wire h @ [segment (get_dst pkt) (get_src pkt) (get_seq pkt + 22) (get_seq pkt + 1)
                            (SYN OR ACK) 100 []]"
proof -
  let ?s1 = "s\<lparr>established_remote_addr := a, listen_state := (listen_state s)(hv := SYN_RECV)\<rparr>"
  let ?h1 = "h\<lparr>next_ptr := c + 1, rwnds := (rwnds h)(wnd_recv s \<mapsto> r\<lparr>expect_seq := expected_after pkt\<rparr>),
    socks := (socks h)(c \<mapsto> junk\<lparr>bind_addr := a\<rparr>, p \<mapsto> ?s1)\<rparr>"
  have pc: "p < c" "0 < p"
    using heap_ok_bound(1) [OF ok s] by (simp_all add: c_def)
  have ok1: "heap_ok ?h1"
    using ok pc heap_ok_bound(5) [OF ok r] by (auto simp: heap_ok_def c_def)
  have tq1: "two_queues ?h1 (syn_queue s) n cs (accept_queue s) m ds"
    using tq by (simp add: two_queues_def q_rep_def)
  obtain h2 where push: "sockqueue_push (syn_queue s) c ?h1 = Inr (idx, h2)"
    and tq2: "two_queues h2 (syn_queue s) (n + 1) (cs @ [(c + 1, c)]) (accept_queue s) m ds"
    and ok2: "heap_ok h2" and h2: "h2 = ?h1\<lparr>nodes := nodes h2, queues := queues h2, next_ptr := c + 1 + 1\<rparr>"
    using two_queues_push [OF ok1 tq1 n(2), of c] by (auto simp: idx_def)
  let ?s3 = "?s1\<lparr>saved_syn := idx\<rparr>"
  let ?h3 = "h2\<lparr>socks := (socks h2)(p \<mapsto> ?s3)\<rparr>"
  have f2: "socks h2 = socks ?h1" "rwnds h2 = rwnds ?h1" "timers h2 = timers h" "threads h2 = threads h"
    "clock h2 = clock h" "next_tid h2 = next_tid h" "name_of h2 = name_of h" "wire h2 = wire h"
    "host_frame h h2" "swnds h2 = swnds h"
    by (subst h2, simp add: host_frame_def)+
  have ok3: "heap_ok ?h3"
    by (rule heap_ok_updates(1) [OF ok2, of p ?s1]) (simp add: f2)
  have start: "tcp_start_timer p ?h3 = Inr (launched p ?s3 t ?h3)"
    using t by (intro tcp_start_timer_idle) (simp_all add: f2 timer_idle_def)
  have "server_syn junk p pkt a hv h = Inr (0, (launched p ?s3 t ?h3)\<lparr>wire := wire h
      @ [segment (get_dst pkt) (get_src pkt) (get_seq pkt + 22) (get_seq pkt + 1) (SYN OR ACK) 100 []]\<rparr>)"
    using s r pc n push name start
    by (simp add: server_syn_def malloc_sock_def malloc_def update_sock_def tcp_update_expected_seq_eq
        c_def [symmetric] idx_def f2 build_state_pkt_eq sendToLayer3_control Let_def
        fun_upd_twist)
  moreover have "heap_ok ((launched p ?s3 t ?h3)\<lparr>wire := ws\<rparr>)" for ws
    using ok3 heap_ok_bound(1) [OF ok3, of p ?s3] heap_ok_bound(6) [OF ok3, of "rtt_timer s" t] t(1)
    by (auto simp: heap_ok_def f2)
  ultimately show ?thesis
    using tq2 f2(9) by (simp add: f2 two_queues_def q_rep_def host_frame_def pc fun_upd_twist)
qed

text \<open>Stopping a timer that is idle or runs, up to the fields that do not matter later.\<close>

lemma tcp_stop_timer_ok:
  assumes s: "socks h p = Some s" and t: "timers h (rtt_timer s) = Some t"
    and run: "timer_idle h t \<or> timer_running h p t th"
  shows "\<exists>i t' ths c. tcp_stop_timer p h = Inr (h\<lparr>timers := (timers h)(rtt_timer s \<mapsto> t'),
      socks := (socks h)(p \<mapsto> s\<lparr>interrupt_signal := i\<rparr>), threads := ths, clock := c\<rparr>)
    \<and> started t' = 0 \<and> timer_thread t' = timer_thread t \<and> (\<forall>k. k \<noteq> timer_thread t \<longrightarrow> ths k = threads h k)
    \<and> (c = clock h \<or> c = clock h + poll_delay h)
    \<and> (timer_running h p t th \<longrightarrow> t' = (updated t)\<lparr>started := 0\<rparr> \<and> ths = (threads h)(timer_thread t := None))"
proof (cases "timer_idle h t")
  case True
  then have "\<not> timer_running h p t th"
    by (auto simp: timer_idle_def timer_running_def)
  obtain s' t' where stop: "tcp_stop_timer p h
      = Inr (h\<lparr>socks := (socks h)(p \<mapsto> s'), timers := (timers h)(rtt_timer s \<mapsto> t')\<rparr>)"
    and s': "s' = s\<lparr>interrupt_signal := interrupt_signal s'\<rparr>" and t': "t' = t\<lparr>started := 0\<rparr>"
    using tcp_stop_timer_idle [OF s t True] by blast
  show ?thesis
    by (rule exI [of _ "interrupt_signal s'"], rule exI [of _ t'], rule exI [of _ "threads h"],
        rule exI [of _ "clock h"]) (use stop s' t' \<open>\<not> timer_running h p t th\<close> in simp)
next
  case False
  with run have "timer_running h p t th"
    by simp
  then show ?thesis
    using tcp_stop_timer_running [OF s t]
    by (intro exI [of _ 1] exI [of _ "(updated t)\<lparr>started := 0\<rparr>"]
        exI [of _ "(threads h)(timer_thread t := None)"] exI [of _ "clock h + poll_delay h"])
      (simp add: stopped_def)
qed

lemma two_queues_remove_head:
  assumes ok: "heap_ok h" and tq: "two_queues h q n ((a, d) # cs) q' m ds" and n: "n \<noteq> 0"
    and d: "socks h d = Some v" and dst: "socks h dst = Some w"
  shows "\<exists>h'. sockqueue_remove q dst 0 h = Inr (0, h') \<and> heap_ok h' \<and> two_queues h' q n [] q' m ds
    \<and> h' = h\<lparr>nodes := nodes h', queues := queues h', socks := (socks h)(dst \<mapsto> v)\<rparr>"
proof -
  have rep: "q_rep h q n ((a, d) # cs)" "q_rep h q' m ds" "q \<noteq> q'" "a \<notin> fst ` set ds"
    using tq by (auto simp: two_queues_def)
  obtain h' where rem: "sockqueue_remove q dst 0 h = Inr (0, h')" "q_rep h' q n []" "heap_ok h'"
    and "socks h' = (socks h)(dst \<mapsto> v)" "next_ptr h' = next_ptr h" and fr: "queue_frame q {a} h h'"
    using sockqueue_remove_head_effect [OF ok rep(1) n d dst] by blast
  moreover have "q_rep h' q' m ds"
    using q_rep_frame [OF fr, of q' ds m] rep by auto
  moreover have "h' = h\<lparr>nodes := nodes h', queues := queues h', socks := (socks h)(dst \<mapsto> v)\<rparr>"
    using fr calculation(4,5) by (simp add: queue_frame_def)
  ultimately show ?thesis
    using rep(3) by (auto simp: two_queues_def)
qed

lemma server_ack_effect:
  assumes ok: "heap_ok h" and s: "socks h p = Some s" and r: "rwnds h (wnd_recv s) = Some r"
    and t: "timers h (rtt_timer s) = Some t" and run: "timer_idle h t \<or> timer_running h p t th"
    and tq: "two_queues h (syn_queue s) n ((a, d) # cs) (accept_queue s) m ds" and n: "n \<noteq> 0" "m \<noteq> 1024"
    and d: "socks h d = Some v" "d \<noteq> p" and saved: "saved_syn s = 0"
  defines "c \<equiv> next_ptr h"
  shows "\<exists>h' i t'. server_ack junk p pkt hv h = Inr (0, h') \<and> heap_ok h' \<and> host_frame h h'
    \<and> socks h' = (socks h)(p \<mapsto> s\<lparr>interrupt_signal := i, listen_state := (listen_state s)(hv := ESTABLISHED)\<rparr>,
         c \<mapsto> v\<lparr>state := ESTABLISHED\<rparr>)
    \<and> rwnds h' = (rwnds h)(wnd_recv s \<mapsto> r\<lparr>expect_seq := expected_after pkt\<rparr>)
    \<and> timers h' = (timers h)(rtt_timer s \<mapsto> t') \<and> started t' = 0 \<and> timer_thread t' = timer_thread t
    \<and> (\<forall>k. k \<noteq> timer_thread t \<longrightarrow> threads h' k = threads h k) \<and> next_tid h' = next_tid h
    \<and> (clock h' = clock h \<or> clock h' = clock h + poll_delay h)
    \<and> two_queues h' (syn_queue s) n [] (accept_queue s) (m + 1) (ds @ [(c + 1, c)])
    \<and> wire h' = wire h"
proof -
  obtain i t' ths cl where stop: "tcp_stop_timer p h = Inr (h\<lparr>timers := (timers h)(rtt_timer s \<mapsto> t'),
      socks := (socks h)(p \<mapsto> s\<lparr>interrupt_signal := i\<rparr>), threads := ths, clock := cl\<rparr>)"
    and t': "started t' = 0" "timer_thread t' = timer_thread t"
    "\<forall>k. k \<noteq> timer_thread t \<longrightarrow> ths k = threads h k"
    and cl: "cl = clock h \<or> cl = clock h + poll_delay h"
    using tcp_stop_timer_ok [OF s t run] by blast
  let ?s1 = "s\<lparr>interrupt_signal := i, listen_state := (listen_state s)(hv := ESTABLISHED)\<rparr>"
  let ?h1 = "h\<lparr>timers := (timers h)(rtt_timer s \<mapsto> t'), threads := ths, clock := cl,
    rwnds := (rwnds h)(wnd_recv s \<mapsto> r\<lparr>expect_seq := expected_after pkt\<rparr>),
    next_ptr := c + 1, socks := (socks h)(p \<mapsto> ?s1, c \<mapsto> junk)\<rparr>"
  have pc: "p < c" "0 < p" "d < c"
    using heap_ok_bound(1) [OF ok s] heap_ok_bound(1) [OF ok d(1)] by (simp_all add: c_def)
  have ok1: "heap_ok ?h1"
    using ok pc heap_ok_bound(5) [OF ok r] heap_ok_bound(6) [OF ok t] by (auto simp: heap_ok_def c_def)
  have tq1: "two_queues ?h1 (syn_queue s) n ((a, d) # cs) (accept_queue s) m ds"
    using tq by (simp add: two_queues_def q_rep_def)
  obtain h2 where rem: "sockqueue_remove (syn_queue s) c 0 ?h1 = Inr (0, h2)" and ok2: "heap_ok h2"
    and tq2: "two_queues h2 (syn_queue s) n [] (accept_queue s) m ds"
    and h2: "h2 = ?h1\<lparr>nodes := nodes h2, queues := queues h2, socks := (socks ?h1)(c \<mapsto> v)\<rparr>"
    using two_queues_remove_head [OF ok1 tq1 n(1), of v c junk] d pc by auto
  let ?h3 = "h2\<lparr>socks := (socks h2)(c \<mapsto> v\<lparr>state := ESTABLISHED\<rparr>)\<rparr>"
  have f2: "socks h2 = (socks h)(p \<mapsto> ?s1, c \<mapsto> v)" "rwnds h2 = rwnds ?h1" "timers h2 = timers ?h1"
    "threads h2 = ths" "clock h2 = cl" "next_tid h2 = next_tid h" "wire h2 = wire h" "next_ptr h2 = c + 1"
    "host_frame h h2"
    by (subst h2, simp add: host_frame_def)+
  have ok3: "heap_ok ?h3"
    by (rule heap_ok_updates(1) [OF ok2, of c v]) (simp add: f2)
  have tq3: "two_queues ?h3 (accept_queue s) m ds (syn_queue s) n []"
    using two_queues_sym [OF tq2] by (simp add: two_queues_def q_rep_def)
  obtain h4 k where push: "sockqueue_push (accept_queue s) c ?h3 = Inr (k, h4)" and ok4: "heap_ok h4"
    and tq4: "two_queues h4 (accept_queue s) (m + 1) (ds @ [(c + 1, c)]) (syn_queue s) n []"
    and h4: "h4 = ?h3\<lparr>nodes := nodes h4, queues := queues h4, next_ptr := c + 1 + 1\<rparr>"
    using two_queues_push [OF ok3 tq3 n(2), of c] by (auto simp: f2)
  have f4: "socks h4 = socks ?h3" "rwnds h4 = rwnds ?h1" "timers h4 = timers ?h1"
    "threads h4 = ths" "clock h4 = cl" "next_tid h4 = next_tid h" "wire h4 = wire h" "host_frame h h4"
    using f2(9) by (subst h4, simp add: f2 host_frame_def)+
  have "server_ack junk p pkt hv h = Inr (0, h4)"
    using s r pc stop saved rem push
    by (simp add: server_ack_def malloc_sock_def malloc_def update_sock_def tcp_update_expected_seq_eq
        c_def [symmetric] f2 Let_def fun_upd_twist)
  then show ?thesis
    using ok4 tq4 t' cl f4(8) by (auto simp: f4 f2(1) two_queues_def pc fun_upd_twist)
qed

lemma client_syn_ack_effect:
  assumes s: "socks h p = Some s" "state s = SYN_SENT" and w: "swnds h (wnd_send s) = Some w"
    and r: "rwnds h (wnd_recv s) = Some r" and t: "timers h (rtt_timer s) = Some t"
    and run: "timer_idle h t \<or> timer_running h p t th" and name: "name_of h \<noteq> OtherHost"
    and fl: "get_flags pkt = SYN OR ACK"
  shows "\<exists>i t' h'. tcp_rcv_state_client p pkt a h = Inr (0, h')
    \<and> socks h' = (socks h)(p \<mapsto> s\<lparr>interrupt_signal := i, state := ESTABLISHED\<rparr>)
    \<and> swnds h' = (swnds h)(wnd_send s \<mapsto> w\<lparr>rwnd := get_advertised_window pkt\<rparr>)
    \<and> rwnds h' = (rwnds h)(wnd_recv s \<mapsto> r\<lparr>expect_seq := expected_after pkt\<rparr>)
    \<and> timers h' = (timers h)(rtt_timer s \<mapsto> t') \<and> started t' = 0
    \<and> (timer_running h p t th \<longrightarrow> t' = (updated t)\<lparr>started := 0\<rparr> \<and> threads h' = (threads h)(timer_thread t := None))
    \<and> h' = h\<lparr>socks := socks h', swnds := swnds h', rwnds := rwnds h', timers := timers h',
            threads := threads h', clock := clock h', wire := wire h'\<rparr>
    \<and> wire h' = wire h @ [segment (port (established_local_addr s)) (port a) (get_seq pkt + 1)
          (get_seq pkt + 1) ACK (to_u16 (100 - received_len s)) []]"
proof -
  let ?h = "h\<lparr>swnds := (swnds h)(wnd_send s \<mapsto> w\<lparr>rwnd := get_advertised_window pkt\<rparr>)\<rparr>"
  have same: "timer_idle ?h t = timer_idle h t" "timer_running ?h p t th = timer_running h p t th"
    by (simp_all add: timer_idle_def timer_running_def)
  then obtain i t' ths c where stop: "tcp_stop_timer p ?h = Inr (?h\<lparr>timers := (timers h)(rtt_timer s \<mapsto> t'),
      socks := (socks h)(p \<mapsto> s\<lparr>interrupt_signal := i\<rparr>), threads := ths, clock := c\<rparr>)" and "started t' = 0"
    "timer_running h p t th \<longrightarrow> t' = (updated t)\<lparr>started := 0\<rparr> \<and> ths = (threads h)(timer_thread t := None)"
    using tcp_stop_timer_ok [of ?h p s t th] s t run unfolding same by auto
  then show ?thesis
    using s w r fl name
    by (intro exI [of _ i] exI [of _ t']) (simp add: tcp_rcv_state_client_def tcp_update_expected_seq_eq create_control to_u16_def [of 22]
        sendToLayer3_control update_sock_def Let_def)
qed

end
