(* ===== verification/Data_Transfer.thy ===== *)
theory Data_Transfer
  imports Handshake
begin

text \<open>
  Data transfer: \<open>tju_handle_packet\<close> and \<open>back_only_header\<close> of \<open>src/kernel.c\<close>, the sending
  thread \<open>tcp_send_stream\<close> and the flow-control functions of \<open>src/tju_tcp.c\<close>, and
  \<open>tcp_send\<close> and \<open>tcp_recv\<close> of \<open>src/api.c\<close>. A buffer is a block of the host's heap; a
  \<open>memcpy\<close> reads and writes whole ranges of it and is undefined outside it, and between
  overlapping ranges. The locks are flags of the socket: a call that finds a lock taken
  by a call that has returned waits for ever.
\<close>

section \<open>Locks and buffers\<close>

definition lock_send :: "ptr \<Rightarrow> host \<Rightarrow> host outcome" where
  "lock_send p h = bindE (sock_at h p) (\<lambda>s.
     if send_lock s then Inl Blocked else Inr (set_sock p (s\<lparr>send_lock := True\<rparr>) h))"

definition unlock_send :: "ptr \<Rightarrow> host \<Rightarrow> host outcome" where
  "unlock_send p = update_sock p (\<lambda>s. s\<lparr>send_lock := False\<rparr>)"

definition lock_recv :: "ptr \<Rightarrow> host \<Rightarrow> host outcome" where
  "lock_recv p h = bindE (sock_at h p) (\<lambda>s.
     if recv_lock s then Inl Blocked else Inr (set_sock p (s\<lparr>recv_lock := True\<rparr>) h))"

definition unlock_recv :: "ptr \<Rightarrow> host \<Rightarrow> host outcome" where
  "unlock_recv p = update_sock p (\<lambda>s. s\<lparr>recv_lock := False\<rparr>)"

text \<open>\<open>memcpy(q + off, bs, n)\<close> and reading \<open>n\<close> bytes at \<open>q + off\<close>; a negative count is a
  huge \<open>size_t\<close>.\<close>

definition block_read :: "ptr \<Rightarrow> int \<Rightarrow> int \<Rightarrow> host \<Rightarrow> bytes outcome" where
  "block_read q off n h = bindE (derefE (blocks h q)) (\<lambda>b.
     bindE (requireE (0 \<le> off \<and> 0 \<le> n) (Undefined OutOfBounds)) (\<lambda>_. mem_read b (nat off) (nat n)))"

definition block_write :: "ptr \<Rightarrow> int \<Rightarrow> bytes \<Rightarrow> host \<Rightarrow> host outcome" where
  "block_write q off bs h = bindE (derefE (blocks h q)) (\<lambda>b.
     bindE (requireE (0 \<le> off) (Undefined OutOfBounds)) (\<lambda>_.
     bindE (mem_write b (nat off) bs) (\<lambda>b'. Inr (set_block q b' h))))"

text \<open>\<open>memcpy(q, q + off, n)\<close> inside one block.\<close>

definition block_shift :: "ptr \<Rightarrow> int \<Rightarrow> int \<Rightarrow> host \<Rightarrow> host outcome" where
  "block_shift q off n h = bindE (block_read q off n h) (\<lambda>bs.
     bindE (requireE (n \<le> off) (Undefined Overlap)) (\<lambda>_. block_write q 0 bs h))"

text \<open>
  \<open>realloc(q, n)\<close>: the block moves to a new address and keeps its first \<open>n\<close> bytes; the
  bytes behind the old content are not initialised (the callers overwrite them). The GNU
  library frees the block and returns \<open>NULL\<close> for \<open>n = 0\<close>.
\<close>

definition realloc :: "ptr \<Rightarrow> nat \<Rightarrow> host \<Rightarrow> (ptr \<times> host) outcome" where
  "realloc q n h = bindE (derefE (blocks h q)) (\<lambda>b.
     let h = h\<lparr>blocks := (blocks h)(q := None)\<rparr>
     in Inr (if n = 0 then (NULL, h)
             else malloc (\<lambda>a. set_block a (take n b @ replicate (n - length b) 0)) h))"

section \<open>Receiving\<close>

definition back_only_header :: "ptr \<Rightarrow> host \<Rightarrow> host outcome" where
  "back_only_header p h =
     bindE (sock_at h p) (\<lambda>s. bindE (swnd_at h s) (\<lambda>w.
       let adv_wnd = to_u16 (TCP_RECV_BUFFER_SIZE - received_len s);
           plen = to_u16 DEFAULT_HEADER_LEN; seq = nextseq w
       in bindE (create_packet_buf (port (established_local_addr s)) (port (established_remote_addr s))
                   seq 0 (to_u16 DEFAULT_HEADER_LEN) plen BACKHEAD adv_wnd 0 [] 0)
            (\<lambda>msg. sendToLayer3 msg (uint plen) h)))"

text \<open>The end of \<open>tju_handle_packet\<close>: append the data to the receive buffer.\<close>

definition store_data :: "ptr \<Rightarrow> bytes \<Rightarrow> host \<Rightarrow> (int \<times> host) outcome" where
  "store_data p pkt h =
     (let data_len = to_u32 (uint (get_plen pkt) - DEFAULT_HEADER_LEN)
      in bindE (lock_recv p h) (\<lambda>h.
         bindE (sock_at h p) (\<lambda>s.
         bindE (if received_buf s = NULL
                then Inr (malloc (\<lambda>a. set_block a (replicate (unat data_len) 0)) h)
                else realloc (received_buf s) (unat (to_u32 (received_len s) + data_len)) h) (\<lambda>(q, h).
         bindE (update_sock p (\<lambda>s. s\<lparr>received_buf := q\<rparr>) h) (\<lambda>h.
         bindE (mem_read pkt 22 (unat data_len)) (\<lambda>dat.
         bindE (if dat = [] then Inr h else block_write q (received_len s) dat h) (\<lambda>h.
         bindE (update_sock p (\<lambda>s. s\<lparr>received_len := sint (to_u32 (received_len s) + data_len)\<rparr>) h) (\<lambda>h.
         bindE (unlock_recv p h) (\<lambda>h. Inr (0, h))))))))))"

text \<open>The sender's part: an \<open>ACK\<close> moves \<open>base\<close> to its sequence number.\<close>

definition receive_ack :: "ptr \<Rightarrow> bytes \<Rightarrow> host \<Rightarrow> host outcome" where
  "receive_ack p pkt h =
     bindE (sock_at h p) (\<lambda>s.
     bindE (handle_success_ack s) (\<lambda>s.
       let h = set_sock p s h
       in bindE (swnd_at h s) (\<lambda>w.
            let h = set_swnd (wnd_send s) (w\<lparr>base := get_seq pkt\<rparr>) h
            in if get_seq pkt = nextseq w then tcp_stop_timer p h else tcp_start_timer p h)))"

definition tju_handle_packet :: "ptr \<Rightarrow> bytes \<Rightarrow> host \<Rightarrow> (int \<times> host) outcome" where
  "tju_handle_packet p pkt h =
     (let flag = get_flags pkt; seq = get_seq pkt; adv_wnd = get_advertised_window pkt
      in bindE (sock_at h p) (\<lambda>s. bindE (swnd_at h s) (\<lambda>w.
           let h = set_swnd (wnd_send s) (w\<lparr>rwnd := adv_wnd\<rparr>) h
           in if flag = HEAD then bindE (back_only_header p h) (\<lambda>h. Inr (0, h))
              else if flag = BACKHEAD then Inr (0, h)
              else if flag = ACK then
                bindE (receive_ack p pkt h) (\<lambda>h.
                  if get_plen pkt < get_hlen pkt then Inl (Exit 0)
                  else if get_plen pkt = get_hlen pkt then Inr (0, h)
                  else store_data p pkt h)
              else
                bindE (rwnd_at h s) (\<lambda>r.
                  let expected_seq = expect_seq r
                  in if expected_seq < seq then Inr (0, h)
                     else if seq = expected_seq then
                       (let len = uint (get_plen pkt) - uint (get_hlen pkt);
                            h = set_rwnd (wnd_recv s) (r\<lparr>expect_seq := expected_seq + to_u32 len\<rparr>) h
                        in bindE (tcp_send_ack p h) (store_data p pkt))
                     else bindE (tcp_send_ack p h) (\<lambda>h. Inr (0, h))))))"

section \<open>The sending thread\<close>

text \<open>
  One round of \<open>tcp_send_stream\<close>. The whole sending buffer is taken, so the copy of what is
  left over never runs; the window comparison is unsigned.
\<close>

definition take_sending_buf :: "ptr \<Rightarrow> host \<Rightarrow> (bytes \<times> host) outcome" where
  "take_sending_buf p h =
     bindE (lock_send p h) (\<lambda>h. bindE (sock_at h p) (\<lambda>s.
       let len = sending_len s; left_size = sending_len s - len
       in bindE (block_read (sending_buf s) 0 len h) (\<lambda>buf.
          bindE (if 0 < left_size then block_shift (sending_buf s) len left_size h else Inr h) (\<lambda>h.
          bindE (update_sock p (\<lambda>s. s\<lparr>sending_len := sending_len s - len\<rparr>) h) (\<lambda>h.
          bindE (unlock_send p h) (\<lambda>h. Inr (buf, h)))))))"

definition send_segment :: "ptr \<Rightarrow> bytes \<Rightarrow> host \<Rightarrow> host outcome" where
  "send_segment p buf h =
     bindE (sock_at h p) (\<lambda>s. bindE (swnd_at h s) (\<lambda>w.
       let len = int (length buf); plen = to_u16 (DEFAULT_HEADER_LEN + len);
           seq = nextseq w; base' = base w
       in if seq < base' + ucast (window_size w) then
            (let adv_wnd = to_u16 (TCP_RECV_BUFFER_SIZE - received_len s)
             in bindE (block_write (send_windows w) (uint (nextseq w)) buf h) (\<lambda>h.
                bindE (create_packet_buf (port (established_local_addr s)) (port (established_remote_addr s))
                         seq 0 (to_u16 DEFAULT_HEADER_LEN) plen NO_FLAG adv_wnd 0 buf len) (\<lambda>msg.
                bindE (sendToLayer3 msg (uint plen) h) (\<lambda>h.
                bindE (if seq = base' then tcp_start_timer p h else Inr h) (\<lambda>h.
                bindE (swnd_at h s) (\<lambda>w.
                  Inr (set_swnd (wnd_send s) (w\<lparr>nextseq := nextseq w + to_u32 len\<rparr>) h)))))))
          else Inr (sleep 1 h)))"

definition tcp_send_stream_round :: "ptr \<Rightarrow> host \<Rightarrow> host outcome" where
  "tcp_send_stream_round p h =
     bindE (sock_at h p) (\<lambda>s.
     bindE (if 0 < sending_len s
            then bindE (take_sending_buf p h) (\<lambda>(buf, h). send_segment p buf h)
            else Inr (sleep 1 h)) (\<lambda>h. Inr (sleep 1 h)))"

section \<open>Calls of the application\<close>

text \<open>\<open>buffer\<close> is the memory the caller passes. A refused call returns with the lock held.\<close>

definition tcp_send :: "ptr \<Rightarrow> bytes \<Rightarrow> int \<Rightarrow> host \<Rightarrow> (int \<times> host) outcome" where
  "tcp_send p buffer len h =
     bindE (requireE (0 \<le> len) (Undefined OutOfBounds)) (\<lambda>_.
     bindE (mem_read buffer 0 (nat len)) (\<lambda>dat.
     bindE (lock_send p h) (\<lambda>h.
     bindE (sock_at h p) (\<lambda>s.
     bindE (requireE (sending_len s + len < 2 ^ 31) (Undefined BadConversion)) (\<lambda>_.
       if sending_len s + len \<le> sending_capacity s then
         bindE (block_write (sending_buf s) (sending_len s) dat h) (\<lambda>h.
         bindE (update_sock p (\<lambda>s. s\<lparr>sending_len := sending_len s + len\<rparr>) h) (\<lambda>h.
         bindE (unlock_send p h) (\<lambda>h. Inr (0, h))))
       else Inr (-1, h))))))"

text \<open>
  The bytes written to the caller's buffer are part of the result. With an empty receive
  buffer the call polls until another thread has stored data: it cannot return by itself.
\<close>

definition tcp_recv :: "ptr \<Rightarrow> int \<Rightarrow> host \<Rightarrow> (int \<times> bytes \<times> host) outcome" where
  "tcp_recv p len h =
     bindE (sock_at h p) (\<lambda>s.
     bindE (requireE (0 < received_len s) Blocked) (\<lambda>_.
     bindE (lock_recv p h) (\<lambda>h.
       let read_len = (if len \<le> received_len s then len else received_len s)
       in bindE (block_read (received_buf s) 0 read_len h) (\<lambda>dat.
          bindE (if read_len < received_len s
                 then bindE (block_shift (received_buf s) read_len (received_len s - read_len) h)
                        (update_sock p (\<lambda>s. s\<lparr>received_len := received_len s - read_len\<rparr>))
                 else update_sock p (\<lambda>s. s\<lparr>received_len := 0\<rparr>) h) (\<lambda>h.
          bindE (unlock_recv p h) (\<lambda>h. Inr (0, dat, h)))))))"

section \<open>Flow control\<close>

definition send_only_header :: "ptr \<Rightarrow> host \<Rightarrow> host outcome" where
  "send_only_header p h =
     bindE (sock_at h p) (\<lambda>s. bindE (swnd_at h s) (\<lambda>w.
       let adv_wnd = to_u16 (TCP_RECV_BUFFER_SIZE - received_len s);
           plen = to_u16 DEFAULT_HEADER_LEN; seq = nextseq w
       in bindE (create_packet_buf (port (established_local_addr s)) (port (established_remote_addr s))
                   seq 0 (to_u16 DEFAULT_HEADER_LEN) plen HEAD adv_wnd 0 [] 0)
            (\<lambda>msg. sendToLayer3 msg (uint plen) h)))"

text \<open>The window values become \<open>float\<close>; the thresholds are the \<open>double\<close> 0.1 and 0.25.\<close>

definition improve_send_wnd :: "ptr \<Rightarrow> host \<Rightarrow> (int \<times> host) outcome" where
  "improve_send_wnd p h =
     bindE (sock_at h p) (\<lambda>s. bindE (swnd_at h s) (\<lambda>w.
       let rw = f_of_int (uint (rwnd w));
           data_on_way = f_sub (f_of_int (uint (nextseq w))) (f_of_int (uint (base w)))
       in if rw < 1 / 10 \<or> f_div (f_sub rw data_on_way) rw < 1 / 4
          then bindE (send_only_header p h) (\<lambda>h. Inr (0, h))
          else Inr (1, h)))"

definition keep_alive :: "ptr \<Rightarrow> host \<Rightarrow> host outcome" where
  "keep_alive p h =
     bindE (sock_at h p) (\<lambda>s. bindE (swnd_at h s) (\<lambda>w.
       let seq = nextseq w; plen = HEADER_LEN
       in bindE (create_packet_buf (port (established_local_addr s)) (port (established_remote_addr s))
                   seq 0 (to_u16 DEFAULT_HEADER_LEN) (to_u16 plen) NO_FLAG 1 0 [] 0)
            (\<lambda>msg. sendToLayer3 msg plen h)))"

text \<open>It takes \<open>send_lock\<close> and releases \<open>recv_lock\<close>.\<close>

definition load_data_to_sending_buffer :: "ptr \<Rightarrow> bytes \<Rightarrow> int \<Rightarrow> host \<Rightarrow> host outcome" where
  "load_data_to_sending_buffer p buffer len h =
     bindE (lock_send p h) (\<lambda>h. bindE (sock_at h p) (\<lambda>s.
       if TCP_RECVWN_SIZE < sending_len s + len then Inl (Exit (-1))
       else bindE (requireE (0 \<le> len) (Undefined OutOfBounds)) (\<lambda>_.
            bindE (mem_read buffer 0 (nat len)) (\<lambda>dat.
            bindE (block_write (sending_buf s) (sending_len s) dat h) (\<lambda>h.
            bindE (update_sock p (\<lambda>s. s\<lparr>sending_len := sending_len s + len\<rparr>) h) (unlock_recv p))))))"

fun send_full_packets :: "ptr \<Rightarrow> nat \<Rightarrow> nat \<Rightarrow> int \<Rightarrow> host \<Rightarrow> host outcome" where
  "send_full_packets p i 0 left_data_len h = Inr h"
| "send_full_packets p i (Suc k) left_data_len h =
     bindE (sock_at h p) (\<lambda>s.
     bindE (block_read (sending_buf s) (int i * MAX_DLEN) MAX_DLEN h) (\<lambda>send_data.
       let plen = to_u16 (DEFAULT_HEADER_LEN + MAX_DLEN);
           fl = (if k = 0 \<and> left_data_len = 0 then PSH else NO_FLAG)
       in bindE (create_packet_buf (port (established_local_addr s)) (port (established_remote_addr s))
                   0 0 (to_u16 DEFAULT_HEADER_LEN) plen fl 2000 0 send_data MAX_DLEN) (\<lambda>msg.
          bindE (sendToLayer3 msg (uint plen) h) (send_full_packets p (i + 1) k left_data_len))))"

definition sending_buffer_to_layer3 :: "ptr \<Rightarrow> int \<Rightarrow> int \<Rightarrow> host \<Rightarrow> host outcome" where
  "sending_buffer_to_layer3 p len push_bit_flag h =
     (let full_pkt_nums = len sdiv MAX_DLEN; left_data_len = len smod MAX_DLEN
      in bindE (send_full_packets p 0 (nat full_pkt_nums) left_data_len h) (\<lambda>h.
         bindE (sock_at h p) (\<lambda>s.
         bindE (if left_data_len \<noteq> 0 then
                  bindE (block_read (sending_buf s) (full_pkt_nums * MAX_DLEN) left_data_len h) (\<lambda>send_data.
                    let plen = to_u16 (DEFAULT_HEADER_LEN + left_data_len)
                    in bindE (create_packet_buf (port (established_local_addr s))
                                (port (established_remote_addr s)) 0 0 (to_u16 DEFAULT_HEADER_LEN) plen PSH
                                2000 0 send_data left_data_len) (\<lambda>msg. sendToLayer3 msg (uint plen) h))
                else Inr h) (\<lambda>h.
         bindE (lock_send p h) (\<lambda>h.
         bindE (block_shift (sending_buf s) len (sending_len s - len) h) (\<lambda>h.
         bindE (update_sock p (\<lambda>s. s\<lparr>sending_len := sending_len s - len\<rparr>) h) (unlock_recv p)))))))"

section \<open>The receive buffer\<close>

text \<open>\<open>rcv_rep h s c\<close>: the receive buffer of socket \<open>s\<close> holds the bytes \<open>c\<close>.\<close>

definition rcv_rep :: "host \<Rightarrow> tju_tcp_t \<Rightarrow> bytes \<Rightarrow> bool" where
  "rcv_rep h s c \<longleftrightarrow> received_len s = int (length c) \<and>
     (if received_buf s = NULL then c = []
      else \<exists>b. blocks h (received_buf s) = Some b \<and> length c \<le> length b \<and> take (length c) b = c)"

lemma u32_sum:
  assumes "n + k < 2 ^ 31"
  shows "unat (to_u32 (int n) + of_nat k) = n + k" "sint (to_u32 (int n) + of_nat k) = int (n + k)"
proof -
  have eq: "to_u32 (int n) + of_nat k = of_nat (n + k)"
    by (simp add: to_u32_def)
  show u: "unat (to_u32 (int n) + of_nat k) = n + k"
    using assms unfolding eq unat_of_nat by simp
  show "sint (to_u32 (int n) + of_nat k) = int (n + k)"
    using sint_small [of "to_u32 (int n) + of_nat k"] assms u by simp
qed

lemma data_len_segment:
  assumes "22 + length dat < 65536"
  shows "to_u32 (uint (get_plen (segment src dst seq ack fl adv dat)) - 22) = of_nat (length dat)"
proof -
  have "uint (get_plen (segment src dst seq ack fl adv dat)) = 22 + int (length dat)"
    using uint_seg_len [of "length dat"] assms by (simp add: get_plen_segment add.commute del: of_nat_add)
  then show ?thesis
    by (simp add: to_u32_def)
qed

lemma realloc_grow:
  assumes ok: "heap_ok h" and b: "blocks h q = Some b" "take n b = c" "n = length c" and d: "0 < n + d"
  shows "\<exists>rest. length rest = d \<and> realloc q (n + d) h = Inr (next_ptr h,
    h\<lparr>blocks := (blocks h)(q := None, next_ptr h \<mapsto> c @ rest), next_ptr := next_ptr h + 1\<rparr>)"
proof -
  define b' where "b' = take (n + d) b @ replicate (n + d - length b) 0"
  have "n \<le> length b"
    using b(2,3) by (metis length_take min.absorb_iff2 min.commute)
  then have t: "take n b' = c" and l: "length b' = n + d"
    using b(2) by (simp_all add: b'_def)
  obtain rest where rest: "b' = c @ rest" "length rest = d"
    using t l append_take_drop_id [of n b'] by (metis add_diff_cancel_left' length_drop)
  have "realloc q (n + d) h = Inr (next_ptr h,
      h\<lparr>blocks := (blocks h)(q := None, next_ptr h \<mapsto> b'), next_ptr := next_ptr h + 1\<rparr>)"
    using b(1) d by (auto simp: realloc_def malloc_def Let_def b'_def)
  then show ?thesis
    using rest by blast
qed

lemma store_data_effect:
  assumes ok: "heap_ok h" and s: "socks h p = Some s" "\<not> recv_lock s" and rep: "rcv_rep h s c"
    and len: "22 + length dat < 65536" "length c + length dat < 2 ^ 31"
    and pkt: "pkt = segment src dst seq ack fl adv dat"
  shows "\<exists>h' q. store_data p pkt h = Inr (0, h') \<and> heap_ok h'
    \<and> h' = h\<lparr>socks := (socks h)(p \<mapsto> s\<lparr>received_buf := q,
               received_len := int (length c + length dat), recv_lock := False\<rparr>), blocks := blocks h', next_ptr := next_ptr h'\<rparr>
    \<and> rcv_rep h' (s\<lparr>received_buf := q, received_len := int (length c + length dat), recv_lock := False\<rparr>) (c @ dat)
    \<and> (\<forall>a. a \<noteq> received_buf s \<and> a < next_ptr h \<longrightarrow> blocks h' a = blocks h a)"
proof -
  have n: "received_len s = int (length c)"
    using rep by (simp add: rcv_rep_def)
  have ulen: "unat (of_nat (length dat) :: u32) = length dat"
    using len(1) by (simp add: unat_of_nat)
  have read: "mem_read pkt 22 (length dat) = Inr dat"
    using len(1) by (simp add: pkt mem_read_def)
  let ?h1 = "h\<lparr>socks := (socks h)(p \<mapsto> s\<lparr>recv_lock := True\<rparr>)\<rparr>"
  let ?s' = "\<lambda>q. s\<lparr>received_buf := q, received_len := int (length c + length dat), recv_lock := False\<rparr>"
  have ok1: "heap_ok ?h1"
    using ok s(1) by (rule heap_ok_updates)
  note common = store_data_def lock_recv_def unlock_recv_def update_sock_def pkt data_len_segment [OF len(1)]
    ulen n u32_sum [OF len(2)] Let_def
  note okb = heap_ok_bound(1) [OF ok s(1)]
  consider (null) "received_buf s = NULL" "c = []" | (empty) "received_buf s \<noteq> NULL" "c = []" "dat = []"
    | (grow) "received_buf s \<noteq> NULL" "0 < length c + length dat"
    using rep by (cases "received_buf s = NULL"; cases "c = []"; cases "dat = []") (auto simp: rcv_rep_def)
  then show ?thesis
  proof cases
    case null
    let ?h' = "h\<lparr>socks := (socks h)(p \<mapsto> ?s' (next_ptr h)), blocks := (blocks h)(next_ptr h \<mapsto> dat),
      next_ptr := next_ptr h + 1\<rparr>"
    have "store_data p pkt h = Inr (0, ?h')"
      using s null read [unfolded pkt] u32_sum [of 0 "length dat"] len(2)
      by (auto simp: common malloc_def block_write_def mem_write_def)
    moreover have "heap_ok ?h'"
      using ok okb by (auto simp: heap_ok_def)
    ultimately show ?thesis
      using heap_ok_fresh(5) [OF ok] null by (intro exI [of _ ?h'] exI [of _ "next_ptr h"]) (simp add: rcv_rep_def)
  next
    case empty
    let ?h' = "h\<lparr>socks := (socks h)(p \<mapsto> ?s' NULL), blocks := (blocks h)(received_buf s := None)\<rparr>"
    obtain b where b: "blocks h (received_buf s) = Some b"
      using rep empty by (auto simp: rcv_rep_def)
    then have "store_data p pkt h = Inr (0, ?h')"
      using s empty read [unfolded pkt] u32_sum [of 0 0]
      by (simp add: common realloc_def data_len_segment [of "[]", simplified])
    moreover have "heap_ok ?h'"
      using ok okb by (auto simp: heap_ok_def)
    ultimately show ?thesis
      using empty by (intro exI [of _ ?h'] exI [of _ NULL]) (simp add: rcv_rep_def)
  next
    case grow
    obtain b where b: "blocks h (received_buf s) = Some b" "take (length c) b = c"
      using rep grow by (auto simp: rcv_rep_def)
    let ?a = "next_ptr h"
    let ?h' = "h\<lparr>socks := (socks h)(p \<mapsto> ?s' ?a),
      blocks := (blocks h)(received_buf s := None, ?a \<mapsto> c @ dat), next_ptr := ?a + 1\<rparr>"
    obtain rest where rest: "length rest = length dat"
      and re: "realloc (received_buf s) (length c + length dat) ?h1 = Inr (?a,
        ?h1\<lparr>blocks := (blocks h)(received_buf s := None, ?a \<mapsto> c @ rest), next_ptr := ?a + 1\<rparr>)"
      using realloc_grow [OF ok1, of "received_buf s" b "length c" c "length dat"] b grow(2) by auto
    have "store_data p pkt h = Inr (0, ?h')"
      using s grow(1) read [unfolded pkt] re rest
        u32_sum [of "length c" 0] len(2)
      by (cases "dat = []")
        (simp_all add: common data_len_segment [of "[]", simplified] block_write_def mem_write_def)
    moreover have "heap_ok ?h'"
      using ok okb by (auto simp: heap_ok_def)
    ultimately show ?thesis
      using heap_ok_fresh(5) [OF ok] by (intro exI [of _ ?h'] exI [of _ ?a]) (simp add: rcv_rep_def)
  qed
qed

section \<open>The receiver as a Go-Back-N receiver\<close>

text \<open>
  The abstract receiver keeps the next expected sequence number and the bytes received. It
  takes a segment only in order, and answers with the number it expects next; a segment
  from the future is dropped without an answer.
\<close>

fun gbn_receive :: "u32 \<Rightarrow> bytes \<Rightarrow> u32 \<times> bytes \<Rightarrow> (u32 \<times> bytes) \<times> u32 option" where
  "gbn_receive seq dat (e, c) =
     (if seq = e then ((e + of_nat (length dat), c @ dat), Some (e + of_nat (length dat)))
      else if seq < e then ((e, c), Some e)
      else ((e, c), None))"

definition rcv_state :: "host \<Rightarrow> ptr \<Rightarrow> u32 \<times> bytes \<Rightarrow> bool" where
  "rcv_state h p ec \<longleftrightarrow> (\<exists>s r. socks h p = Some s \<and> \<not> recv_lock s \<and> rwnds h (wnd_recv s) = Some r
     \<and> expect_seq r = fst ec \<and> rcv_rep h s (snd ec))"

text \<open>What handling a data segment leaves unchanged: everything but the receive buffer, the
  receive window, the remembered window of the peer, and the wire.\<close>

definition rcv_frame :: "ptr \<Rightarrow> tju_tcp_t \<Rightarrow> host \<Rightarrow> host \<Rightarrow> bool" where
  "rcv_frame p s h h' \<longleftrightarrow>
     (\<exists>s'. socks h' = (socks h)(p \<mapsto> s') \<and> s' = s\<lparr>received_buf := received_buf s',
        received_len := received_len s', recv_lock := False\<rparr>)
     \<and> h' = h\<lparr>socks := socks h', swnds := swnds h', rwnds := rwnds h', blocks := blocks h',
             next_ptr := next_ptr h', wire := wire h'\<rparr>
     \<and> (\<forall>a. a \<noteq> received_buf s \<and> a < next_ptr h \<longrightarrow> blocks h' a = blocks h a)
     \<and> (\<exists>w w'. swnds h (wnd_send s) = Some w \<and> swnds h' = (swnds h)(wnd_send s \<mapsto> w')
           \<and> w' = w\<lparr>rwnd := rwnd w'\<rparr>)
     \<and> (\<forall>q. q \<noteq> wnd_recv s \<longrightarrow> rwnds h' q = rwnds h q)"

definition data_flag :: "u8 \<Rightarrow> bool" where
  "data_flag fl \<longleftrightarrow> fl \<noteq> HEAD \<and> fl \<noteq> BACKHEAD \<and> fl \<noteq> ACK"

lemma segment_len_diff:
  "22 + length dat < 65536 \<Longrightarrow>
     to_u32 (uint (get_plen (segment src dst seq ack fl adv dat)) - uint (get_hlen (segment src dst seq ack fl adv dat)))
     = of_nat (length dat)"
  using data_len_segment [of dat src dst seq ack fl adv] by simp

lemma rcv_rep_cong: "blocks h' = blocks h \<Longrightarrow> rcv_rep h' s c = rcv_rep h s c"
  by (simp add: rcv_rep_def)

lemma handle_data_effect:
  assumes ok: "heap_ok h" and s: "socks h p = Some s" "\<not> recv_lock s" and w: "swnds h (wnd_send s) = Some w"
    and r: "rwnds h (wnd_recv s) = Some r" and rep: "rcv_rep h s c" and fl: "data_flag fl"
    and len: "22 + length dat < 65536" "length c + length dat < 2 ^ 31" and name: "name_of h \<noteq> OtherHost"
    and pkt: "pkt = segment src dst seq ack fl adv dat"
    and spec: "gbn_receive seq dat (expect_seq r, c) = ((e', c'), reply)"
  shows "\<exists>h'. tju_handle_packet p pkt h = Inr (0, h') \<and> heap_ok h' \<and> rcv_state h' p (e', c')
    \<and> rcv_frame p s h h'
    \<and> wire h' = wire h @ (case reply of None \<Rightarrow> []
        | Some a \<Rightarrow> [control s a ACK (to_u16 (TCP_RECV_BUFFER_SIZE - received_len s))])"
proof -
  let ?w = "w\<lparr>rwnd := adv\<rparr>"
  let ?h1 = "h\<lparr>swnds := (swnds h)(wnd_send s \<mapsto> ?w)\<rparr>"
  have ok1: "heap_ok ?h1"
    using ok w by (rule heap_ok_updates)
  have flag: "get_flags pkt \<noteq> 64" "get_flags pkt \<noteq> 128" "get_flags pkt \<noteq> 16"
    using fl by (simp_all add: data_flag_def pkt)
  have hd: "get_seq pkt = seq" "get_advertised_window pkt = adv"
    by (simp_all add: pkt)
  have wok: "heap_ok (?h1\<lparr>wire := ws\<rparr>)" for ws
    using ok1 by (rule heap_ok_updates)
  have fr: "rcv_frame p s h (?h1\<lparr>wire := ws\<rparr>)" for ws
    using s w by (auto simp: rcv_frame_def fun_upd_idem intro!: exI [of _ s])
  show ?thesis
  proof (cases "seq = expect_seq r")
    case True
    let ?r = "r\<lparr>expect_seq := seq + of_nat (length dat)\<rparr>"
    let ?a = "control s (seq + of_nat (length dat)) ACK (to_u16 (TCP_RECV_BUFFER_SIZE - received_len s))"
    let ?h2 = "?h1\<lparr>rwnds := (rwnds h)(wnd_recv s \<mapsto> ?r), wire := wire h @ [?a]\<rparr>"
    have ok2: "heap_ok ?h2"
      using heap_ok_updates(3) [OF ok1, of "wnd_recv s" r ?r] r heap_ok_updates(5) by fastforce
    have rep2: "rcv_rep ?h2 s c" and s2: "socks ?h2 p = Some s"
      using rep s by (simp_all add: rcv_rep_def)
    obtain h3 q where st: "store_data p pkt ?h2 = Inr (0, h3)" and ok3: "heap_ok h3"
      and h3: "h3 = ?h2\<lparr>socks := (socks ?h2)(p \<mapsto> s\<lparr>received_buf := q,
          received_len := int (length c + length dat), recv_lock := False\<rparr>),
          blocks := blocks h3, next_ptr := next_ptr h3\<rparr>"
      and rep3: "rcv_rep h3 (s\<lparr>received_buf := q, received_len := int (length c + length dat),
          recv_lock := False\<rparr>) (c @ dat)"
      and bl: "\<forall>a. a \<noteq> received_buf s \<and> a < next_ptr h \<longrightarrow> blocks h3 a = blocks h a"
      using store_data_effect [OF ok2 s2 s(2) rep2 len pkt] by auto
    have "tcp_send_ack p (?h1\<lparr>rwnds := (rwnds h)(wnd_recv s \<mapsto> ?r)\<rparr>) = Inr ?h2"
      using send_control_effect(4) [of "?h1\<lparr>rwnds := (rwnds h)(wnd_recv s \<mapsto> ?r)\<rparr>" p s ?r] s name by simp
    then have "tju_handle_packet p pkt h = Inr (0, h3)"
      using s w r flag True st segment_len_diff [OF len(1), of src dst seq ack fl adv, folded pkt]
      by (simp add: tju_handle_packet_def hd Let_def)
    moreover have f3: "socks h3 = (socks h)(p \<mapsto> s\<lparr>received_buf := q,
        received_len := int (length c + length dat), recv_lock := False\<rparr>)"
      "rwnds h3 = (rwnds h)(wnd_recv s \<mapsto> ?r)" "swnds h3 = swnds ?h1" "wire h3 = wire h @ [?a]"
      by (subst h3, simp)+
    moreover have "e' = seq + of_nat (length dat)" "c' = c @ dat" "reply = Some (seq + of_nat (length dat))"
      using spec True by auto
    moreover have "rcv_frame p s h h3"
      unfolding rcv_frame_def
    proof (intro conjI exI)
      show "socks h3 = (socks h)(p \<mapsto> s\<lparr>received_buf := q, received_len := int (length c + length dat), recv_lock := False\<rparr>)"
        by (fact f3)
      show "h3 = h\<lparr>socks := socks h3, swnds := swnds h3, rwnds := rwnds h3, blocks := blocks h3,
          next_ptr := next_ptr h3, wire := wire h3\<rparr>"
        by (subst h3) (simp add: f3)
      show "swnds h3 = (swnds h)(wnd_send s \<mapsto> ?w)"
        by (simp add: f3)
    qed (use bl w f3 in simp_all)
    ultimately show ?thesis
      using ok3 rep3 by (intro exI [of _ h3]) (simp add: rcv_state_def)
  next
    case False
    have st: "rcv_state (?h1\<lparr>wire := ws\<rparr>) p (expect_seq r, c)" for ws
      using s r rep by (simp add: rcv_state_def rcv_rep_def)
    have "tcp_send_ack p ?h1 = Inr (?h1\<lparr>wire := wire h
        @ [control s (expect_seq r) ACK (to_u16 (TCP_RECV_BUFFER_SIZE - received_len s))]\<rparr>)"
      using send_control_effect(4) [of ?h1 p s r] s r name by simp
    moreover define ws where "ws = wire h @ (if seq < expect_seq r
      then [control s (expect_seq r) ACK (to_u16 (TCP_RECV_BUFFER_SIZE - received_len s))] else [])"
    ultimately have "tju_handle_packet p pkt h = Inr (0, ?h1\<lparr>wire := ws\<rparr>)"
      using s w r flag False by (auto simp: tju_handle_packet_def hd Let_def)
    moreover have "e' = expect_seq r" "c' = c" "reply = (if seq < expect_seq r then Some (expect_seq r) else None)"
      using False spec by (auto split: if_splits)
    ultimately show ?thesis
      using st [of ws] wok [of ws] fr [of ws]
      by (intro exI [of _ "?h1\<lparr>wire := ws\<rparr>"]) (simp add: ws_def)
  qed
qed

section \<open>Properties\<close>

text \<open>
  C9: The receiving side refines a Go-Back-N receiver. For every segment that is not an
  acknowledgement, \<open>tju_handle_packet\<close> succeeds and changes the expected sequence number
  and the receive buffer as the abstract receiver does, and answers when it does.
\<close>

theorem tju_handle_packet_refines_gbn:
  assumes "heap_ok h" "socks h p = Some s" "\<not> recv_lock s" "swnds h (wnd_send s) = Some w"
    "rwnds h (wnd_recv s) = Some r" "rcv_rep h s c" "data_flag fl" "22 + length dat < 65536"
    "length c + length dat < 2 ^ 31" "name_of h \<noteq> OtherHost"
  shows "\<exists>h'. tju_handle_packet p (segment src dst seq ack fl adv dat) h = Inr (0, h')
    \<and> rcv_state h' p (fst (gbn_receive seq dat (expect_seq r, c)))
    \<and> wire h' = wire h @ (case snd (gbn_receive seq dat (expect_seq r, c)) of None \<Rightarrow> []
        | Some a \<Rightarrow> [control s a ACK (to_u16 (TCP_RECV_BUFFER_SIZE - received_len s))])"
proof -
  obtain e' c' reply where spec: "gbn_receive seq dat (expect_seq r, c) = ((e', c'), reply)"
    by (metis surj_pair)
  show ?thesis
    using handle_data_effect [OF assms refl spec, of src dst ack adv] unfolding spec by auto
qed

definition rcv_example :: host where
  "rcv_example = (blank_host Server)\<lparr>
     socks := [1 \<mapsto> blank_sock\<lparr>state := ESTABLISHED, wnd_send := 2, wnd_recv := 3, received_buf := 4,
       received_len := 2, sending_buf := 5, sending_capacity := 3\<rparr>],
     swnds := [2 \<mapsto> \<lparr>send_windows = NULL, window_size = 0, base = 0, nextseq = 0, rwnd = 0\<rparr>],
     rwnds := [3 \<mapsto> \<lparr>receiver_window = NULL, expect_seq = 2\<rparr>],
     blocks := [4 \<mapsto> [7, 8], 5 \<mapsto> [0, 0, 0]], next_ptr := 6\<rparr>"

lemma rcv_example_ok:
  "heap_ok rcv_example" "socks rcv_example 1 = Some (the (socks rcv_example 1))"
  "\<not> recv_lock (the (socks rcv_example 1))" "rcv_rep rcv_example (the (socks rcv_example 1)) [7, 8]"
  by (simp_all add: rcv_example_def heap_ok_def blank_host_def blank_sock_def rcv_rep_def)

lemma tju_handle_packet_refines_gbn_witness:
  "\<exists>h'. tju_handle_packet 1 (segment 5678 1234 2 0 NO_FLAG 100 [9]) rcv_example = Inr (0, h')
    \<and> rcv_state h' 1 (3, [7, 8, 9])"
proof -
  have "swnds rcv_example (wnd_send (the (socks rcv_example 1)))
      = Some \<lparr>send_windows = NULL, window_size = 0, base = 0, nextseq = 0, rwnd = 0\<rparr>"
    "rwnds rcv_example (wnd_recv (the (socks rcv_example 1))) = Some \<lparr>receiver_window = NULL, expect_seq = 2\<rparr>"
    "data_flag NO_FLAG" "22 + length [9 :: u8] < 65536" "length [7 :: u8, 8] + length [9 :: u8] < 2 ^ 31"
    "name_of rcv_example \<noteq> OtherHost"
    by (simp_all add: rcv_example_def blank_host_def data_flag_def)
  from tju_handle_packet_refines_gbn [OF rcv_example_ok(1,2,3) this(1,2) rcv_example_ok(4) this(3-6),
      of 5678 1234 2 0 100]
  show ?thesis
    by auto
qed

text \<open>
  C38: A send that does not fit the sending buffer blocks the socket for good. The call
  returns -1 and stores nothing, but it keeps the lock: every later \<open>tcp_send\<close> and every
  later round of the sending thread that has data waits for ever.
\<close>

theorem tcp_send_full_deadlocks:
  assumes s: "socks h p = Some s" "\<not> send_lock s" and len: "0 \<le> len" "nat len \<le> length buf"
    and full: "sending_capacity s < sending_len s + len" "sending_len s + len < 2 ^ 31"
  shows "\<exists>h'. tcp_send p buf len h = Inr (-1, h') \<and> socks h' = (socks h)(p \<mapsto> s\<lparr>send_lock := True\<rparr>)
    \<and> blocks h' = blocks h
    \<and> (\<forall>buf' n. 0 \<le> n \<and> nat n \<le> length buf' \<longrightarrow> tcp_send p buf' n h' = Inl Blocked)
    \<and> (0 < sending_len s \<longrightarrow> tcp_send_stream_round p h' = Inl Blocked)"
  using assms
  by (simp add: tcp_send_def mem_read_def lock_send_def tcp_send_stream_round_def take_sending_buf_def)

lemma tcp_send_full_deadlocks_witness:
  "\<exists>h'. tcp_send 1 [1, 2, 3, 4] 4 rcv_example = Inr (-1, h') \<and> tcp_send 1 [1] 1 h' = Inl Blocked"
proof -
  have "socks rcv_example 1 = Some (the (socks rcv_example 1))" "\<not> send_lock (the (socks rcv_example 1))"
    "(0 :: int) \<le> 4" "nat 4 \<le> length [1 :: u8, 2, 3, 4]"
    "sending_capacity (the (socks rcv_example 1)) < sending_len (the (socks rcv_example 1)) + 4"
    "sending_len (the (socks rcv_example 1)) + 4 < 2 ^ 31"
    by (simp_all add: rcv_example_def blank_sock_def)
  from tcp_send_full_deadlocks [OF this] show ?thesis
    by auto
qed

lemma host_blocks_same: "blocks h = B \<Longrightarrow> h\<lparr>socks := sk\<rparr> = h\<lparr>socks := sk, blocks := B\<rparr>"
  by (erule subst) simp

lemma tcp_recv_result:
  assumes s: "socks h p = Some s" "\<not> recv_lock s" and rep: "rcv_rep h s c" and c: "c \<noteq> []"
  shows "case tcp_recv p (int n) h of
      Inr (v, dat, h') \<Rightarrow> v = 0 \<and> dat = take n c \<and> length c \<le> 2 * n
        \<and> (\<exists>s' b. h' = h\<lparr>socks := (socks h)(p \<mapsto> s'), blocks := (blocks h)(received_buf s \<mapsto> b)\<rparr>
             \<and> s' = s\<lparr>received_len := int (length (drop n c)), recv_lock := False\<rparr>
             \<and> rcv_rep h' s' (drop n c))
    | Inl e \<Rightarrow> e = Undefined Overlap \<and> 2 * n < length c"
proof -
  obtain b where b: "blocks h (received_buf s) = Some b" "length c \<le> length b" "take (length c) b = c"
    and rl: "received_len s = int (length c)" and nn: "received_buf s \<noteq> NULL"
    using rep c by (auto simp: rcv_rep_def split: if_splits)
  note defs = tcp_recv_def lock_recv_def unlock_recv_def update_sock_def block_read_def block_shift_def
    block_write_def mem_read_def mem_write_def Let_def
  have pre: "take n b = take n c" if "n \<le> length c"
    using b(3) that by (metis min.absorb1 take_take)
  have mid: "take (length c - n) (drop n b) = drop n c"
    using b(3) by (metis drop_take)
  consider (all) "length c \<le> n" | (some) "n < length c" "length c \<le> 2 * n" | (overlap) "2 * n < length c"
    by linarith
  then show ?thesis
  proof cases
    case all
    let ?s = "s\<lparr>received_len := int (length (drop n c)), recv_lock := False\<rparr>"
    let ?h = "h\<lparr>socks := (socks h)(p \<mapsto> ?s)\<rparr>"
    have recv: "tcp_recv p (int n) h = Inr (0, c, ?h)"
      using s c b rl all by (simp add: defs)
    have "blocks h = (blocks h)(received_buf s \<mapsto> b)"
      using b(1) by (simp add: fun_upd_idem)
    then have eq: "?h = h\<lparr>socks := (socks h)(p \<mapsto> ?s), blocks := (blocks h)(received_buf s \<mapsto> b)\<rparr>"
      by (rule host_blocks_same)
    have rep': "rcv_rep ?h ?s (drop n c)"
      using all nn b(1) by (simp add: rcv_rep_def)
    have "\<exists>s' b. ?h = h\<lparr>socks := (socks h)(p \<mapsto> s'), blocks := (blocks h)(received_buf s \<mapsto> b)\<rparr>
        \<and> s' = s\<lparr>received_len := int (length (drop n c)), recv_lock := False\<rparr> \<and> rcv_rep ?h s' (drop n c)"
      by (intro exI conjI) (rule eq, rule refl, rule rep')
    then show ?thesis
      unfolding recv sum.case prod.case using all by simp
  next
    case some
    let ?b = "drop n c @ drop (length c - n) b"
    have "tcp_recv p (int n) h = Inr (0, take n c, h\<lparr>socks := (socks h)(p \<mapsto> s\<lparr>received_len :=
        int (length c - n), recv_lock := False\<rparr>), blocks := (blocks h)(received_buf s \<mapsto> ?b)\<rparr>)"
      using s c b some rl by (simp add: defs nat_diff_distrib pre mid of_nat_diff)
    then show ?thesis
      using some nn by (auto simp: rcv_rep_def)
  next
    case overlap
    then show ?thesis
      using s c b rl by (simp add: defs nat_diff_distrib)
  qed
qed

text \<open>
  C33: What \<open>tcp_recv\<close> returns. With content \<open>c\<close> in the buffer it delivers the first
  \<open>len\<close> bytes, or all, and keeps the rest in order; but when more than \<open>len\<close> bytes stay
  behind, it copies between overlapping regions with \<open>memcpy\<close>, which is undefined.
\<close>

theorem tcp_recv_delivers:
  assumes s: "socks h p = Some s" "\<not> recv_lock s" and rep: "rcv_rep h s c" and c: "c \<noteq> []"
  shows "case tcp_recv p (int n) h of
      Inr (v, dat, h') \<Rightarrow> v = 0 \<and> dat = take n c \<and> length c \<le> 2 * n
        \<and> (\<exists>s' b. h' = h\<lparr>socks := (socks h)(p \<mapsto> s'), blocks := (blocks h)(received_buf s \<mapsto> b)\<rparr>
             \<and> s' = s\<lparr>received_len := int (length (drop n c)), recv_lock := False\<rparr>
             \<and> rcv_rep h' s' (drop n c))
    | Inl e \<Rightarrow> e = Undefined Overlap \<and> 2 * n < length c"
  using assms by (rule tcp_recv_result)

lemma tcp_recv_delivers_witness:
  "(\<exists>h'. tcp_recv 1 5 rcv_example = Inr (0, [7, 8], h')) \<and> (\<exists>h'. tcp_recv 1 1 rcv_example = Inr (0, [7], h'))
   \<and> tcp_recv 1 0 rcv_example = Inl (Undefined Overlap)"
  using tcp_recv_delivers [OF rcv_example_ok(2,3,4), of 5]
    tcp_recv_delivers [OF rcv_example_ok(2,3,4), of 1]
    tcp_recv_delivers [OF rcv_example_ok(2,3,4), of 0]
  by (auto split: sum.splits)

end
