(* ===== verification/Kernel.thy ===== *)
theory Kernel
  imports Data_Transfer
begin

text \<open>
  The socket tables of \<open>src/tcp_manager.c\<close> and the simulated kernel of \<open>src/kernel.c\<close>: the
  dispatch of a received packet to the connection it belongs to, the thread that reads
  datagrams, and the start of the simulation. The tables are fields of the host.
\<close>

section \<open>Socket tables\<close>

text \<open>The structures \<open>tcp_manager_init\<close> allocates for every entry are lost at once; \<open>is_server\<close>
  is not initialised.\<close>

definition tcp_manager_init :: "bool \<Rightarrow> host \<Rightarrow> host" where
  "tcp_manager_init junk h = h\<lparr>listen_queue := (\<lambda>_. NULL), established_queue := (\<lambda>_. NULL),
     connect_sock := (\<lambda>_. NULL), is_server := junk\<rparr>"

definition get_listen_sock :: "int \<Rightarrow> host \<Rightarrow> ptr outcome" where
  "get_listen_sock index h = bindE (slot index) (\<lambda>_. Inr (listen_queue h index))"

definition get_established_sock :: "int \<Rightarrow> host \<Rightarrow> ptr outcome" where
  "get_established_sock index h = bindE (slot index) (\<lambda>_. Inr (established_queue h index))"

definition get_connect_sock :: "int \<Rightarrow> host \<Rightarrow> ptr outcome" where
  "get_connect_sock index h = bindE (slot index) (\<lambda>_. Inr (connect_sock h index))"

section \<open>Dispatch\<close>

text \<open>\<open>inet_network\<close> of the two addresses, and the addresses and role of a host. On a host
  with another name the variables stay uninitialised.\<close>

definition server_ip :: u32 where "server_ip = 0x0A000003"
definition client_ip :: u32 where "client_ip = 0x0A000002"

definition host_role :: "host \<Rightarrow> (u32 \<times> u32 \<times> bool) outcome" where
  "host_role h =
     (case name_of h of
        Server \<Rightarrow> Inr (server_ip, client_ip, True)
      | Client \<Rightarrow> Inr (client_ip, server_ip, False)
      | OtherHost \<Rightarrow> Inl (Undefined Uninitialised))"

text \<open>The end of \<open>onTCPPocket\<close>: no connection takes the packet; look for a listening or a
  connecting socket.\<close>

definition dispatch_new ::
  "tju_tcp_t \<Rightarrow> bytes \<Rightarrow> u32 \<Rightarrow> u32 \<Rightarrow> bool \<Rightarrow> host \<Rightarrow> (int \<times> host) outcome" where
  "dispatch_new junk pkt local_ip remote_ip srv h =
     (let conn_addr = \<lparr>ip = remote_ip, port = get_src pkt\<rparr>
      in bindE (get_listen_sock (cal_hash local_ip (get_dst pkt) 0 0) h) (\<lambda>l.
           if l \<noteq> NULL \<and> srv then tcp_rcv_state_server junk l pkt conn_addr h
           else bindE (get_connect_sock (cal_hash local_ip (get_dst pkt) remote_ip (get_src pkt)) h) (\<lambda>c.
             if c \<noteq> NULL \<and> \<not> srv then tcp_rcv_state_client c pkt conn_addr h
             else Inr (-1, h))))"

text \<open>A packet for the server's established connection \<open>e\<close>, and for the client's socket \<open>c\<close>.\<close>

definition dispatch_server :: "ptr \<Rightarrow> bytes \<Rightarrow> host \<Rightarrow> (int \<times> host) outcome" where
  "dispatch_server e pkt h =
     bindE (if is_fin pkt then Inr True else bindE (sock_at h e) (\<lambda>s. Inr (state s \<noteq> ESTABLISHED)))
       (\<lambda>close. if close then tcp_state_close e pkt h else tju_handle_packet e pkt h)"

definition dispatch_client ::
  "(host \<Rightarrow> (int \<times> host) outcome) \<Rightarrow> ptr \<Rightarrow> bytes \<Rightarrow> host \<Rightarrow> (int \<times> host) outcome" where
  "dispatch_client new c pkt h =
     bindE (if c = NULL then Inr False
            else if is_fin pkt then Inr True
            else bindE (sock_at h c) (\<lambda>s. Inr (state s \<noteq> ESTABLISHED \<and> state s \<noteq> SYN_SENT)))
       (\<lambda>close. if close then tcp_state_close c pkt h
        else bindE (sock_at h c) (\<lambda>s. if state s = ESTABLISHED then tju_handle_packet c pkt h else new h))"

definition onTCPPocket :: "tju_tcp_t \<Rightarrow> bytes \<Rightarrow> host \<Rightarrow> (int \<times> host) outcome" where
  "onTCPPocket junk pkt h =
     bindE (requireE (22 \<le> length pkt) (Undefined OutOfBounds)) (\<lambda>_.
     let remote_port = get_src pkt; local_port = get_dst pkt
     in bindE (host_role h) (\<lambda>(local_ip, remote_ip, srv).
        bindE (buf_to_packet pkt) (\<lambda>packet.
        bindE (tcp_check packet) (\<lambda>valid.
          if \<not> valid then Inr (-1, h)
          else
            bindE (get_listen_sock (cal_hash local_ip local_port 0 0) h) (\<lambda>listen_sock.
            bindE (get_connect_sock (cal_hash local_ip local_port remote_ip remote_port) h) (\<lambda>c.
            bindE (get_established_sock (cal_hash local_ip local_port remote_ip remote_port) h) (\<lambda>e.
              let new = dispatch_new junk pkt local_ip remote_ip srv
              in if is_server h then (if e \<noteq> NULL then dispatch_server e pkt h else new h)
                 else dispatch_client new c pkt h)))))))"

section \<open>The receiving thread\<close>

text \<open>
  \<open>inbox\<close> is the queue of datagrams of the UDP socket. A round looks at the first one; with
  at least a header in it, it reads whole datagrams, cut to the room that is left, until
  \<open>plen\<close> bytes are there. A shorter datagram is never removed.
\<close>

fun collect_packet :: "nat \<Rightarrow> bytes \<Rightarrow> bytes list \<Rightarrow> (bytes \<times> bytes list) outcome" where
  "collect_packet pl buf [] = (if pl \<le> length buf then Inr (buf, []) else Inl Blocked)"
| "collect_packet pl buf (d # ds) =
     (if pl \<le> length buf then Inr (buf, d # ds)
      else collect_packet pl (buf @ take (pl - length buf) d) ds)"

definition receive_round :: "tju_tcp_t \<Rightarrow> bytes list \<Rightarrow> host \<Rightarrow> (bytes list \<times> host) outcome" where
  "receive_round junk inbox h =
     (case inbox of
        [] \<Rightarrow> Inl Blocked
      | d # ds \<Rightarrow>
          if DEFAULT_HEADER_LEN \<le> int (length (take 22 d)) then
            bindE (collect_packet (unat (get_plen (take 22 d))) [] (d # ds)) (\<lambda>(pkt, rest).
            bindE (onTCPPocket junk pkt h) (\<lambda>(_, h). Inr (rest, h)))
          else Inr (d # ds, h))"

text \<open>\<open>socket\<close> and \<open>bind\<close> may fail; the result says that the receiving thread runs.\<close>

definition startSimulation :: "bool \<Rightarrow> bool \<Rightarrow> bool \<Rightarrow> host \<Rightarrow> (bool \<times> host) outcome" where
  "startSimulation junk socket_ok bind_ok h =
     (let h = tcp_manager_init junk h
      in if \<not> socket_ok then Inl (Exit (-1))
         else if \<not> bind_ok then Inl (Exit (-1))
         else Inr (True, h))"

section \<open>Dispatch of well-formed segments\<close>

text \<open>The table index of a connection between the two hosts, which is never negative.\<close>

definition listen_hash :: "u16 \<Rightarrow> int" where
  "listen_hash prt = cal_hash server_ip prt 0 0"

definition pair_hash :: "u16 \<Rightarrow> u16 \<Rightarrow> int" where
  "pair_hash lport rport = cal_hash server_ip lport client_ip rport"

lemma cal_hash_sum:
  assumes "0 \<le> sint a + uint p + sint b + uint q" "sint a + uint p + sint b + uint q < 2 ^ 31"
  shows "cal_hash a p b q = (sint a + uint p + sint b + uint q) mod 1024"
  using assms i32_id [of "sint a + uint p + sint b + uint q"]
  by (simp add: cal_hash_def signed_modulo_int_def sgn_if)

lemma ips_sint [simp]: "sint server_ip = 167772163" "sint client_ip = 167772162"
  by (simp_all add: server_ip_def client_ip_def)

lemma uint_u16_bound: "0 \<le> uint p" "uint p < 65536" for p :: u16
  using uint_range_size [of p] by (simp_all add: word_size)

lemma cal_hash_hosts:
  "cal_hash server_ip p client_ip q = (335544325 + uint p + uint q) mod 1024"
  "cal_hash client_ip p server_ip q = (335544325 + uint p + uint q) mod 1024"
  "cal_hash server_ip p 0 0 = (167772163 + uint p) mod 1024"
  "cal_hash client_ip p 0 0 = (167772162 + uint p) mod 1024"
  using uint_u16_bound [of p] uint_u16_bound [of q]
  by (subst cal_hash_sum; simp add: algebra_simps)+

lemma hash_slots [simp]:
  "slot (cal_hash server_ip p client_ip q) = Inr ()" "slot (cal_hash client_ip p server_ip q) = Inr ()"
  "slot (cal_hash server_ip p 0 0) = Inr ()" "slot (cal_hash client_ip p 0 0) = Inr ()"
  by (simp_all add: cal_hash_hosts)

lemma pair_hash_client: "cal_hash client_ip p server_ip q = pair_hash q p"
  by (simp add: pair_hash_def cal_hash_hosts algebra_simps)

lemma slot_pair_hash [simp]: "slot (pair_hash p q) = Inr ()" "slot (listen_hash p) = Inr ()"
  by (simp_all add: pair_hash_def listen_hash_def)

lemma onTCPPocket_server:
  assumes len: "22 + length dat < 65536" and h: "name_of h = Server" "is_server h"
    and pkt: "pkt = segment src dst seq ack fl adv dat"
  shows "onTCPPocket junk pkt h =
    (let e = established_queue h (pair_hash dst src)
     in if e \<noteq> NULL then dispatch_server e pkt h
        else dispatch_new junk pkt server_ip client_ip True h)"
  using assms segment_accepted [OF len, of src dst seq ack fl adv]
  by (simp add: onTCPPocket_def host_role_def get_listen_sock_def get_connect_sock_def
      get_established_sock_def pair_hash_def Let_def)

lemma onTCPPocket_client:
  assumes len: "22 + length dat < 65536" and h: "name_of h = Client" "\<not> is_server h"
    and pkt: "pkt = segment src dst seq ack fl adv dat"
  shows "onTCPPocket junk pkt h = dispatch_client (dispatch_new junk pkt client_ip server_ip False)
    (connect_sock h (pair_hash src dst)) pkt h"
  using assms segment_accepted [OF len, of src dst seq ack fl adv]
  by (simp add: onTCPPocket_def host_role_def get_listen_sock_def get_connect_sock_def
      get_established_sock_def pair_hash_client Let_def)

lemma take_segment:
  assumes "22 + length dat < 65536"
  shows "take 22 (segment src dst seq ack fl adv dat)
    = header_bytes (header (seg_packet src dst seq ack fl adv dat))"
  by (simp add: segment_def packet_bytes_def)

lemma get_plen_take:
  assumes "22 + length dat < 65536"
  shows "get_plen (take 22 (segment src dst seq ack fl adv dat)) = of_nat (22 + length dat)"
  using get_header_bytes(6) [of "header (seg_packet src dst seq ack fl adv dat)" "[]"]
  by (simp add: take_segment [OF assms] plen_seg_packet)

section \<open>Properties\<close>

text \<open>
  A datagram that carries one segment is handled exactly once. Whatever follows it in
  the socket's queue, the receiving thread reads this segment unchanged, passes it to
  \<open>onTCPPocket\<close> and leaves the rest of the queue.
\<close>

theorem receive_round_segment:
  assumes "22 + length dat < 65536"
  shows "receive_round junk (segment src dst seq ack fl adv dat # ds) h
    = bindE (onTCPPocket junk (segment src dst seq ack fl adv dat) h) (\<lambda>(_, h'). Inr (ds, h'))"
proof -
  let ?d = "segment src dst seq ack fl adv dat"
  have "collect_packet (length ?d) [] (?d # ds) = Inr (?d, ds)"
    by (cases ds) (simp_all add: assms)
  moreover have "unat (get_plen (take 22 ?d)) = length ?d"
    using unat_seg_len [OF assms] by (simp add: get_plen_take [OF assms] assms del: of_nat_add)
  ultimately show ?thesis
    using assms by (simp add: receive_round_def)
qed

lemma receive_round_segment_witness:
  "receive_round blank_sock [segment 1 2 0 0 RST 0 [7], [1]] ((blank_host Server)\<lparr>is_server := True\<rparr>)
   = Inr ([[1]], (blank_host Server)\<lparr>is_server := True\<rparr>)"
  using receive_round_segment [of "[7]" blank_sock 1 2 0 0 RST 0 "[[1]]"]
  by (simp add: onTCPPocket_server [of "[7]", OF _ _ _ refl] blank_host_def dispatch_new_def
      get_listen_sock_def get_connect_sock_def Let_def listen_hash_def [symmetric])

fun receive_rounds :: "nat \<Rightarrow> tju_tcp_t \<Rightarrow> bytes list \<Rightarrow> host \<Rightarrow> (bytes list \<times> host) outcome" where
  "receive_rounds 0 junk inbox h = Inr (inbox, h)"
| "receive_rounds (Suc n) junk inbox h =
     bindE (receive_round junk inbox h) (\<lambda>(inbox, h). receive_rounds n junk inbox h)"

text \<open>
  C39: A datagram shorter than a header stops the reception: a round leaves it in the
  queue and the host as it was, so every further round, however many follow, sees it
  again, and no packet behind it is ever handled.
\<close>

theorem short_datagram_stops_reception:
  assumes "length d < 22"
  shows "receive_rounds n junk (d # ds) h = Inr (d # ds, h)"
  using assms by (induction n) (simp_all add: receive_round_def)

lemma short_datagram_stops_reception_witness:
  "receive_rounds 1000 blank_sock [[1, 2, 3], segment 1 2 0 0 RST 0 []] (blank_host Server)
   = Inr ([[1, 2, 3], segment 1 2 0 0 RST 0 []], blank_host Server)"
  by (rule short_datagram_stops_reception) simp



end
