(* ===== verification/Api.thy ===== *)
theory Api
  imports Kernel
begin

text \<open>
  \<open>src/api.c\<close>: the calls of the application, except \<open>tcp_send\<close> and \<open>tcp_recv\<close>, which are in
  \<open>Data_Transfer\<close>, and the part of \<open>tcp_close\<close> before its wait, which is in \<open>Timer\<close>. A call that
  waits for another thread is modelled in two parts, what it does before the wait and
  what it does once the awaited condition holds; other threads run between the two.
\<close>

section \<open>Creating a socket\<close>

text \<open>
  What uninitialised memory contains: the socket structure, the two windows, the \<open>started\<close>
  flag of the timer, and the bytes of a new block of a given size.
\<close>

record memory_junk =
  junk_sock :: tju_tcp_t
  junk_swnd :: sender_window_t
  junk_rwnd :: receiver_window_t
  junk_started :: int
  junk_block :: "nat \<Rightarrow> bytes"

definition malloc_block :: "memory_junk \<Rightarrow> int \<Rightarrow> host \<Rightarrow> ptr \<times> host" where
  "malloc_block j n = malloc (\<lambda>a. set_block a (junk_block j (nat n)))"

definition tcp_socket :: "memory_junk \<Rightarrow> host \<Rightarrow> (ptr \<times> host) outcome" where
  "tcp_socket j h =
     (let (sock, h) = malloc_sock ((junk_sock j)\<lparr>state := CLOSED, send_lock := False\<rparr>) h;
          (sb, h) = malloc_block j TCP_SEND_BUFFER_SIZE h;
          (rb, h) = malloc_block j TCP_RECV_BUFFER_SIZE h;
          (wr, h) = malloc (\<lambda>a. set_rwnd a (junk_rwnd j)) h;
          (ws, h) = malloc (\<lambda>a. set_swnd a (junk_swnd j)) h;
          (swb, h) = malloc_block j TCP_SEND_WINDOW_SIZE h;
          (rwb, h) = malloc_block j TCP_RECV_WINDOW_SIZE h;
          h = set_swnd ws ((junk_swnd j)\<lparr>send_windows := swb, window_size := to_u16 TCP_SEND_WINDOW_SIZE,
                            rwnd := to_u16 (1 * SMSS)\<rparr>) h;
          h = set_rwnd wr ((junk_rwnd j)\<lparr>receiver_window := rwb\<rparr>) h
      in bindE (update_sock sock (\<lambda>s. s\<lparr>sending_buf := sb, sending_len := 0,
                  sending_capacity := TCP_SEND_BUFFER_SIZE, recv_lock := False, received_buf := rb,
                  received_len := 0, received_capacity := TCP_RECV_BUFFER_SIZE, wnd_recv := wr,
                  wnd_send := ws\<rparr>) h) (\<lambda>h.
         bindE (tcp_init_timer (junk_started j) sock h) (\<lambda>h.
           let (sq, h) = sockqueue_init h; (aq, h) = sockqueue_init h
           in bindE (update_sock sock (\<lambda>s. s\<lparr>interrupt_signal := 0, syn_queue := sq, accept_queue := aq,
                       ssthresh := IW, cwnd := SMSS, con_status := SLOW_START,
                       listen_state := (\<lambda>_. CLOSED)\<rparr>) h) (\<lambda>h. Inr (sock, h)))))"

definition tcp_bind :: "ptr \<Rightarrow> tju_sock_addr \<Rightarrow> host \<Rightarrow> (int \<times> host) outcome" where
  "tcp_bind p addr h = bindE (update_sock p (\<lambda>s. s\<lparr>bind_addr := addr\<rparr>) h) (\<lambda>h. Inr (0, h))"

definition tcp_listen :: "ptr \<Rightarrow> host \<Rightarrow> (int \<times> host) outcome" where
  "tcp_listen p h =
     bindE (update_sock p (\<lambda>s. s\<lparr>state := LISTEN\<rparr>) h) (\<lambda>h.
     bindE (sock_at h p) (\<lambda>s.
       let hashval = cal_hash (ip (bind_addr s)) (port (bind_addr s)) 0 0
       in bindE (slot hashval) (\<lambda>_.
            let h = h\<lparr>listen_queue := (listen_queue h)(hashval := p)\<rparr>
            in bindE (update_sock p (\<lambda>s. s\<lparr>listen_state := (\<lambda>_. LISTEN)\<rparr>) h)
                 (\<lambda>h. Inr (0, h\<lparr>is_server := True\<rparr>)))))"

section \<open>Accepting a connection\<close>

text \<open>The listener is copied byte by byte before the wait: the copy shares its buffers,
  windows, timer and queues.\<close>

definition tcp_accept_begin :: "ptr \<Rightarrow> ptr \<Rightarrow> host \<Rightarrow> host outcome" where
  "tcp_accept_begin listen_sock conn_sock h = copy_sock conn_sock listen_sock h"

definition accept_ready :: "ptr \<Rightarrow> host \<Rightarrow> bool outcome" where
  "accept_ready listen_sock h = bindE (sock_at h listen_sock) (\<lambda>l.
     bindE (sockqueue_is_empty (accept_queue l) h) (\<lambda>e. Inr (\<not> e)))"

text \<open>The end of \<open>tcp_accept\<close> and of \<open>tcp_connect\<close>: both windows start at 0.\<close>

definition reset_windows :: "ptr \<Rightarrow> host \<Rightarrow> host outcome" where
  "reset_windows p h = bindE (sock_at h p) (\<lambda>s. bindE (rwnd_at h s) (\<lambda>r. bindE (swnd_at h s) (\<lambda>w.
     Inr (set_swnd (wnd_send s) (w\<lparr>base := 0, nextseq := 0\<rparr>)
           (set_rwnd (wnd_recv s) (r\<lparr>expect_seq := 0\<rparr>) h)))))"

definition create_send_thread :: "ptr \<Rightarrow> host \<Rightarrow> host" where
  "create_send_thread p h = h\<lparr>send_threads := send_threads h @ [p]\<rparr>"

definition tcp_accept_finish :: "memory_junk \<Rightarrow> ptr \<Rightarrow> ptr \<Rightarrow> host \<Rightarrow> (int \<times> host) outcome" where
  "tcp_accept_finish j listen_sock conn_sock h =
     (let (sock, h) = malloc_sock (junk_sock j) h
      in bindE (sock_at h listen_sock) (\<lambda>l.
         bindE (sockqueue_pop (accept_queue l) sock h) (\<lambda>(status, h).
           if status < 0 then Inr (-1, h)
           else bindE (sock_at h listen_sock) (\<lambda>l. bindE (sock_at h sock) (\<lambda>n.
                let local_addr = bind_addr l; remote_addr = bind_addr n
                in bindE (update_sock conn_sock (\<lambda>s. s\<lparr>established_local_addr := local_addr,
                            established_remote_addr := remote_addr, state := ESTABLISHED\<rparr>) h) (\<lambda>h.
                     let hashval = cal_hash (ip local_addr) (port local_addr) (ip remote_addr) (port remote_addr)
                     in bindE (slot hashval) (\<lambda>_.
                          let h = h\<lparr>established_queue := (established_queue h)(hashval := conn_sock)\<rparr>
                          in bindE (reset_windows conn_sock h) (\<lambda>h.
                             Inr (0, create_send_thread conn_sock h)))))))))"

text \<open>The whole call, as far as it needs no other thread.\<close>

definition tcp_accept :: "memory_junk \<Rightarrow> ptr \<Rightarrow> ptr \<Rightarrow> host \<Rightarrow> (int \<times> host) outcome" where
  "tcp_accept j listen_sock conn_sock h =
     bindE (tcp_accept_begin listen_sock conn_sock h) (\<lambda>h.
     bindE (accept_ready listen_sock h) (\<lambda>ready.
       if ready then tcp_accept_finish j listen_sock conn_sock h else Inl Blocked))"

section \<open>Connecting\<close>

definition tcp_connect_begin :: "ptr \<Rightarrow> tju_sock_addr \<Rightarrow> host \<Rightarrow> host outcome" where
  "tcp_connect_begin p target_addr h =
     (let local_addr = \<lparr>ip = client_ip, port = 5678\<rparr>
      in bindE (update_sock p (\<lambda>s. s\<lparr>established_remote_addr := target_addr,
                  established_local_addr := local_addr, bind_addr := target_addr, finished_handshake := 0,
                  state := SYN_SENT\<rparr>) h) (\<lambda>h.
           let h = h\<lparr>is_server := False\<rparr>;
               hashval = cal_hash (ip local_addr) (port local_addr) (ip target_addr) (port target_addr)
           in bindE (slot hashval) (\<lambda>_.
                let h = h\<lparr>connect_sock := (connect_sock h)(hashval := p)\<rparr>
                in bindE (sock_at h p) (\<lambda>s.
                     let adv_wnd = to_u16 (TCP_RECV_BUFFER_SIZE - received_len s)
                     in bindE (create_packet_buf (port local_addr) (port target_addr) 0 0
                                 (to_u16 HEADER_LEN) (to_u16 HEADER_LEN) SYN adv_wnd 0 [] 0) (\<lambda>send_pkt.
                        bindE (tcp_start_timer p h) (sendToLayer3 send_pkt HEADER_LEN))))))"

definition connect_ready :: "ptr \<Rightarrow> host \<Rightarrow> bool outcome" where
  "connect_ready p h = bindE (sock_at h p) (\<lambda>s. Inr (state s = ESTABLISHED))"

definition tcp_connect_finish :: "ptr \<Rightarrow> host \<Rightarrow> (int \<times> host) outcome" where
  "tcp_connect_finish p h =
     (let h = create_send_thread p h; local_addr = \<lparr>ip = client_ip, port = 5678\<rparr>
      in bindE (sock_at h p) (\<lambda>s.
           let hashval = cal_hash (ip local_addr) (port local_addr) (ip (established_remote_addr s))
                           (port (established_remote_addr s))
           in bindE (slot hashval) (\<lambda>_.
                let h = h\<lparr>connect_sock := (connect_sock h)(hashval := p)\<rparr>
                in bindE (reset_windows p h) (\<lambda>h. Inr (0, h)))))"

section \<open>Closing\<close>

text \<open>After \<open>tcp_close_begin\<close> the caller polls the state of the socket, which the receiving
  thread frees at the end of the exchange.\<close>

definition close_ready :: "ptr \<Rightarrow> host \<Rightarrow> bool outcome" where
  "close_ready p h = bindE (sock_at h p) (\<lambda>s. Inr (state s = CLOSED))"

definition tcp_close :: "ptr \<Rightarrow> host \<Rightarrow> host outcome" where
  "tcp_close p h = bindE (tcp_close_begin p h) (\<lambda>h.
     bindE (close_ready p h) (\<lambda>closed. if closed then Inr h else Inl Blocked))"

end
