(* ===== verification/Connection.thy ===== *)
theory Connection
  imports Api
begin

text \<open>
  Opening and closing a connection between a client and a server host: the three-way
  handshake from \<open>tcp_connect\<close> and \<open>tcp_accept\<close> to two established sockets, and the four
  segments of the close. The segments are those the hosts put on their wires, delivered to
  the other host's \<open>onTCPPocket\<close>.
\<close>

section \<open>A new socket\<close>

definition fresh_sock :: "host \<Rightarrow> ptr \<Rightarrow> tju_tcp_t \<Rightarrow> sender_window_t \<Rightarrow> receiver_window_t \<Rightarrow> rtt_timer_t \<Rightarrow> bool" where
  "fresh_sock h p s w r t \<longleftrightarrow> heap_ok h \<and> socks h p = Some s \<and> swnds h (wnd_send s) = Some w
     \<and> rwnds h (wnd_recv s) = Some r \<and> timers h (rtt_timer s) = Some t \<and> started t = 0
     \<and> timeout t = 3 \<and> estimated_rtt t = 3 \<and> dev_rtt t = 3 \<and> received_len s = 0
     \<and> \<not> send_lock s \<and> \<not> recv_lock s \<and> two_queues h (syn_queue s) 0 [] (accept_queue s) 0 []"

lemma tcp_socket_fresh:
  assumes ok: "heap_ok h"
  shows "\<exists>h' s w r t. tcp_socket j h = Inr (next_ptr h, h') \<and> fresh_sock h' (next_ptr h) s w r t
    \<and> state s = CLOSED \<and> window_size w = 44928 \<and> cwnd s = SMSS \<and> ssthresh s = IW \<and> con_status s = SLOW_START
    \<and> name_of h' = name_of h \<and> wire h' = wire h \<and> clock h' = clock h \<and> poll_delay h' = poll_delay h
    \<and> threads h' = threads h \<and> established_queue h' = established_queue h \<and> connect_sock h' = connect_sock h
    \<and> (\<forall>q. q < next_ptr h \<longrightarrow> socks h' q = socks h q)"
proof -
  have w: "(word_of_int 176000 :: u16) = 44928"
    by simp
  show ?thesis
    using ok
    by (simp add: tcp_socket_def malloc_sock_def malloc_block_def malloc_def update_sock_def tcp_init_timer_def
        tcp_init_rtt_def sockqueue_init_def Let_def to_u16_def w fresh_sock_def two_queues_def q_rep_def)
      (auto simp: heap_ok_def)
qed

section \<open>Established connections\<close>

text \<open>The established sockets of a connection from port 5678 of the client to \<open>prt\<close>.\<close>

definition client_side :: "host \<Rightarrow> ptr \<Rightarrow> u16 \<Rightarrow> tju_tcp_t \<Rightarrow> receiver_window_t \<Rightarrow> bool" where
  "client_side h p prt s r \<longleftrightarrow> heap_ok h \<and> name_of h = Client \<and> \<not> is_server h
     \<and> connect_sock h (pair_hash prt 5678) = p \<and> socks h p = Some s \<and> rwnds h (wnd_recv s) = Some r
     \<and> port (established_local_addr s) = 5678 \<and> port (established_remote_addr s) = prt"

definition server_side :: "host \<Rightarrow> ptr \<Rightarrow> u16 \<Rightarrow> tju_tcp_t \<Rightarrow> receiver_window_t \<Rightarrow> bool" where
  "server_side h q prt s r \<longleftrightarrow> heap_ok h \<and> name_of h = Server \<and> is_server h
     \<and> established_queue h (pair_hash prt 5678) = q \<and> socks h q = Some s \<and> rwnds h (wnd_recv s) = Some r
     \<and> port (established_local_addr s) = prt \<and> port (established_remote_addr s) = 5678"

section \<open>The server's steps\<close>

text \<open>A listening socket at address \<open>l\<close>, bound to the server's address and the port \<open>prt\<close>.\<close>

definition listening :: "host \<Rightarrow> ptr \<Rightarrow> u16 \<Rightarrow> tju_tcp_t \<Rightarrow> sender_window_t \<Rightarrow> receiver_window_t \<Rightarrow> rtt_timer_t \<Rightarrow> bool" where
  "listening h l prt s w r t \<longleftrightarrow> heap_ok h \<and> name_of h = Server \<and> is_server h
     \<and> listen_queue h (listen_hash prt) = l \<and> socks h l = Some s \<and> bind_addr s = \<lparr>ip = server_ip, port = prt\<rparr>
     \<and> swnds h (wnd_send s) = Some w \<and> rwnds h (wnd_recv s) = Some r \<and> timers h (rtt_timer s) = Some t"

lemma server_dispatch_listen:
  assumes lis: "listening h l prt s w r t" and none: "established_queue h (pair_hash prt cprt) = NULL"
    and len: "22 + length dat < 65536" and pkt: "pkt = segment cprt prt sq ack fl adv dat"
  shows "onTCPPocket junk pkt h = (let h1 = h\<lparr>swnds := (swnds h)(wnd_send s \<mapsto> w\<lparr>rwnd := adv\<rparr>)\<rparr>;
      hv = pair_hash prt cprt; a = \<lparr>ip = client_ip, port = cprt\<rparr>
    in case listen_state s hv of
         CLOSED \<Rightarrow> Inr (-1, h1)
       | LISTEN \<Rightarrow> if fl = SYN then server_syn junk l pkt a hv h1 else if fl = RST then Inr (0, h1) else Inr (-1, h1)
       | SYN_RECV \<Rightarrow> if fl = ACK then server_ack junk l pkt hv h1 else Inr (-1, h1)
       | _ \<Rightarrow> Inr (-1, h1))"
proof -
  have l: "socks h l = Some s" "name_of h = Server" "is_server h" "listen_queue h (listen_hash prt) = l"
    "bind_addr s = \<lparr>ip = server_ip, port = prt\<rparr>" "swnds h (wnd_send s) = Some w" "l \<noteq> NULL"
    using lis heap_ok_bound(1) [of h l s] by (auto simp: listening_def)
  have "onTCPPocket junk pkt h = tcp_rcv_state_server junk l pkt \<lparr>ip = client_ip, port = cprt\<rparr> h"
    using onTCPPocket_server [OF len l(2,3) pkt, of junk] none l(4,7)
    by (simp add: dispatch_new_def get_listen_sock_def Let_def pkt) (simp add: listen_hash_def [symmetric] l)
  then show ?thesis
    using l pair_hash_def [of prt cprt, symmetric]
    by (simp add: tcp_rcv_state_server_def Let_def pkt split: tcp_state.split)
qed

lemma server_receives_syn:
  assumes lis: "listening h l prt s w r t" and none: "established_queue h (pair_hash prt cprt) = NULL"
    and st: "listen_state s (pair_hash prt cprt) = LISTEN" and idle: "timer_idle h t"
    and tq: "two_queues h (syn_queue s) 0 [] (accept_queue s) 0 []"
    and pkt: "pkt = segment cprt prt sq ack SYN adv []"
  shows "\<exists>h' s' t' c. onTCPPocket junk pkt h = Inr (0, h')
    \<and> listening h' l prt s' (w\<lparr>rwnd := adv\<rparr>) (r\<lparr>expect_seq := sq\<rparr>) t' \<and> c \<noteq> l
    \<and> s' = s\<lparr>established_remote_addr := \<lparr>ip = client_ip, port = cprt\<rparr>,
             listen_state := (listen_state s)(pair_hash prt cprt := SYN_RECV), saved_syn := 0, interrupt_signal := 0\<rparr>
    \<and> socks h' = (socks h)(c \<mapsto> junk\<lparr>bind_addr := \<lparr>ip = client_ip, port = cprt\<rparr>\<rparr>, l \<mapsto> s') \<and> next_ptr h \<le> c
    \<and> t' = t\<lparr>started := 1, timer_thread := next_tid h\<rparr>
    \<and> threads h' (next_tid h) = Some \<lparr>th_sock = l, th_limit = timeout t, th_since = clock h\<rparr>
    \<and> clock h' = clock h \<and> poll_delay h' = poll_delay h
    \<and> two_queues h' (syn_queue s) 1 [(c + 1, c)] (accept_queue s) 0 []
    \<and> established_queue h' = established_queue h \<and> next_ptr h \<le> next_ptr h' \<and> blocks h' = blocks h
    \<and> wire h' = wire h @ [segment prt cprt (sq + 22) (sq + 1) (SYN OR ACK) 100 []]"
proof -
  let ?h1 = "h\<lparr>swnds := (swnds h)(wnd_send s \<mapsto> w\<lparr>rwnd := adv\<rparr>)\<rparr>"
  let ?a = "\<lparr>ip = client_ip, port = cprt\<rparr>"
  have l: "heap_ok h" "socks h l = Some s" "name_of h = Server" "is_server h" "listen_queue h (listen_hash prt) = l"
    "bind_addr s = \<lparr>ip = server_ip, port = prt\<rparr>" "swnds h (wnd_send s) = Some w"
    "rwnds h (wnd_recv s) = Some r" "timers h (rtt_timer s) = Some t"
    using lis by (simp_all add: listening_def)
  have ok1: "heap_ok ?h1"
    using l(1,7) by (rule heap_ok_updates)
  have exp: "expected_after pkt = sq"
    by (simp add: expected_after_def pkt get_plen_segment)
  have "\<exists>h'. server_syn junk l pkt ?a (pair_hash prt cprt) ?h1 = Inr (0, h') \<and> heap_ok h' \<and> host_frame ?h1 h'
    \<and> socks h' = (socks ?h1)(next_ptr h \<mapsto> junk\<lparr>bind_addr := ?a\<rparr>,
         l \<mapsto> s\<lparr>established_remote_addr := ?a, listen_state := (listen_state s)(pair_hash prt cprt := SYN_RECV),
               saved_syn := 0, interrupt_signal := 0\<rparr>)
    \<and> rwnds h' = (rwnds ?h1)(wnd_recv s \<mapsto> r\<lparr>expect_seq := expected_after pkt\<rparr>)
    \<and> timers h' = (timers ?h1)(rtt_timer s \<mapsto> t\<lparr>started := 1, timer_thread := next_tid ?h1\<rparr>)
    \<and> threads h' = (threads ?h1)(next_tid ?h1 \<mapsto> \<lparr>th_sock = l, th_limit = timeout t, th_since = clock ?h1\<rparr>)
    \<and> clock h' = clock ?h1 \<and> next_tid h' = next_tid ?h1 + 1
    \<and> two_queues h' (syn_queue s) (0 + 1) ([] @ [(next_ptr h + 1, next_ptr h)]) (accept_queue s) 0 []
    \<and> wire h' = wire ?h1 @ [segment (get_dst pkt) (get_src pkt) (get_seq pkt + 22) (get_seq pkt + 1)
                            (SYN OR ACK) 100 []]"
    using server_syn_effect [OF ok1, of l s r t 0 "[]" 0 "[]" junk pkt ?a "pair_hash prt cprt"] l idle tq
    by (simp add: timer_idle_def two_queues_def q_rep_def)
  then obtain h' where h': "server_syn junk l pkt ?a (pair_hash prt cprt) ?h1 = Inr (0, h')" "heap_ok h'"
    "host_frame ?h1 h'"
    "socks h' = (socks h)(next_ptr h \<mapsto> junk\<lparr>bind_addr := ?a\<rparr>,
         l \<mapsto> s\<lparr>established_remote_addr := ?a, listen_state := (listen_state s)(pair_hash prt cprt := SYN_RECV),
               saved_syn := 0, interrupt_signal := 0\<rparr>)"
    "rwnds h' = (rwnds h)(wnd_recv s \<mapsto> r\<lparr>expect_seq := sq\<rparr>)"
    "timers h' = (timers h)(rtt_timer s \<mapsto> t\<lparr>started := 1, timer_thread := next_tid h\<rparr>)"
    "threads h' = (threads h)(next_tid h \<mapsto> \<lparr>th_sock = l, th_limit = timeout t, th_since = clock h\<rparr>)"
    "clock h' = clock h" "two_queues h' (syn_queue s) 1 [(next_ptr h + 1, next_ptr h)] (accept_queue s) 0 []"
    "wire h' = wire h @ [segment prt cprt (sq + 22) (sq + 1) (SYN OR ACK) 100 []]"
    unfolding exp by (auto simp: pkt)
  have pc: "next_ptr h \<noteq> l" "next_ptr h < next_ptr h'"
    using heap_ok_bound(1) [OF l(1,2)] heap_ok_bound(1) [OF h'(2), of "next_ptr h"] h'(4) by auto
  have "onTCPPocket junk pkt h = Inr (0, h')"
    using server_dispatch_listen [OF lis none _ pkt, of junk] st h'(1) by (simp add: Let_def)
  then show ?thesis
    using h' l pc
    by (intro exI [of _ h'] exI [of _ "s\<lparr>established_remote_addr := ?a,
        listen_state := (listen_state s)(pair_hash prt cprt := SYN_RECV), saved_syn := 0, interrupt_signal := 0\<rparr>"]
        exI [of _ "t\<lparr>started := 1, timer_thread := next_tid h\<rparr>"] exI [of _ "next_ptr h"])
      (auto simp: listening_def host_frame_def)
qed

lemma server_receives_ack:
  assumes lis: "listening h l prt s w r t" and none: "established_queue h (pair_hash prt cprt) = NULL"
    and st: "listen_state s (pair_hash prt cprt) = SYN_RECV" "saved_syn s = 0"
    and run: "timer_running h l t th"
    and tq: "two_queues h (syn_queue s) 1 [(a, d)] (accept_queue s) 0 []"
    and d: "socks h d = Some v" "d \<noteq> l" and pkt: "pkt = segment cprt prt sq ack ACK adv []"
  shows "\<exists>h' s' t' c i. onTCPPocket junk pkt h = Inr (0, h')
    \<and> listening h' l prt s' (w\<lparr>rwnd := adv\<rparr>) (r\<lparr>expect_seq := sq\<rparr>) t'
    \<and> s' = s\<lparr>interrupt_signal := i, listen_state := (listen_state s)(pair_hash prt cprt := ESTABLISHED)\<rparr>
    \<and> socks h' = (socks h)(l \<mapsto> s', c \<mapsto> v\<lparr>state := ESTABLISHED\<rparr>) \<and> next_ptr h \<le> c \<and> started t' = 0
    \<and> two_queues h' (syn_queue s) 1 [] (accept_queue s) 1 [(c + 1, c)]
    \<and> established_queue h' = established_queue h \<and> send_threads h' = send_threads h \<and> wire h' = wire h
    \<and> blocks h' = blocks h"
proof -
  let ?h1 = "h\<lparr>swnds := (swnds h)(wnd_send s \<mapsto> w\<lparr>rwnd := adv\<rparr>)\<rparr>"
  have l: "heap_ok h" "socks h l = Some s" "name_of h = Server" "is_server h" "listen_queue h (listen_hash prt) = l"
    "bind_addr s = \<lparr>ip = server_ip, port = prt\<rparr>" "swnds h (wnd_send s) = Some w"
    "rwnds h (wnd_recv s) = Some r" "timers h (rtt_timer s) = Some t"
    using lis by (simp_all add: listening_def)
  have ok1: "heap_ok ?h1"
    using l(1,7) by (rule heap_ok_updates)
  have exp: "expected_after pkt = sq"
    by (simp add: expected_after_def pkt get_plen_segment)
  have run1: "timer_running ?h1 l t th"
    using run by (simp add: timer_running_def)
  have tq1: "two_queues ?h1 (syn_queue s) 1 [(a, d)] (accept_queue s) 0 []"
    using tq by (simp add: two_queues_def q_rep_def)
  obtain h' i t' where h': "server_ack junk l pkt (pair_hash prt cprt) ?h1 = Inr (0, h')" "heap_ok h'"
    "host_frame ?h1 h'"
    "socks h' = (socks h)(l \<mapsto> s\<lparr>interrupt_signal := i, listen_state := (listen_state s)(pair_hash prt cprt := ESTABLISHED)\<rparr>,
         next_ptr h \<mapsto> v\<lparr>state := ESTABLISHED\<rparr>)"
    "rwnds h' = (rwnds h)(wnd_recv s \<mapsto> r\<lparr>expect_seq := sq\<rparr>)"
    "timers h' = (timers h)(rtt_timer s \<mapsto> t')" "started t' = 0"
    "two_queues h' (syn_queue s) 1 [] (accept_queue s) 1 [(next_ptr h + 1, next_ptr h)]" "wire h' = wire h"
    using server_ack_effect [OF ok1 _ _ _ disjI2 [OF run1] tq1, of r v junk pkt "pair_hash prt cprt"] l d st(2)
    unfolding exp by auto
  have pc: "next_ptr h \<noteq> l"
    using heap_ok_bound(1) [OF l(1,2)] by simp
  have "onTCPPocket junk pkt h = Inr (0, h')"
    using server_dispatch_listen [OF lis none _ pkt, of junk] st h'(1) by (simp add: Let_def)
  then show ?thesis
    using h' l pc
    by (intro exI [of _ h'] exI [of _ "s\<lparr>interrupt_signal := i, listen_state := (listen_state s)(pair_hash prt cprt := ESTABLISHED)\<rparr>"]
        exI [of _ t'] exI [of _ "next_ptr h"] exI [of _ i])
      (auto simp: listening_def host_frame_def)
qed

lemma tcp_accept_finish_effect:
  assumes lis: "listening h l prt s w r t" and tq: "two_queues h (syn_queue s) k xs (accept_queue s) 1 [(b, d)]"
    and d: "socks h d = Some v" "bind_addr v = \<lparr>ip = client_ip, port = cprt\<rparr>"
    and cs: "socks h cs = Some x" "wnd_send x = wnd_send s" "wnd_recv x = wnd_recv s" "cs \<noteq> l"
  shows "accept_ready l h = Inr True \<and> (\<exists>h' x'. tcp_accept_finish j l cs h = Inr (0, h')
    \<and> x' = x\<lparr>established_local_addr := \<lparr>ip = server_ip, port = prt\<rparr>,
             established_remote_addr := \<lparr>ip = client_ip, port = cprt\<rparr>, state := ESTABLISHED\<rparr>
    \<and> socks h' cs = Some x' \<and> established_queue h' = (established_queue h)(pair_hash prt cprt := cs)
    \<and> swnds h' (wnd_send x) = Some (w\<lparr>base := 0, nextseq := 0\<rparr>)
    \<and> rwnds h' (wnd_recv x) = Some (r\<lparr>expect_seq := 0\<rparr>) \<and> heap_ok h'
    \<and> send_threads h' = send_threads h @ [cs] \<and> wire h' = wire h \<and> name_of h' = Server \<and> is_server h'
    \<and> blocks h' = blocks h \<and> timers h' = timers h)"
proof -
  have l: "heap_ok h" "socks h l = Some s" "bind_addr s = \<lparr>ip = server_ip, port = prt\<rparr>" "name_of h = Server"
    "swnds h (wnd_send s) = Some w" "rwnds h (wnd_recv s) = Some r" "is_server h"
    using lis by (simp_all add: listening_def)
  let ?n = "next_ptr h"
  let ?h1 = "h\<lparr>next_ptr := ?n + 1, socks := (socks h)(?n \<mapsto> junk_sock j)\<rparr>"
  have new: "l < ?n" "d < ?n" "cs < ?n" "0 < ?n"
    using heap_ok_bound(1) [OF l(1,2)] heap_ok_bound(1) [OF l(1) d(1)] heap_ok_bound(1) [OF l(1) cs(1)] by simp_all
  have ok1: "heap_ok ?h1"
    using l(1) by (auto simp: heap_ok_def)
  have rep: "q_rep h (accept_queue s) 1 [(b, d)]" "q_rep ?h1 (accept_queue s) 1 [(b, d)]"
    using tq by (auto simp: two_queues_def q_rep_def)
  obtain h2 where pop: "sockqueue_pop (accept_queue s) ?n ?h1 = Inr (0, h2)" and ok2: "heap_ok h2"
    and s2: "socks h2 = (socks h)(?n \<mapsto> v)" and fr: "queue_frame (accept_queue s) {b} ?h1 h2"
    using sockqueue_pop_effect [OF ok1 rep(2), of v ?n "junk_sock j"] d new by auto
  have h2: "h2 = ?h1\<lparr>nodes := nodes h2, queues := queues h2, next_ptr := next_ptr h2, socks := socks h2\<rparr>"
    using fr unfolding queue_frame_def by blast
  have f2: "established_queue h2 = established_queue h" "swnds h2 = swnds h" "rwnds h2 = rwnds h"
    "send_threads h2 = send_threads h" "wire h2 = wire h" "name_of h2 = name_of h" "is_server h2 = is_server h"
    "blocks h2 = blocks h" "timers h2 = timers h"
    by (subst h2, simp)+
  let ?x = "x\<lparr>established_local_addr := \<lparr>ip = server_ip, port = prt\<rparr>,
             established_remote_addr := \<lparr>ip = client_ip, port = cprt\<rparr>, state := ESTABLISHED\<rparr>"
  let ?h3 = "h2\<lparr>socks := (socks h2)(cs \<mapsto> ?x), established_queue := (established_queue h)(pair_hash prt cprt := cs),
      rwnds := (rwnds h)(wnd_recv s \<mapsto> r\<lparr>expect_seq := 0\<rparr>),
      swnds := (swnds h)(wnd_send s \<mapsto> w\<lparr>base := 0, nextseq := 0\<rparr>), send_threads := send_threads h @ [cs]\<rparr>"
  have "tcp_accept_finish j l cs h = Inr (0, ?h3)"
    using l d cs new pop s2
    by (simp add: tcp_accept_finish_def malloc_sock_def malloc_def update_sock_def reset_windows_def
        create_send_thread_def Let_def f2 pair_hash_def [symmetric])
  moreover have "heap_ok ?h3"
    using ok2 new heap_ok_bound(1) [OF ok2, of cs x] cs s2 heap_ok_bound(4) [OF ok2, of "wnd_send s" w]
      heap_ok_bound(5) [OF ok2, of "wnd_recv s" r] l f2
    by (auto simp: heap_ok_def)
  moreover have "accept_ready l h = Inr True"
    using l rep(1) by (auto simp: accept_ready_def sockqueue_is_empty_def q_rep_def)
  ultimately show ?thesis
    using cs l f2 by (intro conjI exI [of _ ?h3] exI [of _ ?x]) simp_all
qed

section \<open>The client's steps\<close>

definition connecting :: "host \<Rightarrow> ptr \<Rightarrow> u16 \<Rightarrow> tju_tcp_t \<Rightarrow> sender_window_t \<Rightarrow> receiver_window_t \<Rightarrow> rtt_timer_t \<Rightarrow> bool" where
  "connecting h p prt s w r t \<longleftrightarrow> heap_ok h \<and> name_of h = Client \<and> \<not> is_server h
     \<and> connect_sock h (pair_hash prt 5678) = p \<and> socks h p = Some s \<and> state s = SYN_SENT \<and> received_len s = 0
     \<and> established_local_addr s = \<lparr>ip = client_ip, port = 5678\<rparr>
     \<and> established_remote_addr s = \<lparr>ip = server_ip, port = prt\<rparr>
     \<and> swnds h (wnd_send s) = Some w \<and> rwnds h (wnd_recv s) = Some r \<and> timers h (rtt_timer s) = Some t"

lemma tcp_connect_begin_effect:
  assumes f: "fresh_sock h p s w r t" and name: "name_of h = Client"
  shows "\<exists>h' s' t'. tcp_connect_begin p \<lparr>ip = server_ip, port = prt\<rparr> h = Inr h'
    \<and> connecting h' p prt s' w r t' \<and> wire h' = wire h @ [segment 5678 prt 0 0 SYN 100 []]
    \<and> started t' = 1 \<and> threads h' (timer_thread t') = Some \<lparr>th_sock = p, th_limit = 3, th_since = clock h\<rparr>
    \<and> is_f32 (estimated_rtt t') \<and> is_f32 (dev_rtt t') \<and> clock h' = clock h \<and> poll_delay h' = poll_delay h
    \<and> s' = s\<lparr>established_remote_addr := \<lparr>ip = server_ip, port = prt\<rparr>,
        established_local_addr := \<lparr>ip = client_ip, port = 5678\<rparr>, bind_addr := \<lparr>ip = server_ip, port = prt\<rparr>,
        finished_handshake := 0, state := SYN_SENT, interrupt_signal := 0\<rparr>
    \<and> dev_rtt t' = 3 \<and> blocks h' = blocks h
    \<and> threads h' = (threads h)(timer_thread t' \<mapsto> \<lparr>th_sock = p, th_limit = 3, th_since = clock h\<rparr>)"
proof -
  let ?s = "s\<lparr>established_remote_addr := \<lparr>ip = server_ip, port = prt\<rparr>,
    established_local_addr := \<lparr>ip = client_ip, port = 5678\<rparr>, bind_addr := \<lparr>ip = server_ip, port = prt\<rparr>,
    finished_handshake := 0, state := SYN_SENT\<rparr>"
  let ?h1 = "h\<lparr>socks := (socks h)(p \<mapsto> ?s), is_server := False,
    connect_sock := (connect_sock h)(pair_hash prt 5678 := p)\<rparr>"
  have s: "heap_ok h" "socks h p = Some s" "timers h (rtt_timer s) = Some t" "started t = 0" "timeout t = 3"
    "received_len s = 0" "estimated_rtt t = 3" "dev_rtt t = 3" "swnds h (wnd_send s) = Some w" "rwnds h (wnd_recv s) = Some r"
    using f by (simp_all add: fresh_sock_def)
  have start: "tcp_start_timer p ?h1 = Inr (launched p ?s t ?h1)"
    using s by (intro tcp_start_timer_idle) (simp_all add: timer_idle_def)
  let ?h2 = "(launched p ?s t ?h1)\<lparr>wire := wire h @ [segment 5678 prt 0 0 SYN 100 []]\<rparr>"
  have "tcp_connect_begin p \<lparr>ip = server_ip, port = prt\<rparr> h = Inr ?h2"
    using s start name
    by (simp add: tcp_connect_begin_def update_sock_def Let_def pair_hash_client create_control
        sendToLayer3_control to_u16_def)
  moreover have "heap_ok ?h2"
    using s(1) heap_ok_bound(1) [OF s(1,2)] heap_ok_bound(6) [OF s(1,3)] by (auto simp: heap_ok_def)
  ultimately show ?thesis
    using s name
    by (intro exI [of _ ?h2] exI [of _ "?s\<lparr>interrupt_signal := 0\<rparr>"]
        exI [of _ "t\<lparr>started := 1, timer_thread := next_tid h\<rparr>"])
      (simp add: connecting_def is_f32_def fl32_3_12)
qed

lemma client_receives_syn_ack:
  assumes con: "connecting h p prt s w r t" and run: "timer_running h p t th"
    and pkt: "pkt = segment prt 5678 sq ack (SYN OR ACK) adv []"
  shows "\<exists>h' i. onTCPPocket junk pkt h = Inr (0, h')
    \<and> socks h' p = Some (s\<lparr>interrupt_signal := i, state := ESTABLISHED\<rparr>)
    \<and> swnds h' (wnd_send s) = Some (w\<lparr>rwnd := adv\<rparr>) \<and> rwnds h' (wnd_recv s) = Some (r\<lparr>expect_seq := sq\<rparr>)
    \<and> wire h' = wire h @ [segment 5678 prt (sq + 1) (sq + 1) ACK 100 []]
    \<and> connect_sock h' = connect_sock h \<and> send_threads h' = send_threads h
    \<and> timers h' (rtt_timer s) = Some ((updated t)\<lparr>started := 0\<rparr>) \<and> heap_ok h'
    \<and> threads h' = (threads h)(timer_thread t := None)
    \<and> h' = h\<lparr>socks := socks h', swnds := swnds h', rwnds := rwnds h', timers := timers h',
            threads := threads h', clock := clock h', wire := wire h'\<rparr>"
proof -
  have c: "heap_ok h" "name_of h = Client" "\<not> is_server h" "connect_sock h (pair_hash prt 5678) = p"
    "socks h p = Some s" "state s = SYN_SENT" "received_len s = 0" "established_local_addr s = \<lparr>ip = client_ip, port = 5678\<rparr>"
    "swnds h (wnd_send s) = Some w" "rwnds h (wnd_recv s) = Some r" "timers h (rtt_timer s) = Some t"
    using con by (simp_all add: connecting_def)
  have "p \<noteq> NULL"
    using heap_ok_bound(1) [OF c(1,5)] by simp
  then have "onTCPPocket junk pkt h = tcp_rcv_state_client p pkt \<lparr>ip = server_ip, port = prt\<rparr> h"
    using onTCPPocket_client [of "[]" h pkt prt 5678 sq ack "SYN OR ACK" adv junk] c pkt
    by (simp add: dispatch_client_def is_fin_def dispatch_new_def get_listen_sock_def get_connect_sock_def
        pair_hash_client)
  moreover have "expected_after pkt = sq"
    by (simp add: expected_after_def pkt get_plen_segment)
  moreover obtain i h' where h': "tcp_rcv_state_client p pkt \<lparr>ip = server_ip, port = prt\<rparr> h = Inr (0, h')"
    "socks h' = (socks h)(p \<mapsto> s\<lparr>interrupt_signal := i, state := ESTABLISHED\<rparr>)"
    "swnds h' = (swnds h)(wnd_send s \<mapsto> w\<lparr>rwnd := get_advertised_window pkt\<rparr>)"
    "rwnds h' = (rwnds h)(wnd_recv s \<mapsto> r\<lparr>expect_seq := expected_after pkt\<rparr>)"
    "timers h' = (timers h)(rtt_timer s \<mapsto> (updated t)\<lparr>started := 0\<rparr>)" "threads h' = (threads h)(timer_thread t := None)"
    and fr: "h' = h\<lparr>socks := socks h', swnds := swnds h', rwnds := rwnds h', timers := timers h',
            threads := threads h', clock := clock h', wire := wire h'\<rparr>"
    and w: "wire h' = wire h @ [segment (port (established_local_addr s)) (port \<lparr>ip = server_ip, port = prt\<rparr>)
          (get_seq pkt + 1) (get_seq pkt + 1) ACK (to_u16 (100 - received_len s)) []]"
    using client_syn_ack_effect [OF c(5,6,9,10,11) disjI2 [OF run], of pkt "\<lparr>ip = server_ip, port = prt\<rparr>"] c(2) pkt run
    by auto
  moreover have "connect_sock h' = connect_sock h" "send_threads h' = send_threads h" "next_ptr h' = next_ptr h"
    "blocks h' = blocks h" "queues h' = queues h" "nodes h' = nodes h"
    by (subst fr, simp)+
  moreover from this have "heap_ok h'"
    using c(1) heap_ok_bound(1) [OF c(1,5)] heap_ok_bound(4) [OF c(1,9)] heap_ok_bound(5) [OF c(1,10)]
      heap_ok_bound(6) [OF c(1,11)]
    by (auto simp: heap_ok_def h')
  ultimately show ?thesis
    using c fr by (intro exI [of _ h'] exI [of _ i]) (simp add: pkt to_u16_def)
qed

section \<open>The three-way handshake\<close>

text \<open>
  A client and a server that open a connection: \<open>tcp_connect\<close> on the client, \<open>tcp_bind\<close>,
  \<open>tcp_listen\<close> and \<open>tcp_accept\<close> on the server, each host receiving what the other sent
  last, and both calls finishing once what they wait for holds. The results of all calls
  are returned with the hosts.
\<close>

definition open_connection ::
  "tju_tcp_t \<Rightarrow> memory_junk \<Rightarrow> ptr \<Rightarrow> ptr \<Rightarrow> ptr \<Rightarrow> u16 \<Rightarrow> host \<Rightarrow> host \<Rightarrow> (int list \<times> host \<times> host) outcome" where
  "open_connection junk j p l cs prt A B =
     bindE (tcp_connect_begin p \<lparr>ip = server_ip, port = prt\<rparr> A) (\<lambda>A.
     bindE (tcp_bind l \<lparr>ip = server_ip, port = prt\<rparr> B) (\<lambda>(_, B).
     bindE (tcp_listen l B) (\<lambda>(_, B).
     bindE (tcp_accept_begin l cs B) (\<lambda>B.
     bindE (onTCPPocket junk (last (wire A)) B) (\<lambda>(r1, B).
     bindE (onTCPPocket junk (last (wire B)) A) (\<lambda>(r2, A).
     bindE (onTCPPocket junk (last (wire A)) B) (\<lambda>(r3, B).
     bindE (connect_ready p A) (\<lambda>c. bindE (accept_ready l B) (\<lambda>a.
     bindE (requireE (c \<and> a) Blocked) (\<lambda>_.
     bindE (tcp_connect_finish p A) (\<lambda>(r4, A).
     bindE (tcp_accept_finish j l cs B) (\<lambda>(r5, B). Inr ([r1, r2, r3, r4, r5], A, B)))))))))))))"

lemma listen_effect:
  assumes f: "fresh_sock h l s w r t" and name: "name_of h = Server" and cs: "socks h cs = Some x" "cs \<noteq> l"
  shows "\<exists>h1 h2 h' s'. tcp_bind l \<lparr>ip = server_ip, port = prt\<rparr> h = Inr (0, h1) \<and> tcp_listen l h1 = Inr (0, h2)
    \<and> tcp_accept_begin l cs h2 = Inr h' \<and> listening h' l prt s' w r t
    \<and> s' = s\<lparr>bind_addr := \<lparr>ip = server_ip, port = prt\<rparr>, state := LISTEN, listen_state := (\<lambda>_. LISTEN)\<rparr>
    \<and> socks h' = (socks h)(l \<mapsto> s', cs \<mapsto> s') \<and> two_queues h' (syn_queue s') 0 [] (accept_queue s') 0 []
    \<and> established_queue h' = established_queue h \<and> clock h' = clock h \<and> poll_delay h' = poll_delay h
    \<and> send_threads h' = send_threads h \<and> next_ptr h' = next_ptr h \<and> blocks h' = blocks h
    \<and> wire h' = wire h"
proof -
  let ?s = "s\<lparr>bind_addr := \<lparr>ip = server_ip, port = prt\<rparr>, state := LISTEN, listen_state := (\<lambda>_. LISTEN)\<rparr>"
  let ?h1 = "h\<lparr>socks := (socks h)(l \<mapsto> s\<lparr>bind_addr := \<lparr>ip = server_ip, port = prt\<rparr>\<rparr>)\<rparr>"
  let ?h2 = "h\<lparr>listen_queue := (listen_queue h)(listen_hash prt := l), socks := (socks h)(l \<mapsto> ?s), is_server := True\<rparr>"
  let ?h' = "h\<lparr>listen_queue := (listen_queue h)(listen_hash prt := l), is_server := True,
    socks := (socks h)(l \<mapsto> ?s, cs \<mapsto> ?s)\<rparr>"
  have h: "heap_ok h" "socks h l = Some s" "swnds h (wnd_send s) = Some w" "rwnds h (wnd_recv s) = Some r"
    "timers h (rtt_timer s) = Some t" "two_queues h (syn_queue s) 0 [] (accept_queue s) 0 []"
    using f by (simp_all add: fresh_sock_def)
  have "tcp_bind l \<lparr>ip = server_ip, port = prt\<rparr> h = Inr (0, ?h1)"
    using h by (simp add: tcp_bind_def update_sock_def)
  moreover have "tcp_listen l ?h1 = Inr (0, ?h2)"
    using h by (simp add: tcp_listen_def update_sock_def listen_hash_def Let_def)
  moreover have "tcp_accept_begin l cs ?h2 = Inr ?h'"
    using cs by (simp add: tcp_accept_begin_def copy_sock_def)
  moreover have "heap_ok ?h'"
    using h(1) heap_ok_bound(1) [OF h(1) cs(1)] heap_ok_bound(1) [OF h(1,2)] by (auto simp: heap_ok_def)
  moreover have "two_queues ?h' (syn_queue s) 0 [] (accept_queue s) 0 []"
    using h(6) by (simp add: two_queues_def q_rep_def)
  ultimately show ?thesis
    using h name cs
    by (intro exI [of _ ?h1] exI [of _ ?h2] exI [of _ ?h'] exI [of _ ?s]) (simp add: listening_def fun_upd_twist)
qed

lemma client_opens:
  assumes A: "fresh_sock A p sA wA rA tA" "name_of A = Client" "poll_delay A < 3"
  shows "\<exists>A1 A2 A3 s w r i t. tcp_connect_begin p \<lparr>ip = server_ip, port = prt\<rparr> A = Inr A1
    \<and> wire A1 = wire A @ [segment 5678 prt 0 0 SYN 100 []]
    \<and> onTCPPocket junk (segment prt 5678 22 1 (SYN OR ACK) 100 []) A1 = Inr (0, A2)
    \<and> wire A2 = wire A1 @ [segment 5678 prt 23 23 ACK 100 []]
    \<and> connect_ready p A2 = Inr True \<and> tcp_connect_finish p A2 = Inr (0, A3)
    \<and> client_side A3 p prt s r \<and> expect_seq r = 0 \<and> p \<in> set (send_threads A3)
    \<and> s = sA\<lparr>established_remote_addr := \<lparr>ip = server_ip, port = prt\<rparr>,
        established_local_addr := \<lparr>ip = client_ip, port = 5678\<rparr>, bind_addr := \<lparr>ip = server_ip, port = prt\<rparr>,
        finished_handshake := 0, state := ESTABLISHED, interrupt_signal := i\<rparr>
    \<and> w = wA\<lparr>rwnd := 100, base := 0, nextseq := 0\<rparr> \<and> swnds A3 (wnd_send s) = Some w
    \<and> timers A3 (rtt_timer s) = Some ((updated t)\<lparr>started := 0\<rparr>) \<and> dev_rtt t = 3
    \<and> blocks A3 = blocks A \<and> poll_delay A3 = poll_delay A \<and> wire A3 = wire A2
    \<and> (\<forall>tid th. threads A3 tid = Some th \<longrightarrow> threads A tid = Some th)"
proof -
  obtain A1 s1 t1 where A1: "tcp_connect_begin p \<lparr>ip = server_ip, port = prt\<rparr> A = Inr A1"
    "connecting A1 p prt s1 wA rA t1" "wire A1 = wire A @ [segment 5678 prt 0 0 SYN 100 []]"
    "started t1 = 1" "threads A1 (timer_thread t1) = Some \<lparr>th_sock = p, th_limit = 3, th_since = clock A\<rparr>"
    "is_f32 (estimated_rtt t1)" "is_f32 (dev_rtt t1)" "clock A1 = clock A" "poll_delay A1 = poll_delay A"
    and s1: "s1 = sA\<lparr>established_remote_addr := \<lparr>ip = server_ip, port = prt\<rparr>,
        established_local_addr := \<lparr>ip = client_ip, port = 5678\<rparr>, bind_addr := \<lparr>ip = server_ip, port = prt\<rparr>,
        finished_handshake := 0, state := SYN_SENT, interrupt_signal := 0\<rparr>"
    and t1: "dev_rtt t1 = 3" "blocks A1 = blocks A"
    and th1: "threads A1 = (threads A)(timer_thread t1 \<mapsto> \<lparr>th_sock = p, th_limit = 3, th_since = clock A\<rparr>)"
    using tcp_connect_begin_effect [OF A(1,2), of prt] by blast
  have runA: "timer_running A1 p t1 \<lparr>th_sock = p, th_limit = 3, th_since = clock A\<rparr>"
    using A1(4-9) A(3) by (simp add: timer_running_def)
  have add: "(22 :: u32) + 1 = 23"
    by simp
  obtain A2 i where A2: "onTCPPocket junk (segment prt 5678 22 1 (SYN OR ACK) 100 []) A1 = Inr (0, A2)"
    "socks A2 p = Some (s1\<lparr>interrupt_signal := i, state := ESTABLISHED\<rparr>)"
    "swnds A2 (wnd_send s1) = Some (wA\<lparr>rwnd := 100\<rparr>)" "rwnds A2 (wnd_recv s1) = Some (rA\<lparr>expect_seq := 22\<rparr>)"
    "wire A2 = wire A1 @ [segment 5678 prt 23 23 ACK 100 []]" "send_threads A2 = send_threads A1"
    "timers A2 (rtt_timer s1) = Some ((updated t1)\<lparr>started := 0\<rparr>)" "heap_ok A2"
    and th2: "threads A2 = (threads A1)(timer_thread t1 := None)"
    and fr: "A2 = A1\<lparr>socks := socks A2, swnds := swnds A2, rwnds := rwnds A2, timers := timers A2,
            threads := threads A2, clock := clock A2, wire := wire A2\<rparr>"
    using client_receives_syn_ack [where sq = 22 and ack = 1 and adv = 100 and junk = junk,
        OF A1(2) runA refl] unfolding add by blast
  have same: "name_of A2 = name_of A1" "is_server A2 = is_server A1" "blocks A2 = blocks A1" "poll_delay A2 = poll_delay A1"
    by (subst fr, simp)+
  let ?A3 = "A2\<lparr>send_threads := send_threads A2 @ [p], connect_sock := (connect_sock A2)(pair_hash prt 5678 := p),
    rwnds := (rwnds A2)(wnd_recv s1 \<mapsto> rA\<lparr>expect_seq := 0\<rparr>),
    swnds := (swnds A2)(wnd_send s1 \<mapsto> wA\<lparr>rwnd := 100, base := 0, nextseq := 0\<rparr>)\<rparr>"
  let ?s = "s1\<lparr>interrupt_signal := i, state := ESTABLISHED\<rparr>"
  have con: "established_remote_addr s1 = \<lparr>ip = server_ip, port = prt\<rparr>"
    "established_local_addr s1 = \<lparr>ip = client_ip, port = 5678\<rparr>" "name_of A1 = Client" "\<not> is_server A1"
    using A1(2) by (simp_all add: connecting_def)
  have fin: "connect_ready p A2 = Inr True" "tcp_connect_finish p A2 = Inr (0, ?A3)"
    using A2 con by (simp_all add: connect_ready_def tcp_connect_finish_def create_send_thread_def
        reset_windows_def pair_hash_client Let_def)
  have "heap_ok ?A3"
    using A2(8) heap_ok_bound(4) [OF A2(8,3)] heap_ok_bound(5) [OF A2(8,4)] by (auto simp: heap_ok_def)
  then have cs: "client_side ?A3 p prt ?s (rA\<lparr>expect_seq := 0\<rparr>)"
    using A2 con same by (simp add: client_side_def)
  show ?thesis
    by (rule exI [of _ A1], rule exI [of _ A2], rule exI [of _ ?A3], rule exI [of _ ?s],
        rule exI [of _ "wA\<lparr>rwnd := 100, base := 0, nextseq := 0\<rparr>"], rule exI [of _ "rA\<lparr>expect_seq := 0\<rparr>"],
        rule exI [of _ i], rule exI [of _ t1])
      (use A1(1,3,9) A2 fin con same s1 t1 cs th1 th2 in simp)
qed

lemma server_opens:
  assumes B: "fresh_sock B l sB wB rB tB" "name_of B = Server" "poll_delay B < 3"
    and none: "established_queue B (pair_hash prt 5678) = NULL" and cs: "socks B cs = Some x" "cs \<noteq> l"
  shows "\<exists>B1 B2 B3 B4 B5 B6 c w r t. tcp_bind l \<lparr>ip = server_ip, port = prt\<rparr> B = Inr (0, B1)
    \<and> tcp_listen l B1 = Inr (0, B2) \<and> tcp_accept_begin l cs B2 = Inr B3
    \<and> onTCPPocket junk (segment 5678 prt 0 0 SYN 100 []) B3 = Inr (0, B4)
    \<and> wire B4 = wire B3 @ [segment prt 5678 22 1 (SYN OR ACK) 100 []]
    \<and> onTCPPocket junk (segment 5678 prt 23 23 ACK 100 []) B4 = Inr (0, B5)
    \<and> accept_ready l B5 = Inr True \<and> tcp_accept_finish j l cs B5 = Inr (0, B6)
    \<and> server_side B6 cs prt c r \<and> expect_seq r = 0 \<and> cs \<in> set (send_threads B6)
    \<and> c = sB\<lparr>bind_addr := \<lparr>ip = server_ip, port = prt\<rparr>, state := ESTABLISHED, listen_state := (\<lambda>_. LISTEN),
        established_local_addr := \<lparr>ip = server_ip, port = prt\<rparr>,
        established_remote_addr := \<lparr>ip = client_ip, port = 5678\<rparr>\<rparr>
    \<and> w = wB\<lparr>rwnd := 100, base := 0, nextseq := 0\<rparr> \<and> swnds B6 (wnd_send c) = Some w
    \<and> blocks B6 = blocks B \<and> timers B6 (rtt_timer c) = Some t \<and> started t = 0
    \<and> wire B6 = wire B @ [segment prt 5678 22 1 (SYN OR ACK) 100 []]"
proof -
  obtain B1 B2 B3 s3 where B3: "tcp_bind l \<lparr>ip = server_ip, port = prt\<rparr> B = Inr (0, B1)"
    "tcp_listen l B1 = Inr (0, B2)" "tcp_accept_begin l cs B2 = Inr B3" "listening B3 l prt s3 wB rB tB"
    and s3: "s3 = sB\<lparr>bind_addr := \<lparr>ip = server_ip, port = prt\<rparr>, state := LISTEN, listen_state := (\<lambda>_. LISTEN)\<rparr>"
    and B3': "socks B3 = (socks B)(l \<mapsto> s3, cs \<mapsto> s3)" "two_queues B3 (syn_queue s3) 0 [] (accept_queue s3) 0 []"
    "established_queue B3 = established_queue B" "clock B3 = clock B" "poll_delay B3 = poll_delay B"
    "send_threads B3 = send_threads B" "next_ptr B3 = next_ptr B" "blocks B3 = blocks B" "wire B3 = wire B"
    using listen_effect [OF B(1,2) cs] by blast
  have tB: "started tB = 0" "timeout tB = 3" "estimated_rtt tB = 3" "dev_rtt tB = 3" "heap_ok B"
    using B(1) by (simp_all add: fresh_sock_def)
  have idle: "timer_idle B3 tB"
    using tB by (simp add: timer_idle_def)
  obtain B4 s4 t4 c where B4: "onTCPPocket junk (segment 5678 prt 0 0 SYN 100 []) B3 = Inr (0, B4)"
    "listening B4 l prt s4 (wB\<lparr>rwnd := 100\<rparr>) (rB\<lparr>expect_seq := 0\<rparr>) t4" "c \<noteq> l"
    and s4: "s4 = s3\<lparr>established_remote_addr := \<lparr>ip = client_ip, port = 5678\<rparr>,
        listen_state := (listen_state s3)(pair_hash prt 5678 := SYN_RECV), saved_syn := 0, interrupt_signal := 0\<rparr>"
    and B4': "socks B4 = (socks B3)(c \<mapsto> junk\<lparr>bind_addr := \<lparr>ip = client_ip, port = 5678\<rparr>\<rparr>, l \<mapsto> s4)" "next_ptr B3 \<le> c"
    and t4: "t4 = tB\<lparr>started := 1, timer_thread := next_tid B3\<rparr>"
    "threads B4 (next_tid B3) = Some \<lparr>th_sock = l, th_limit = timeout tB, th_since = clock B3\<rparr>"
    "clock B4 = clock B3" "poll_delay B4 = poll_delay B3"
    and tq4: "two_queues B4 (syn_queue s3) 1 [(c + 1, c)] (accept_queue s3) 0 []"
    and e4: "established_queue B4 = established_queue B3" "next_ptr B3 \<le> next_ptr B4"
    "blocks B4 = blocks B3"
    and w4: "wire B4 = wire B3 @ [segment prt 5678 22 1 (SYN OR ACK) 100 []]"
    using server_receives_syn [where cprt = 5678 and sq = 0 and ack = 0 and adv = 100 and junk = junk,
        OF B3(4) _ _ idle B3'(2) refl] none B3'(3) s3
    by auto
  have runB: "timer_running B4 l t4 \<lparr>th_sock = l, th_limit = timeout tB, th_since = clock B3\<rparr>"
    using t4 tB B(3) B3'(5) by (simp add: timer_running_def is_f32_def fl32_3_12)
  have csb: "cs < c" "socks B4 cs = Some s3"
    using heap_ok_bound(1) [OF tB(5) cs(1)] B4'(2) B3'(7) cs(2) by (auto simp: B4' B3')
  obtain B5 s5 t5 d k where B5: "onTCPPocket junk (segment 5678 prt 23 23 ACK 100 []) B4 = Inr (0, B5)"
    "listening B5 l prt s5 (wB\<lparr>rwnd := 100\<rparr>) (rB\<lparr>expect_seq := 23\<rparr>) t5" "started t5 = 0" "wire B5 = wire B4"
    and s5: "s5 = s4\<lparr>interrupt_signal := k, listen_state := (listen_state s4)(pair_hash prt 5678 := ESTABLISHED)\<rparr>"
    and B5': "socks B5 = (socks B4)(l \<mapsto> s5, d \<mapsto> junk\<lparr>bind_addr := \<lparr>ip = client_ip, port = 5678\<rparr>, state := ESTABLISHED\<rparr>)"
    "next_ptr B4 \<le> d" "two_queues B5 (syn_queue s4) 1 [] (accept_queue s4) 1 [(d + 1, d)]"
    "established_queue B5 = established_queue B4" "blocks B5 = blocks B4"
    using server_receives_ack [where cprt = 5678 and a = "c + 1" and sq = 23 and ack = 23 and adv = 100
        and junk = junk and v = "junk\<lparr>bind_addr := \<lparr>ip = client_ip, port = 5678\<rparr>\<rparr>",
        OF B4(2) _ _ _ runB _ _ B4(3) refl] none B3'(3) e4 tq4 s4 B4' B4(3)
    by auto
  have cs5: "socks B5 cs = Some s3"
    using csb B5'(2) e4(2) B4'(2) cs(2) heap_ok_bound(1) [OF tB(5) cs(1)] B3'(7) by (auto simp: B5'(1))
  have d5: "socks B5 d = Some (junk\<lparr>bind_addr := \<lparr>ip = client_ip, port = 5678\<rparr>, state := ESTABLISHED\<rparr>)"
    by (simp add: B5'(1))
  obtain B6 where B6: "accept_ready l B5 = Inr True" "tcp_accept_finish j l cs B5 = Inr (0, B6)"
    "socks B6 cs = Some (s3\<lparr>established_local_addr := \<lparr>ip = server_ip, port = prt\<rparr>,
       established_remote_addr := \<lparr>ip = client_ip, port = 5678\<rparr>, state := ESTABLISHED\<rparr>)"
    "established_queue B6 = (established_queue B5)(pair_hash prt 5678 := cs)"
    "swnds B6 (wnd_send s3) = Some (wB\<lparr>rwnd := 100, base := 0, nextseq := 0\<rparr>)"
    "rwnds B6 (wnd_recv s3) = Some (rB\<lparr>expect_seq := 23, expect_seq := 0\<rparr>)"
    "send_threads B6 = send_threads B5 @ [cs]" "heap_ok B6" "name_of B6 = Server" "is_server B6" "blocks B6 = blocks B5"
    "timers B6 = timers B5" "wire B6 = wire B5"
    using tcp_accept_finish_effect [where k = 1 and xs = "[]" and b = "d + 1" and cprt = 5678 and j = j,
        OF B5(2) _ d5 _ cs5 _ _ cs(2)] B5'(3) s5 s4
    by auto
  let ?c = "s3\<lparr>established_local_addr := \<lparr>ip = server_ip, port = prt\<rparr>,
       established_remote_addr := \<lparr>ip = client_ip, port = 5678\<rparr>, state := ESTABLISHED\<rparr>"
  have ss: "server_side B6 cs prt ?c (rB\<lparr>expect_seq := 0\<rparr>)"
    using B6 by (simp add: server_side_def)
  have t5: "timers B5 (rtt_timer s3) = Some t5"
    using B5(2) s5 s4 by (simp add: listening_def)
  show ?thesis
    by (rule exI [of _ B1], rule exI [of _ B2], rule exI [of _ B3], rule exI [of _ B4], rule exI [of _ B5],
        rule exI [of _ B6], rule exI [of _ ?c], rule exI [of _ "wB\<lparr>rwnd := 100, base := 0, nextseq := 0\<rparr>"],
        rule exI [of _ "rB\<lparr>expect_seq := 0\<rparr>"], rule exI [of _ t5])
      (use B3(1-3) B4(1) w4 B5(1,3,4) B6 s3 B3'(8,9) e4(3) B5'(5) ss t5 in simp)
qed

text \<open>
  C7: The three-way handshake establishes the connection. Between a client and a server with
  new sockets, the \<open>SYN\<close>, the \<open>SYN|ACK\<close> and the \<open>ACK\<close> are exchanged, every call succeeds,
  both sockets are \<open>ESTABLISHED\<close> with each other's address, both are registered, all
  sequence numbers start at 0, and both have a sending thread.
\<close>

theorem three_way_handshake:
  assumes A: "fresh_sock A p sA wA rA tA" "name_of A = Client" "poll_delay A < 3"
    and B: "fresh_sock B l sB wB rB tB" "name_of B = Server" "poll_delay B < 3"
    and none: "established_queue B (pair_hash prt 5678) = NULL" and cs: "socks B cs = Some x" "cs \<noteq> l"
  shows "\<exists>A' B' s c. open_connection junk j p l cs prt A B = Inr ([0, 0, 0, 0, 0], A', B')
    \<and> socks A' p = Some s \<and> state s = ESTABLISHED \<and> socks B' cs = Some c \<and> state c = ESTABLISHED
    \<and> established_local_addr s = established_remote_addr c \<and> established_remote_addr s = established_local_addr c
    \<and> connect_sock A' (pair_hash prt 5678) = p \<and> established_queue B' (pair_hash prt 5678) = cs
    \<and> (\<exists>w r. swnds A' (wnd_send s) = Some w \<and> rwnds A' (wnd_recv s) = Some r
         \<and> base w = 0 \<and> nextseq w = 0 \<and> expect_seq r = 0)
    \<and> (\<exists>w r. swnds B' (wnd_send c) = Some w \<and> rwnds B' (wnd_recv c) = Some r
         \<and> base w = 0 \<and> nextseq w = 0 \<and> expect_seq r = 0)
    \<and> p \<in> set (send_threads A') \<and> cs \<in> set (send_threads B')"
proof -
  obtain A1 A2 A3 s w r i t where A': "tcp_connect_begin p \<lparr>ip = server_ip, port = prt\<rparr> A = Inr A1"
    "wire A1 = wire A @ [segment 5678 prt 0 0 SYN 100 []]"
    "onTCPPocket junk (segment prt 5678 22 1 (SYN OR ACK) 100 []) A1 = Inr (0, A2)"
    "wire A2 = wire A1 @ [segment 5678 prt 23 23 ACK 100 []]"
    "connect_ready p A2 = Inr True" "tcp_connect_finish p A2 = Inr (0, A3)"
    and sA: "client_side A3 p prt s r" "expect_seq r = 0" "p \<in> set (send_threads A3)"
    and s: "s = sA\<lparr>established_remote_addr := \<lparr>ip = server_ip, port = prt\<rparr>,
        established_local_addr := \<lparr>ip = client_ip, port = 5678\<rparr>, bind_addr := \<lparr>ip = server_ip, port = prt\<rparr>,
        finished_handshake := 0, state := ESTABLISHED, interrupt_signal := i\<rparr>"
    and w: "w = wA\<lparr>rwnd := 100, base := 0, nextseq := 0\<rparr>" "swnds A3 (wnd_send s) = Some w"
    using client_opens [OF A, of prt junk] by blast
  obtain B1 B2 B3 B4 B5 B6 c w' r' where B': "tcp_bind l \<lparr>ip = server_ip, port = prt\<rparr> B = Inr (0, B1)"
    "tcp_listen l B1 = Inr (0, B2)" "tcp_accept_begin l cs B2 = Inr B3"
    "onTCPPocket junk (segment 5678 prt 0 0 SYN 100 []) B3 = Inr (0, B4)"
    "wire B4 = wire B3 @ [segment prt 5678 22 1 (SYN OR ACK) 100 []]"
    "onTCPPocket junk (segment 5678 prt 23 23 ACK 100 []) B4 = Inr (0, B5)"
    "accept_ready l B5 = Inr True" "tcp_accept_finish j l cs B5 = Inr (0, B6)"
    and cB: "server_side B6 cs prt c r'" "expect_seq r' = 0" "cs \<in> set (send_threads B6)"
    and c: "c = sB\<lparr>bind_addr := \<lparr>ip = server_ip, port = prt\<rparr>, state := ESTABLISHED, listen_state := (\<lambda>_. LISTEN),
        established_local_addr := \<lparr>ip = server_ip, port = prt\<rparr>,
        established_remote_addr := \<lparr>ip = client_ip, port = 5678\<rparr>\<rparr>"
    and w': "w' = wB\<lparr>rwnd := 100, base := 0, nextseq := 0\<rparr>" "swnds B6 (wnd_send c) = Some w'"
    using server_opens [OF B none cs, of junk j] by blast
  have "open_connection junk j p l cs prt A B = Inr ([0, 0, 0, 0, 0], A3, B6)"
    using A' B' by (simp add: open_connection_def)
  then show ?thesis
    using sA cB w w' unfolding client_side_def server_side_def
    by (intro exI [of _ A3] exI [of _ B6] exI [of _ s] exI [of _ c]) (simp add: s c)
qed

definition example_junk :: memory_junk where
  "example_junk = \<lparr>junk_sock = blank_sock,
     junk_swnd = \<lparr>send_windows = NULL, window_size = 0, base = 0, nextseq = 0, rwnd = 0\<rparr>,
     junk_rwnd = \<lparr>receiver_window = NULL, expect_seq = 0\<rparr>, junk_started = 0,
     junk_block = (\<lambda>n. replicate n 0)\<rparr>"

lemma three_way_handshake_witness:
  "\<exists>A0 B0 p l A B A' B' s c. tcp_socket example_junk A0 = Inr (p, A) \<and> tcp_socket example_junk B0 = Inr (l, B)
    \<and> open_connection blank_sock example_junk p l 1 1234 A B = Inr ([0, 0, 0, 0, 0], A', B')
    \<and> socks A' p = Some s \<and> state s = ESTABLISHED \<and> socks B' 1 = Some c \<and> state c = ESTABLISHED"
proof -
  let ?B0 = "(blank_host Server)\<lparr>socks := [1 \<mapsto> blank_sock], next_ptr := 2\<rparr>"
  have B0: "heap_ok ?B0" "next_ptr ?B0 = 2" "socks ?B0 1 = Some blank_sock" "name_of ?B0 = Server"
    "poll_delay ?B0 = 0" "established_queue ?B0 k = NULL" for k
    by (simp_all add: heap_ok_def blank_host_def)
  have A0: "name_of (blank_host Client) = Client" "poll_delay (blank_host Client) = 0"
    by (simp_all add: blank_host_def)
  obtain A sA wA rA tA where A: "tcp_socket example_junk (blank_host Client) = Inr (next_ptr (blank_host Client), A)"
    "fresh_sock A (next_ptr (blank_host Client)) sA wA rA tA" "name_of A = Client" "poll_delay A < 3"
    using tcp_socket_fresh [OF heap_ok_blank [of Client], of example_junk] A0 by auto
  obtain B sB wB rB tB where B: "tcp_socket example_junk ?B0 = Inr (2, B)" "fresh_sock B 2 sB wB rB tB"
    "name_of B = Server" "poll_delay B < 3" "established_queue B (pair_hash 1234 5678) = NULL"
    "socks B 1 = Some blank_sock"
    using tcp_socket_fresh [OF B0(1), of example_junk] unfolding B0(2) using B0(3-6) by auto
  show ?thesis
    using three_way_handshake [OF A(2-4) B(2-6), of blank_sock example_junk] A(1) B(1)
    by (metis numeral_One semiring_norm(85) numeral_eq_iff)
qed

section \<open>The close\<close>

lemma server_side_dispatch:
  assumes s: "server_side h q prt s r" and len: "22 + length dat < 65536"
    and pkt: "pkt = segment 5678 prt sq ack fl adv dat"
  shows "onTCPPocket junk pkt h
    = (if fl = ACK OR FIN \<or> state s \<noteq> ESTABLISHED then tcp_state_close q pkt h else tju_handle_packet q pkt h)"
proof -
  have "q \<noteq> NULL"
    using s heap_ok_bound(1) [of h q s] by (auto simp: server_side_def)
  then show ?thesis
    using s onTCPPocket_server [OF len _ _ pkt, of h junk] by (simp add: server_side_def dispatch_server_def is_fin_def pkt)
qed

lemma client_side_dispatch:
  assumes s: "client_side h p prt s r" and len: "22 + length dat < 65536" and st: "state s \<noteq> SYN_SENT"
    and pkt: "pkt = segment prt 5678 sq ack fl adv dat"
  shows "onTCPPocket junk pkt h
    = (if fl = ACK OR FIN \<or> state s \<noteq> ESTABLISHED then tcp_state_close p pkt h else tju_handle_packet p pkt h)"
proof -
  have "p \<noteq> NULL"
    using s heap_ok_bound(1) [of h p s] by (auto simp: client_side_def)
  then show ?thesis
    using s st onTCPPocket_client [OF len _ _ pkt, of h junk] by (auto simp: client_side_def dispatch_client_def is_fin_def pkt)
qed

text \<open>The four segments: the client's \<open>FIN\<close>, the server's \<open>ACK\<close> and \<open>FIN\<close>, the client's \<open>ACK\<close>.\<close>

definition close_connection :: "tju_tcp_t \<Rightarrow> ptr \<Rightarrow> host \<Rightarrow> host \<Rightarrow> (int list \<times> host \<times> host) outcome" where
  "close_connection junk p A B =
     bindE (tcp_close_begin p A) (\<lambda>A.
     bindE (onTCPPocket junk (last (wire A)) B) (\<lambda>(r1, B).
     bindE (onTCPPocket junk (last (butlast (wire B))) A) (\<lambda>(r2, A).
     bindE (onTCPPocket junk (last (wire B)) A) (\<lambda>(r3, A).
     bindE (onTCPPocket junk (last (wire A)) B) (\<lambda>(r4, B). Inr ([r1, r2, r3, r4], A, B))))))"

lemma tcp_close_begin_effect:
  assumes c: "client_side h p prt s r" and buf: "received_buf s \<noteq> NULL \<longrightarrow> blocks h (received_buf s) \<noteq> None"
  shows "\<exists>h' s'. tcp_close_begin p h = Inr h' \<and> client_side h' p prt s' r \<and> state s' = FIN_WAIT_1
    \<and> received_len s' = (if received_buf s = NULL then received_len s else 0)
    \<and> wire h' = wire h @ [segment 5678 prt (expect_seq r) (expect_seq r) (ACK OR FIN) 0 []]"
proof -
  have h: "heap_ok h" "name_of h = Client" "socks h p = Some s" "rwnds h (wnd_recv s) = Some r"
    "port (established_local_addr s) = 5678" "port (established_remote_addr s) = prt" "\<not> is_server h"
    "connect_sock h (pair_hash prt 5678) = p"
    using c by (simp_all add: client_side_def)
  let ?seg = "segment 5678 prt (expect_seq r) (expect_seq r) (ACK OR FIN) 0 []"
  show ?thesis
  proof (cases "received_buf s = NULL")
    case True
    let ?h = "h\<lparr>socks := (socks h)(p \<mapsto> s\<lparr>state := FIN_WAIT_1\<rparr>), wire := wire h @ [?seg]\<rparr>"
    have "tcp_close_begin p h = Inr ?h"
      using h True by (simp add: tcp_close_begin_def update_sock_def send_control_effect(1) control_def)
    moreover have "heap_ok ?h"
      using heap_ok_updates(5) [OF heap_ok_updates(1) [OF h(1,3)]] by simp
    ultimately show ?thesis
      using h True by (intro exI [of _ ?h] exI [of _ "s\<lparr>state := FIN_WAIT_1\<rparr>"]) (simp add: client_side_def)
  next
    case False
    let ?s = "s\<lparr>received_len := 0, received_buf := NULL, state := FIN_WAIT_1\<rparr>"
    let ?h = "h\<lparr>blocks := (blocks h)(received_buf s := None), socks := (socks h)(p \<mapsto> ?s), wire := wire h @ [?seg]\<rparr>"
    have "tcp_close_begin p h = Inr ?h"
      using h False buf by (auto simp: tcp_close_begin_def update_sock_def send_control_effect(1) control_def)
    moreover have "heap_ok ?h"
      using h(1) heap_ok_bound(1) [OF h(1,3)] by (auto simp: heap_ok_def)
    ultimately show ?thesis
      using h False by (intro exI [of _ ?h] exI [of _ ?s]) (simp add: client_side_def)
  qed
qed

lemma server_receives_fin:
  assumes s: "server_side h q prt s r" "state s = ESTABLISHED" and pkt: "pkt = segment 5678 prt sq ack (ACK OR FIN) adv []"
  shows "\<exists>h' s'. onTCPPocket junk pkt h = Inr (0, h') \<and> server_side h' q prt s' r \<and> state s' = LAST_ACK
    \<and> wire h' = wire h @ [segment prt 5678 (expect_seq r) (expect_seq r) ACK (to_u16 (100 - received_len s)) [],
                          segment prt 5678 (expect_seq r) (expect_seq r) (ACK OR FIN) 0 []]
    \<and> clock h' = clock h + 2"
proof -
  have h: "heap_ok h" "name_of h = Server" "socks h q = Some s" "rwnds h (wnd_recv s) = Some r" "is_server h"
    "port (established_local_addr s) = prt" "port (established_remote_addr s) = 5678"
    "established_queue h (pair_hash prt 5678) = q"
    using s by (simp_all add: server_side_def)
  let ?h = "h\<lparr>clock := clock h + 2, socks := (socks h)(q \<mapsto> s\<lparr>state := LAST_ACK\<rparr>), wire := wire h
    @ [segment prt 5678 (expect_seq r) (expect_seq r) ACK (to_u16 (100 - received_len s)) [],
       segment prt 5678 (expect_seq r) (expect_seq r) (ACK OR FIN) 0 []]\<rparr>"
  have "tcp_state_close q pkt h = Inr (0, ?h)"
    using h s(2) by (simp add: tcp_state_close_def pkt update_sock_def send_control_effect(1,4) control_def sleep_def Let_def)
  then have "onTCPPocket junk pkt h = Inr (0, ?h)"
    using server_side_dispatch [OF s(1) _ pkt, of junk] by simp
  moreover have "heap_ok ?h"
    using h(1) heap_ok_bound(1) [OF h(1,3)] by (auto simp: heap_ok_def)
  ultimately show ?thesis
    using h by (intro exI [of _ ?h] exI [of _ "s\<lparr>state := LAST_ACK\<rparr>"]) (simp add: server_side_def)
qed

lemma client_receives_close_ack:
  assumes s: "client_side h p prt s r" "state s = FIN_WAIT_1" and pkt: "pkt = segment prt 5678 sq ack ACK adv []"
  shows "\<exists>h' s'. onTCPPocket junk pkt h = Inr (0, h') \<and> client_side h' p prt s' r \<and> state s' = FIN_WAIT_2
    \<and> received_len s' = received_len s \<and> wire h' = wire h"
proof -
  have h: "heap_ok h" "socks h p = Some s"
    using s by (simp_all add: client_side_def)
  let ?h = "h\<lparr>socks := (socks h)(p \<mapsto> s\<lparr>state := FIN_WAIT_2\<rparr>)\<rparr>"
  have "onTCPPocket junk pkt h = Inr (0, ?h)"
    using client_side_dispatch [OF s(1) _ _ pkt, of junk] s(2) h
    by (simp add: tcp_state_close_def pkt update_sock_def Let_def)
  then show ?thesis
    using s(1) heap_ok_updates(1) [OF h]
    by (intro exI [of _ ?h] exI [of _ "s\<lparr>state := FIN_WAIT_2\<rparr>"]) (simp add: client_side_def)
qed

lemma client_receives_fin:
  assumes s: "client_side h p prt s r" "state s = FIN_WAIT_2" and pkt: "pkt = segment prt 5678 sq ack (ACK OR FIN) adv []"
  shows "\<exists>h'. onTCPPocket junk pkt h = Inr (0, h') \<and> socks h' p = None
    \<and> connect_sock h' = connect_sock h \<and> name_of h' = Client \<and> \<not> is_server h'
    \<and> wire h' = wire h @ [segment 5678 prt (expect_seq r) (expect_seq r) ACK (to_u16 (100 - received_len s)) []]"
proof -
  have h: "heap_ok h" "socks h p = Some s" "rwnds h (wnd_recv s) = Some r" "name_of h = Client" "\<not> is_server h"
    "port (established_local_addr s) = 5678" "port (established_remote_addr s) = prt"
    using s by (simp_all add: client_side_def)
  have "tcp_state_close p pkt h = Inr (0, free_sock p (sleep 2 (h\<lparr>wire := wire h
      @ [segment 5678 prt (expect_seq r) (expect_seq r) ACK (to_u16 (100 - received_len s)) []],
      socks := (socks h)(p \<mapsto> s\<lparr>state := TIME_WAIT\<rparr>)\<rparr>)))"
    using h s(2) by (simp add: tcp_state_close_def pkt update_sock_def send_control_effect(4) control_def Let_def)
  then show ?thesis
    using client_side_dispatch [OF s(1) _ _ pkt, of junk] s(2) h by (simp add: free_sock_def sleep_def)
qed

lemma server_receives_last_ack:
  assumes s: "server_side h q prt s r" "state s = LAST_ACK" and pkt: "pkt = segment 5678 prt sq ack ACK adv []"
  shows "\<exists>h'. onTCPPocket junk pkt h = Inr (0, h') \<and> socks h' q = None \<and> wire h' = wire h
    \<and> established_queue h' = established_queue h \<and> name_of h' = Server \<and> is_server h'"
  using s server_side_dispatch [OF s(1) _ pkt, of junk]
  by (simp add: server_side_def tcp_state_close_def pkt update_sock_def free_sock_def Let_def)

lemma close_effect:
  assumes A: "client_side A p prt s r" "state s = ESTABLISHED"
    and buf: "received_buf s \<noteq> NULL \<longrightarrow> blocks A (received_buf s) \<noteq> None"
    and B: "server_side B q prt s' r'" "state s' = ESTABLISHED"
  shows "\<exists>A' B'. close_connection junk p A B = Inr ([0, 0, 0, 0], A', B')
    \<and> socks A' p = None \<and> socks B' q = None
    \<and> connect_sock A' (pair_hash prt 5678) = p \<and> established_queue B' (pair_hash prt 5678) = q
    \<and> name_of B' = Server \<and> is_server B' \<and> q \<noteq> NULL"
proof -
  obtain A1 s1 where A1: "tcp_close_begin p A = Inr A1" "client_side A1 p prt s1 r" "state s1 = FIN_WAIT_1"
    "wire A1 = wire A @ [segment 5678 prt (expect_seq r) (expect_seq r) (ACK OR FIN) 0 []]"
    using tcp_close_begin_effect [OF A(1) buf] by blast
  obtain B1 t1 where B1: "onTCPPocket junk (segment 5678 prt (expect_seq r) (expect_seq r) (ACK OR FIN) 0 []) B = Inr (0, B1)"
    "server_side B1 q prt t1 r'" "state t1 = LAST_ACK"
    "wire B1 = wire B @ [segment prt 5678 (expect_seq r') (expect_seq r') ACK (to_u16 (100 - received_len s')) [],
                         segment prt 5678 (expect_seq r') (expect_seq r') (ACK OR FIN) 0 []]"
    using server_receives_fin [OF B refl] by blast
  obtain A2 s2 where A2: "onTCPPocket junk (segment prt 5678 (expect_seq r') (expect_seq r') ACK
      (to_u16 (100 - received_len s')) []) A1 = Inr (0, A2)"
    "client_side A2 p prt s2 r" "state s2 = FIN_WAIT_2"
    using client_receives_close_ack [OF A1(2,3) refl] by blast
  obtain A3 where A3: "onTCPPocket junk (segment prt 5678 (expect_seq r') (expect_seq r') (ACK OR FIN) 0 []) A2 = Inr (0, A3)"
    "socks A3 p = None" "connect_sock A3 = connect_sock A2"
    "wire A3 = wire A2 @ [segment 5678 prt (expect_seq r) (expect_seq r) ACK (to_u16 (100 - received_len s2)) []]"
    using client_receives_fin [OF A2(2,3) refl] by blast
  obtain B2 where B2: "onTCPPocket junk (segment 5678 prt (expect_seq r) (expect_seq r) ACK
      (to_u16 (100 - received_len s2)) []) B1 = Inr (0, B2)" "socks B2 q = None"
    "established_queue B2 = established_queue B1" "name_of B2 = Server" "is_server B2"
    using server_receives_last_ack [OF B1(2,3) refl] by blast
  have q: "established_queue B1 (pair_hash prt 5678) = q" "q \<noteq> NULL" "connect_sock A2 (pair_hash prt 5678) = p"
    using B1(2) A2(2) heap_ok_bound(1) [of B1 q t1] by (auto simp: server_side_def client_side_def)
  have "close_connection junk p A B = Inr ([0, 0, 0, 0], A3, B2)"
    using A1(1) B1(1) A2(1) A3(1) B2(1)
    by (simp add: close_connection_def A1(4) B1(4) A3(4) butlast_append)
  then show ?thesis
    using A3 B2 q by (intro exI [of _ A3] exI [of _ B2]) simp
qed

text \<open>
  C18: Four segments close the connection. When the client calls \<open>tcp_close\<close>, the \<open>FIN\<close>, the
  server's \<open>ACK\<close> and \<open>FIN\<close> and the last \<open>ACK\<close> are all accepted, and both hosts free their
  socket. But the tables keep the addresses of the freed sockets, the application that waits
  in \<open>tcp_close\<close> reads freed memory, and so does the handling of any later segment of the
  connection that is not a \<open>FIN\<close>.
\<close>

theorem four_way_close:
  assumes A: "client_side A p prt s r" "state s = ESTABLISHED"
    and buf: "received_buf s \<noteq> NULL \<longrightarrow> blocks A (received_buf s) \<noteq> None"
    and B: "server_side B q prt s' r'" "state s' = ESTABLISHED"
  shows "\<exists>A' B'. close_connection junk p A B = Inr ([0, 0, 0, 0], A', B')
    \<and> socks A' p = None \<and> socks B' q = None
    \<and> connect_sock A' (pair_hash prt 5678) = p \<and> established_queue B' (pair_hash prt 5678) = q
    \<and> close_ready p A' = Inl (Undefined BadPointer)
    \<and> onTCPPocket junk (segment 5678 prt sq ack NO_FLAG adv []) B' = Inl (Undefined BadPointer)"
proof -
  obtain A' B' where run: "close_connection junk p A B = Inr ([0, 0, 0, 0], A', B')" "socks A' p = None"
    "socks B' q = None" "connect_sock A' (pair_hash prt 5678) = p" "established_queue B' (pair_hash prt 5678) = q"
    and B': "name_of B' = Server" "is_server B'" "q \<noteq> NULL"
    using close_effect [OF assms, of junk] by blast
  have "onTCPPocket junk (segment 5678 prt sq ack NO_FLAG adv []) B' = Inl (Undefined BadPointer)"
    using onTCPPocket_server [OF _ B'(1,2) refl, of "[]" junk 5678 prt sq ack NO_FLAG adv] B'(3) run
    by (simp add: dispatch_server_def is_fin_def)
  then show ?thesis
    using run by (intro exI [of _ A'] exI [of _ B']) (simp add: close_ready_def)
qed

definition closing_host :: "hostname \<Rightarrow> host" where
  "closing_host nm = (let (lp, rp) = (if nm = Client then (5678, 1234) else (1234, 5678)) in (blank_host nm)\<lparr>
     socks := [1 \<mapsto> blank_sock\<lparr>state := ESTABLISHED, wnd_recv := 2, established_local_addr := \<lparr>ip = 0, port = lp\<rparr>,
       established_remote_addr := \<lparr>ip = 0, port = rp\<rparr>\<rparr>],
     rwnds := [2 \<mapsto> \<lparr>receiver_window = NULL, expect_seq = 5\<rparr>], next_ptr := 3, is_server := (nm = Server),
     connect_sock := (\<lambda>_. 1), established_queue := (\<lambda>_. 1)\<rparr>)"

lemma four_way_close_witness:
  "\<exists>A' B'. close_connection blank_sock 1 (closing_host Client) (closing_host Server) = Inr ([0, 0, 0, 0], A', B')
    \<and> socks A' 1 = None \<and> socks B' 1 = None"
proof -
  let ?sock = "\<lambda>nm. the (socks (closing_host nm) 1)" and ?r = "\<lparr>receiver_window = NULL, expect_seq = 5\<rparr>"
  have "client_side (closing_host Client) 1 1234 (?sock Client) ?r" "state (?sock Client) = ESTABLISHED"
    "received_buf (?sock Client) \<noteq> NULL \<longrightarrow> blocks (closing_host Client) (received_buf (?sock Client)) \<noteq> None"
    "server_side (closing_host Server) 1 1234 (?sock Server) ?r" "state (?sock Server) = ESTABLISHED"
    by (simp_all add: closing_host_def client_side_def server_side_def heap_ok_def blank_host_def blank_sock_def)
  from four_way_close [OF this] show ?thesis
    by blast
qed

end
