(* ===== verification/Stream.thy ===== *)
theory Stream
  imports Connection "HOL-Library.Sublist"
begin

text \<open>
  The sender of the data phase. \<open>sender_ok\<close> relates the client's send window, sending buffer
  and sent datagrams to the stream of bytes its application has passed to \<open>tcp_send\<close>; every
  action of the timer keeps it.
\<close>

section \<open>Sending less than the buffer\<close>

text \<open>
  With a payload of \<open>n\<close> bytes and a length field that announces \<open>k \<le> n\<close> of them, the packet
  carries the first \<open>k\<close>. This is what happens when \<open>22 + n\<close> does not fit 16 bits.
\<close>

lemma checksum_loop_take: "k \<le> length d \<Longrightarrow> checksum_loop c d k = checksum_loop c (take k d) k"
  by (simp add: checksum_loop_eq)

lemma create_packet_buf_prefix:
  assumes "unat pl = 22 + k" "k \<le> length dat" "0 < k"
  shows "create_packet_buf src dst seq ack 22 pl fl adv 0 dat (int (length dat))
    = create_packet_buf src dst seq ack 22 pl fl adv 0 (take k dat) (int k)"
  using assms checksum_loop_take [of k dat]
  by (cases "dat = []") (simp_all add: create_packet_buf_def create_packet_def set_checksum_def tcp_compute_checksum_def
      packet_to_buf_def mem_read_def Let_def bindE_def split: sum.split)

lemma create_packet_buf_prefix0:
  "create_packet_buf src dst seq ack 22 22 fl adv 0 dat (int (length dat))
    = create_packet_buf src dst seq ack 22 22 fl adv 0 [] 0"
  by (cases "dat = []") (simp_all add: create_packet_buf_def create_packet_def set_checksum_def tcp_compute_checksum_def
      packet_to_buf_def mem_read_def Let_def)

lemma create_packet_buf_short:
  "unat pl < 22 \<Longrightarrow> create_packet_buf src dst seq ack hl pl fl adv 0 dat len \<noteq> Inr m"
  by (auto simp: create_packet_buf_def packet_to_buf_def header_in_char_short create_packet_def set_checksum_def
      Let_def bindE_eq_Inr_iff)

text \<open>Whatever the length, the packet is a segment with a prefix of the data.\<close>

lemma create_packet_buf_segment:
  assumes "create_packet_buf src dst seq ack 22 (to_u16 (22 + int (length dat))) fl adv 0 dat (int (length dat)) = Inr m"
  shows "\<exists>k \<le> length dat. 22 + k < 65536 \<and> m = segment src dst seq ack fl adv (take k dat)
    \<and> uint (to_u16 (22 + int (length dat))) = int (22 + k)"
proof -
  let ?pl = "to_u16 (22 + int (length dat))"
  have "22 \<le> unat ?pl"
    using create_packet_buf_short assms by (metis not_less)
  then obtain k where k: "unat ?pl = 22 + k"
    using le_Suc_ex by blast
  have "int (unat ?pl) = (22 + int (length dat)) mod 65536"
    using to_u16_uint [of "22 + int (length dat)"] by simp
  also have "\<dots> \<le> 22 + int (length dat)"
    by (rule zmod_le_nonneg_dividend) simp
  finally have le: "k \<le> length dat"
    using k by simp
  have upl: "uint ?pl = int (22 + k)"
    using k by (simp add: uint_nat)
  have lt: "22 + k < 65536"
    using uint_u16_bound(2) [of ?pl] upl by simp
  have pl: "?pl = of_nat (22 + k)"
    unfolding k [symmetric] by simp
  have "m = segment src dst seq ack fl adv (take k dat)"
  proof (cases "k = 0")
    case True
    then show ?thesis
      using assms create_packet_buf_prefix0 create_control by (simp add: pl)
  next
    case False
    then have "create_packet_buf src dst seq ack 22 ?pl fl adv 0 dat (int (length dat))
        = Inr (segment src dst seq ack fl adv (take k dat))"
      using create_packet_buf_prefix [OF k le] create_segment [of "take k dat" src dst seq ack fl adv] le lt
      by (simp add: pl min_absorb2 del: of_nat_add)
    then show ?thesis
      using assms by simp
  qed
  then show ?thesis
    using le lt upl by blast
qed

section \<open>The sender's invariant\<close>

text \<open>
  A datagram of the client is either a data segment whose payload is the part of the sent
  stream \<open>W\<close> at its sequence number, or an acknowledgement of nothing, or the \<open>SYN\<close> of the
  handshake.
\<close>

definition out_ok :: "u16 \<Rightarrow> bytes \<Rightarrow> bytes \<Rightarrow> bool" where
  "out_ok prt W m \<longleftrightarrow>
     (\<exists>q dat adv. m = segment 5678 prt (of_nat q) 0 NO_FLAG adv dat \<and> q + length dat \<le> length W
        \<and> dat = take (length dat) (drop q W) \<and> 22 + length dat \<le> 1400)
     \<or> (\<exists>adv. m = segment 5678 prt 0 0 ACK adv []) \<or> (\<exists>adv. m = segment 5678 prt 0 0 SYN adv [])"

lemma out_ok_mono:
  assumes "out_ok prt W m"
  shows "out_ok prt (W @ V) m"
  using assms unfolding out_ok_def
proof (elim disjE exE conjE)
  fix q dat adv
  assume m: "m = segment 5678 prt (of_nat q) 0 NO_FLAG adv dat" and q: "q + length dat \<le> length W"
    and d: "dat = take (length dat) (drop q W)" and len: "22 + length dat \<le> 1400"
  have "dat = take (length dat) (drop q (W @ V))"
    using q d by simp
  then show "(\<exists>q dat adv. m = segment 5678 prt (of_nat q) 0 NO_FLAG adv dat \<and> q + length dat \<le> length (W @ V)
        \<and> dat = take (length dat) (drop q (W @ V)) \<and> 22 + length dat \<le> 1400)
     \<or> (\<exists>adv. m = segment 5678 prt 0 0 ACK adv []) \<or> (\<exists>adv. m = segment 5678 prt 0 0 SYN adv [])"
    using m q len by (intro disjI1 exI [of _ q] exI [of _ dat] exI [of _ adv]) auto
qed auto

text \<open>
  \<open>W\<close> is what the send window at \<open>a\<close> holds up to \<open>nextseq\<close>, \<open>U\<close> what waits in the sending buffer,
  \<open>e\<close> the number of bytes the server has; \<open>base\<close> is never ahead of it. Datagrams carry
  parts of \<open>V\<close>, which is \<open>W\<close> except inside a round of the sending thread.
\<close>

definition sender_ok :: "ptr \<Rightarrow> u16 \<Rightarrow> ptr \<Rightarrow> bytes \<Rightarrow> bytes \<Rightarrow> bytes \<Rightarrow> nat \<Rightarrow> host \<Rightarrow> bool" where
  "sender_ok p prt a V W U e h \<longleftrightarrow> (\<exists>s r w t blk sb. client_side h p prt s r \<and> state s = ESTABLISHED
     \<and> wnd_send s = a \<and> expect_seq r = 0 \<and> swnds h (wnd_send s) = Some w \<and> timers h (rtt_timer s) = Some t
     \<and> blocks h (send_windows w) = Some blk \<and> length blk < 2 ^ 30 \<and> length V \<le> length blk
     \<and> take (length V) blk = V \<and> nextseq w = of_nat (length W) \<and> unat (base w) \<le> e \<and> e \<le> length W
     \<and> blocks h (sending_buf s) = Some sb \<and> sending_buf s \<noteq> send_windows w
     \<and> sending_len s = int (length U) \<and> length U \<le> length sb \<and> take (length U) sb = U
     \<and> (\<forall>tid th. threads h tid = Some th \<longrightarrow> th_sock th = p)
     \<and> prefix W V \<and> (\<forall>m \<in> set (wire h). out_ok prt V m))"

text \<open>Changes of the host that keep the invariant: the socket's core fields stay, and the
  timer, the threads, the clock and the wire may change.\<close>

definition same_core :: "tju_tcp_t \<Rightarrow> tju_tcp_t \<Rightarrow> bool" where
  "same_core s s' \<longleftrightarrow> state s' = state s \<and> wnd_send s' = wnd_send s \<and> wnd_recv s' = wnd_recv s
     \<and> rtt_timer s' = rtt_timer s \<and> established_local_addr s' = established_local_addr s
     \<and> established_remote_addr s' = established_remote_addr s \<and> sending_buf s' = sending_buf s
     \<and> sending_len s' = sending_len s"

lemma sender_ok_frame:
  assumes P: "sender_ok p prt a V W U e h" and s: "socks h p = Some s" "same_core s s'"
    and h': "h' = h\<lparr>socks := (socks h)(p \<mapsto> s'), timers := ts, threads := ths, clock := c, next_tid := k,
      wire := ws\<rparr>"
    and ts: "ts (rtt_timer s) \<noteq> None" "\<forall>q. timers h q = None \<longrightarrow> ts q = None"
    and ths: "\<forall>tid th. ths tid = Some th \<longrightarrow> th_sock th = p" and ws: "\<forall>m \<in> set ws. out_ok prt V m"
  shows "sender_ok p prt a V W U e h'"
proof -
  obtain r w t blk sb where *: "client_side h p prt s r" "state s = ESTABLISHED" "wnd_send s = a"
     "expect_seq r = 0" "swnds h (wnd_send s) = Some w" "timers h (rtt_timer s) = Some t"
     "blocks h (send_windows w) = Some blk" "length blk < 2 ^ 30" "length V \<le> length blk"
     "take (length V) blk = V" "nextseq w = of_nat (length W)" "unat (base w) \<le> e" "e \<le> length W"
     "blocks h (sending_buf s) = Some sb" "sending_buf s \<noteq> send_windows w"
     "sending_len s = int (length U)" "length U \<le> length sb" "take (length U) sb = U" "prefix W V"
    using P s(1) by (auto simp: sender_ok_def client_side_def)
  have "heap_ok h'"
    using * ts(2) heap_ok_bound(1) [of h p s] s(1) by (auto simp: h' heap_ok_def client_side_def)
  then have "client_side h' p prt s' r"
    using * s by (simp add: client_side_def same_core_def h')
  moreover obtain t' where "ts (rtt_timer s) = Some t'"
    using ts(1) by blast
  ultimately show ?thesis
    unfolding sender_ok_def using * s(2) ths ws
    by (intro exI [of _ s'] exI [of _ r] exI [of _ w] exI [of _ t'] exI [of _ blk] exI [of _ sb])
      (simp add: same_core_def h')
qed

section \<open>Every timer action keeps the sender's invariant\<close>

text \<open>\<open>keeps p prt a V W U e f\<close>: a call of \<open>f\<close> that returns keeps the invariant.\<close>

definition keeps :: "ptr \<Rightarrow> u16 \<Rightarrow> ptr \<Rightarrow> bytes \<Rightarrow> bytes \<Rightarrow> bytes \<Rightarrow> nat \<Rightarrow> (ptr \<Rightarrow> host \<Rightarrow> host outcome) \<Rightarrow> bool" where
  "keeps p prt a V W U e f \<longleftrightarrow> (\<forall>h h'. sender_ok p prt a V W U e h \<longrightarrow> f p h = Inr h' \<longrightarrow> sender_ok p prt a V W U e h')"

lemma keepsD: "keeps p prt a V W U e f \<Longrightarrow> sender_ok p prt a V W U e h \<Longrightarrow> f p h = Inr h' \<Longrightarrow> sender_ok p prt a V W U e h'"
  by (simp add: keeps_def)

lemma prefix_stored:
  assumes "prefix W V" "length V \<le> length blk" "take (length V) blk = V"
  shows "length W \<le> length blk" "take (length W) blk = W"
proof -
  obtain V' where V: "V = W @ V'"
    using assms(1) by (auto elim: prefixE)
  then show "length W \<le> length blk"
    using assms(2) by simp
  have "take (length W) blk = take (length W) (take (length V) blk)"
    by (simp add: V min_def)
  also have "\<dots> = W"
    unfolding assms(3) by (simp add: V)
  finally show "take (length W) blk = W" .
qed

lemma sender_okE:
  assumes "sender_ok p prt a V W U e h"
  obtains s r w t blk sb where "socks h p = Some s" "rwnds h (wnd_recv s) = Some r" "swnds h (wnd_send s) = Some w"
    "timers h (rtt_timer s) = Some t" "blocks h (send_windows w) = Some blk" "length blk < 2 ^ 30"
    "length W \<le> length blk" "take (length W) blk = W" "nextseq w = of_nat (length W)" "unat (base w) \<le> e"
    "e \<le> length W" "state s = ESTABLISHED" "expect_seq r = 0" "name_of h = Client"
    "port (established_local_addr s) = 5678" "port (established_remote_addr s) = prt"
    "\<forall>tid th. threads h tid = Some th \<longrightarrow> th_sock th = p" "\<forall>m \<in> set (wire h). out_ok prt V m"
    "blocks h (sending_buf s) = Some sb" "sending_buf s \<noteq> send_windows w" "sending_len s = int (length U)"
    "length U \<le> length sb" "take (length U) sb = U" "prefix W V" "client_side h p prt s r"
    "length V \<le> length blk" "take (length V) blk = V" "wnd_send s = a"
  using assms unfolding sender_ok_def
proof (elim exE conjE)
  fix s r w t blk sb
  assume *: "client_side h p prt s r" "swnds h (wnd_send s) = Some w" "timers h (rtt_timer s) = Some t"
    "blocks h (send_windows w) = Some blk" "prefix W V" "length V \<le> length blk" "take (length V) blk = V"
    "blocks h (sending_buf s) = Some sb" "nextseq w = of_nat (length W)" "unat (base w) \<le> e"
    "e \<le> length W" "state s = ESTABLISHED" "expect_seq r = 0" "length blk < 2 ^ 30"
    "\<forall>tid th. threads h tid = Some th \<longrightarrow> th_sock th = p" "\<forall>m \<in> set (wire h). out_ok prt V m"
    "sending_buf s \<noteq> send_windows w" "sending_len s = int (length U)"
    "length U \<le> length sb" "take (length U) sb = U" "wnd_send s = a"
  show thesis
    by (rule that [of s r w t blk sb]) (use * prefix_stored [OF *(5-7)] in \<open>simp_all add: client_side_def\<close>)
qed

lemma host_same [simp]: "h\<lparr>socks := socks h\<rparr> = h" "h\<lparr>timers := timers h\<rparr> = h" "h\<lparr>threads := threads h\<rparr> = h"
    "h\<lparr>clock := clock h\<rparr> = h" "h\<lparr>next_tid := next_tid h\<rparr> = h" "h\<lparr>wire := wire h\<rparr> = h" for h :: host
  by simp_all

lemma sender_ok_changes:
  assumes P: "sender_ok p prt a V W U e h"
  shows sender_ok_sock: "socks h p = Some s \<Longrightarrow> same_core s s' \<Longrightarrow> sender_ok p prt a V W U e (h\<lparr>socks := (socks h)(p \<mapsto> s')\<rparr>)"
    and sender_ok_timer: "timers h q \<noteq> None \<Longrightarrow> sender_ok p prt a V W U e (h\<lparr>timers := (timers h)(q \<mapsto> t)\<rparr>)"
    and sender_ok_thread: "sender_ok p prt a V W U e (h\<lparr>threads := (threads h)(tid := None)\<rparr>)"
    and sender_ok_clock: "sender_ok p prt a V W U e (h\<lparr>clock := c\<rparr>)"
    and sender_ok_wire: "out_ok prt V m \<Longrightarrow> sender_ok p prt a V W U e (h\<lparr>wire := wire h @ [m]\<rparr>)"
    and sender_ok_launch: "socks h p = Some s \<Longrightarrow> timers h (rtt_timer s) = Some t0 \<Longrightarrow> sender_ok p prt a V W U e (launched p s t h)"
proof -
  obtain s0 r w t1 where b: "socks h p = Some s0" "timers h (rtt_timer s0) = Some t1"
    "\<forall>tid th. threads h tid = Some th \<longrightarrow> th_sock th = p" "\<forall>m \<in> set (wire h). out_ok prt V m"
    using P by (elim sender_okE)
  have core: "same_core s0 s0" and upd: "socks h = (socks h)(p \<mapsto> s0)"
    using b(1) by (auto simp: same_core_def fun_upd_idem)
  { assume "socks h p = Some s" "same_core s s'"
    then show "sender_ok p prt a V W U e (h\<lparr>socks := (socks h)(p \<mapsto> s')\<rparr>)"
      by (intro sender_ok_frame [OF P, where ts = "timers h" and ths = "threads h" and c = "clock h"
          and k = "next_tid h" and ws = "wire h"]) (use b in auto) }
  { assume "timers h q \<noteq> None"
    then show "sender_ok p prt a V W U e (h\<lparr>timers := (timers h)(q \<mapsto> t)\<rparr>)"
      by (intro sender_ok_frame [OF P b(1) core, where ts = "(timers h)(q \<mapsto> t)" and ths = "threads h"
          and c = "clock h" and k = "next_tid h" and ws = "wire h"]) (use b upd in auto) }
  show "sender_ok p prt a V W U e (h\<lparr>threads := (threads h)(tid := None)\<rparr>)"
    by (intro sender_ok_frame [OF P b(1) core, where ts = "timers h" and ths = "(threads h)(tid := None)"
          and c = "clock h" and k = "next_tid h" and ws = "wire h"]) (use b upd in auto)
  show "sender_ok p prt a V W U e (h\<lparr>clock := c\<rparr>)"
    by (intro sender_ok_frame [OF P b(1) core, where ts = "timers h" and ths = "threads h"
          and k = "next_tid h" and ws = "wire h"]) (use b upd in auto)
  { assume "out_ok prt V m"
    then show "sender_ok p prt a V W U e (h\<lparr>wire := wire h @ [m]\<rparr>)"
      by (intro sender_ok_frame [OF P b(1) core, where ts = "timers h" and ths = "threads h"
          and k = "next_tid h" and c = "clock h" and ws = "wire h @ [m]"]) (use b upd in auto) }
  { assume "socks h p = Some s" "timers h (rtt_timer s) = Some t0"
    then show "sender_ok p prt a V W U e (launched p s t h)"
      by (intro sender_ok_frame [OF P _ _ , where s = s and s' = "s\<lparr>interrupt_signal := 0\<rparr>"
            and ts = "(timers h)(rtt_timer s \<mapsto> t\<lparr>started := 1, timer_thread := next_tid h\<rparr>)"
            and ths = "(threads h)(next_tid h \<mapsto> \<lparr>th_sock = p, th_limit = timeout t, th_since = clock h\<rparr>)"
            and c = "clock h" and k = "next_tid h + 1" and ws = "wire h"])
        (use b in \<open>auto simp: same_core_def launched_def\<close>) }
qed

lemma launch_timer_keeps: "keeps p prt a V W U e launch_timer"
  unfolding keeps_def
proof (intro allI impI)
  fix h h'
  assume P: "sender_ok p prt a V W U e h" and run: "launch_timer p h = Inr h'"
  obtain s t where "socks h p = Some s" "timers h (rtt_timer s) = Some t"
    using P by (elim sender_okE)
  then show "sender_ok p prt a V W U e h'"
    using sender_ok_launch [OF P, of s t t] run by (auto simp: launch_timer_eq)
qed

lemma take_outstanding:
  assumes "nextseq w = of_nat (length W)" "unat (base w) \<le> length W" "length W \<le> length blk"
    "length blk < 2 ^ 30" "take (length W) blk = W"
  shows "unat (nextseq w - base w) = length W - unat (base w)"
    "take (length W - unat (base w)) (drop (unat (base w)) blk) = drop (unat (base w)) W"
proof -
  have n: "unat (nextseq w) = length W"
    using assms(1,3,4) by (simp add: unat_of_nat)
  then have "base w \<le> nextseq w"
    using assms(2) by (simp add: word_le_nat_alt)
  then show "unat (nextseq w - base w) = length W - unat (base w)"
    using n by (simp add: unat_sub)
  show "take (length W - unat (base w)) (drop (unat (base w)) blk) = drop (unat (base w)) W"
    using assms(5) by (metis drop_take)
qed

lemma sint_diff_small: "unat x < 2 ^ 31 \<Longrightarrow> nat (sint x) = unat x" for x :: u32
  by (simp add: sint_small)

lemma sendToLayer3_keeps:
  assumes P: "sender_ok p prt a V W U e h" and out: "22 + k \<le> 1400 \<Longrightarrow> out_ok prt V m" and l: "length m = 22 + k"
    and send: "sendToLayer3 m (int (22 + k)) h = Inr h'"
  shows "sender_ok p prt a V W U e h'"
proof (cases "22 + k \<le> 1400")
  case True
  have "name_of h \<noteq> OtherHost"
    using P by (elim sender_okE) simp
  then have "h' = h\<lparr>wire := wire h @ [m]\<rparr>"
    using send True l by (auto simp: sendToLayer3_def mem_read_def nat_add_distrib)
  then show ?thesis
    using sender_ok_wire [OF P out [OF True]] by simp
next
  case False
  then show ?thesis
    using send P by (simp add: sendToLayer3_def)
qed

lemma retransmit_keeps:
  assumes start: "keeps p prt a V W U e start"
  shows "keeps p prt a V W U e (retransmit_timer_with start)"
  unfolding keeps_def
proof (intro allI impI)
  fix h h'
  assume P: "sender_ok p prt a V W U e h" and run: "retransmit_timer_with start p h = Inr h'"
  obtain s w blk where s: "socks h p = Some s" "swnds h (wnd_send s) = Some w" "blocks h (send_windows w) = Some blk"
    "length blk < 2 ^ 30" "length W \<le> length blk" "take (length W) blk = W" "nextseq w = of_nat (length W)"
    "unat (base w) \<le> length W" "port (established_local_addr s) = 5678" "port (established_remote_addr s) = prt" "prefix W V"
  proof -
    show thesis
      using P by (elim sender_okE) (rule that; (assumption | (erule le_trans, assumption)))
  qed
  let ?b = "unat (base w)" and ?dat = "drop (unat (base w)) W"
  note out = take_outstanding [OF s(7,8,5,4,6)]
  have len: "sint (nextseq w - base w) = int (length ?dat)"
    using out(1) s(4,5) by (simp add: sint_small)
  have mem: "mem_read blk ?b (length ?dat) = Inr ?dat"
    using out(2) s(5,8) by (simp add: mem_read_def)
  have eq: "retransmit_timer_with start p h = (if 1400 < int (length ?dat) then Inl (Exit 0)
      else bindE (create_packet_buf 5678 prt (base w) 0 22 (to_u16 (22 + int (length ?dat))) NO_FLAG 1 0 ?dat
             (int (length ?dat))) (\<lambda>msg. bindE (start p h) (sendToLayer3 msg (uint (to_u16 (22 + int (length ?dat)))))))"
    using s(1-3,9,10) mem by (simp add: retransmit_timer_with_def len Let_def to_u16_def [of 22] del: length_drop)
  obtain m h1 where st: "start p h = Inr h1"
    and mk: "create_packet_buf 5678 prt (base w) 0 22 (to_u16 (22 + int (length ?dat))) NO_FLAG 1 0 ?dat
        (int (length ?dat)) = Inr m"
    and send: "sendToLayer3 m (uint (to_u16 (22 + int (length ?dat)))) h1 = Inr h'"
    using run [unfolded eq] by (cases "1400 < int (length ?dat)") (simp_all add: bindE_eq_Inr_iff del: length_drop NO_FLAG_def, blast)
  obtain k where k: "k \<le> length ?dat" "22 + k < 65536" "m = segment 5678 prt (base w) 0 NO_FLAG 1 (take k ?dat)"
    "uint (to_u16 (22 + int (length ?dat))) = int (22 + k)"
    using create_packet_buf_segment [OF mk] by blast
  have lm: "length m = 22 + k"
    using k(1,2) by (simp add: k(3))
  have "out_ok prt W m" if "22 + k \<le> 1400"
    unfolding out_ok_def using k that s(8)
    by (intro disjI1 exI [of _ ?b] exI [of _ "take k ?dat"] exI [of _ 1]) (auto simp: min_def)
  then have "out_ok prt V m" if "22 + k \<le> 1400"
    using that s(11) out_ok_mono by (auto elim: prefixE)
  then show "sender_ok p prt a V W U e h'"
    using sendToLayer3_keeps [OF keepsD [OF start P st] _ lm] send k(4) by simp
qed

lemma timer_handler_keeps:
  assumes start: "keeps p prt a V W U e start" and P: "sender_ok p prt a V W U e h"
    and close: "\<And>s h'. socks h p = Some s \<Longrightarrow> 10 < uint (timeout_counts s) \<Longrightarrow> close p h \<noteq> Inr h'"
    and run: "timer_handler_with start close p h = Inr h'"
  shows "sender_ok p prt a V W U e h'"
proof -
  obtain s r where s: "socks h p = Some s" "state s = ESTABLISHED" "rwnds h (wnd_recv s) = Some r" "expect_seq r = 0"
    "name_of h = Client" "port (established_local_addr s) = 5678" "port (established_remote_addr s) = prt"
    using P by (elim sender_okE)
  show ?thesis
  proof (cases "finished_handshake s = 0")
    case True
    let ?h = "h\<lparr>socks := (socks h)(p \<mapsto> s\<lparr>finished_handshake := 1\<rparr>)\<rparr>"
    have "h' = ?h\<lparr>wire := wire ?h @ [segment 5678 prt 0 0 ACK (to_u16 (100 - received_len s)) []]\<rparr>"
      using run s True send_control_effect(4) [of ?h p "s\<lparr>finished_handshake := 1\<rparr>" r]
      by (simp add: timer_handler_with_def control_def)
    moreover have "sender_ok p prt a V W U e ?h"
      using sender_ok_sock [OF P s(1)] by (simp add: same_core_def)
    moreover have "out_ok prt V (segment 5678 prt 0 0 ACK (to_u16 (100 - received_len s)) [])"
      by (auto simp: out_ok_def)
    ultimately show ?thesis
      using sender_ok_wire by blast
  next
    case False
    let ?s = "(handle_loss_ack s)\<lparr>timeout_counts := timeout_counts s + 1\<rparr>"
    have "same_core s ?s"
      by (simp add: same_core_def handle_loss_ack_def Let_def)
    then have "sender_ok p prt a V W U e (h\<lparr>socks := (socks h)(p \<mapsto> ?s)\<rparr>)"
      by (rule sender_ok_sock [OF P s(1)])
    moreover have "retransmit_timer_with start p (h\<lparr>socks := (socks h)(p \<mapsto> ?s)\<rparr>) = Inr h'"
      using run s(1,2) False close [OF s(1)] by (auto simp: timer_handler_with_def Let_def split: if_splits)
    ultimately show ?thesis
      using keepsD [OF retransmit_keeps [OF start]] by blast
  qed
qed

lemma joined_handler_keeps: "keeps p prt a V W U e joined_handler"
  unfolding keeps_def joined_handler_def
proof (intro allI impI)
  fix h h'
  assume P: "sender_ok p prt a V W U e h" and run: "timer_handler_with launch_timer (\<lambda>_ _. Inl Blocked) p h = Inr h'"
  show "sender_ok p prt a V W U e h'"
    by (rule timer_handler_keeps [OF launch_timer_keeps P _ run]) simp
qed

lemma check_timeout_keeps:
  assumes P: "sender_ok p prt a V W U e h" and run: "check_timeout_with cb tid h = Inr h'"
    and cb: "\<And>h1. cb p (h\<lparr>threads := (threads h)(tid := None)\<rparr>) = Inr h1 \<Longrightarrow> sender_ok p prt a V W U e h1"
  shows "sender_ok p prt a V W U e h'"
proof (cases "threads h tid")
  case None
  then show ?thesis
    using P run by (simp add: check_timeout_with_def)
next
  case (Some th)
  obtain s t where s: "socks h p = Some s" "timers h (rtt_timer s) = Some t" "th_sock th = p"
    using P Some by (elim sender_okE) blast
  let ?h = "h\<lparr>threads := (threads h)(tid := None)\<rparr>"
  have P': "sender_ok p prt a V W U e ?h"
    by (rule sender_ok_thread [OF P])
  let ?t = "snd (tcp_ack_update_rtt (f_of_int (clock h - th_since th)) (f_of_int 1000) t)"
  have "check_timeout_with cb tid h =
      (if of_int (clock h - th_since th) < th_limit th
       then if interrupt_signal s = 1 then Inr (?h\<lparr>timers := (timers h)(rtt_timer s \<mapsto> ?t)\<rparr>) else Inr h
       else cb p ?h)"
    using Some s by (simp add: check_timeout_with_def Let_def)
  then consider "h' = h" | "h' = ?h\<lparr>timers := (timers h)(rtt_timer s \<mapsto> ?t)\<rparr>" | "cb p ?h = Inr h'"
    using run by (auto split: if_splits)
  then show ?thesis
  proof cases
    case 2
    then show ?thesis
      using sender_ok_timer [OF P', of "rtt_timer s" ?t] s(2) by simp
  qed (use P cb in simp_all)
qed

lemma stop_timer_keeps: "keeps p prt a V W U e tcp_stop_timer"
  unfolding keeps_def
proof (intro allI impI)
  fix h h'
  assume P: "sender_ok p prt a V W U e h" and run: "tcp_stop_timer p h = Inr h'"
  obtain s t where s: "socks h p = Some s" "timers h (rtt_timer s) = Some t"
    using P by (elim sender_okE)
  let ?h1 = "h\<lparr>timers := (timers h)(rtt_timer s \<mapsto> t\<lparr>started := 0\<rparr>)\<rparr>"
  define h2 where "h2 = ?h1\<lparr>socks := (socks h)(p \<mapsto> s\<lparr>interrupt_signal := 1\<rparr>)\<rparr>"
  have P1: "sender_ok p prt a V W U e ?h1"
    using sender_ok_timer [OF P, of "rtt_timer s"] s(2) by simp
  have P2: "sender_ok p prt a V W U e h2"
    using sender_ok_sock [OF P1, of s "s\<lparr>interrupt_signal := 1\<rparr>"] s(1) by (simp add: same_core_def h2_def)
  have P3: "sender_ok p prt a V W U e (h2\<lparr>clock := c\<rparr>)" for c
    by (rule sender_ok_clock [OF P2])
  have eq: "tcp_stop_timer p h = (if started t = 0 then Inr h
      else if threads h (timer_thread t) = None then Inr h2
      else check_timeout_with joined_handler (timer_thread t) (h2\<lparr>clock := clock h + poll_delay h\<rparr>))"
    unfolding tcp_stop_timer_def stop_timer_with_def Let_def h2_def by (simp add: s)
  show "sender_ok p prt a V W U e h'"
  proof (cases "started t = 0 \<or> threads h (timer_thread t) = None")
    case True
    then have "h' = h \<or> h' = h2"
      using run unfolding eq by (metis Inr_inject)
    then show ?thesis
      using P P2 by metis
  next
    case False
    then have "check_timeout_with joined_handler (timer_thread t) (h2\<lparr>clock := clock h + poll_delay h\<rparr>) = Inr h'"
      using run unfolding eq by metis
    from check_timeout_keeps [OF P3 this keepsD [OF joined_handler_keeps sender_ok_thread [OF P3]]]
    show ?thesis .
  qed
qed

lemma start_timer_keeps: "keeps p prt a V W U e tcp_start_timer"
  unfolding keeps_def
proof (intro allI impI)
  fix h h'
  assume P: "sender_ok p prt a V W U e h" and run: "tcp_start_timer p h = Inr h'"
  obtain h1 where "h1 = h \<or> tcp_stop_timer p h = Inr h1" "launch_timer p h1 = Inr h'"
    using run unfolding tcp_start_timer_def by (auto split: if_splits; blast)
  then show "sender_ok p prt a V W U e h'"
    using P keepsD [OF stop_timer_keeps P] keepsD [OF launch_timer_keeps] by blast
qed

lemma poll_keeps:
  assumes P: "sender_ok p prt a V W U e h" and run: "tcp_check_timeout tid h = Inr h'"
    and count: "\<And>s. socks h p = Some s \<Longrightarrow> timeout_counts s \<le> 10"
  shows "sender_ok p prt a V W U e h'"
proof -
  let ?h = "h\<lparr>threads := (threads h)(tid := None)\<rparr>"
  have few: "\<not> 10 < uint (timeout_counts s)" if "socks h p = Some s" for s
    using count [OF that] by (simp add: word_le_def)
  show ?thesis
  proof (rule check_timeout_keeps [OF P run [unfolded tcp_check_timeout_def]])
    fix h1
    assume cb: "tcp_write_timer_handler p ?h = Inr h1"
    show "sender_ok p prt a V W U e h1"
      by (rule timer_handler_keeps [OF start_timer_keeps sender_ok_thread [OF P] _ cb [unfolded tcp_write_timer_handler_def]])
        (use few in simp)
  qed
qed

end
