(* ===== verification/Delivery.thy ===== *)
theory Delivery
  imports Stream
begin

text \<open>
  The data phase of a connection as a transition system: what the calls and the arrival of
  segments do to the sender's invariant of theory \<open>Stream\<close>, the receiver's invariant, and
  the invariant of the pair of hosts joined by a network that may lose, repeat, delay and
  reorder datagrams.
\<close>

section \<open>Changes of the send window\<close>

lemma sender_ok_swnd:
  assumes P: "sender_ok p prt a V W U e h" and s: "socks h p = Some s" "swnds h (wnd_send s) = Some w"
    and w': "send_windows w' = send_windows w" "nextseq w' = of_nat (length W')" "unat (base w') \<le> e"
      "e \<le> length W'" "prefix W' V"
  shows "sender_ok p prt a V W' U e (h\<lparr>swnds := (swnds h)(wnd_send s \<mapsto> w')\<rparr>)"
proof -
  obtain r t blk sb where *: "client_side h p prt s r" "state s = ESTABLISHED" "wnd_send s = a"
     "expect_seq r = 0" "timers h (rtt_timer s) = Some t"
     "blocks h (send_windows w) = Some blk" "length blk < 2 ^ 30" "length V \<le> length blk"
     "take (length V) blk = V"
     "blocks h (sending_buf s) = Some sb" "sending_buf s \<noteq> send_windows w"
     "sending_len s = int (length U)" "length U \<le> length sb" "take (length U) sb = U"
     "\<forall>tid th. threads h tid = Some th \<longrightarrow> th_sock th = p" "\<forall>m \<in> set (wire h). out_ok prt V m"
    using P s by (auto simp: sender_ok_def client_side_def)
  have "heap_ok (h\<lparr>swnds := (swnds h)(wnd_send s \<mapsto> w')\<rparr>)"
    using * s by (intro heap_ok_updates) (auto simp: client_side_def)
  then have "client_side (h\<lparr>swnds := (swnds h)(wnd_send s \<mapsto> w')\<rparr>) p prt s r"
    using *(1) by (simp add: client_side_def)
  then show ?thesis
    unfolding sender_ok_def using * w'
    by (intro exI [of _ s] exI [of _ r] exI [of _ w'] exI [of _ t] exI [of _ blk] exI [of _ sb]) simp
qed

lemma handle_success_ack_core: "handle_success_ack s = Inr s' \<Longrightarrow> same_core s s'"
  by (auto simp: handle_success_ack_def same_core_def Let_def split: con_state.splits if_splits)

text \<open>An acknowledgement from the server moves \<open>base\<close>; it never passes what the server has.\<close>

lemma sender_ok_ack:
  assumes P: "sender_ok p prt a V W U e h" and k: "k \<le> e"
    and run: "onTCPPocket junk (segment prt 5678 (of_nat k) ack ACK adv []) h = Inr (v, h')"
  shows "sender_ok p prt a V W U e h'"
proof -
  let ?m = "segment prt 5678 (of_nat k) ack ACK adv []"
  obtain s r w where s: "socks h p = Some s" "swnds h (wnd_send s) = Some w" "client_side h p prt s r"
    "state s = ESTABLISHED" "e \<le> length W" "length W < 2 ^ 30" "nextseq w = of_nat (length W)" "prefix W V"
    using P by (elim sender_okE) (meson le_less_trans)
  have uk: "unat (of_nat k :: u32) = k"
    using k s(5,6) by (simp add: unat_of_nat)
  let ?w1 = "w\<lparr>rwnd := adv\<rparr>" and ?w2 = "w\<lparr>rwnd := adv, base := of_nat k\<rparr>"
  have "tju_handle_packet p ?m h = Inr (v, h')"
    using run client_side_dispatch [where dat = "[]" and junk = junk, OF s(3) _ _ refl] s(4) by simp
  then have ack: "receive_ack p ?m (h\<lparr>swnds := (swnds h)(wnd_send s \<mapsto> ?w1)\<rparr>) = Inr h'"
    using s(1,2) by (auto simp: tju_handle_packet_def Let_def get_plen_segment)
  then obtain s' where s': "handle_success_ack s = Inr s'"
    using s(1) by (auto simp: receive_ack_def)
  note core = handle_success_ack_core [OF s']
  define h2 where "h2 = h\<lparr>socks := (socks h)(p \<mapsto> s'), swnds := (swnds h)(wnd_send s \<mapsto> ?w2)\<rparr>"
  have h2: "h2 = h\<lparr>swnds := (swnds h)(wnd_send s \<mapsto> ?w2), socks := (socks h)(p \<mapsto> s')\<rparr>"
    by (simp add: h2_def)
  have "sender_ok p prt a V W U e (h\<lparr>swnds := (swnds h)(wnd_send s \<mapsto> ?w2)\<rparr>)"
    using sender_ok_swnd [OF P s(1,2)] s(5,7,8) k uk by simp
  then have P2: "sender_ok p prt a V W U e h2"
    using sender_ok_sock [where s = s and s' = s'] s(1) core by (fastforce simp: h2)
  have "tcp_stop_timer p h2 = Inr h' \<or> tcp_start_timer p h2 = Inr h'"
    using ack s(1,2) s' core
    by (cases "of_nat k = nextseq w") (simp_all add: receive_ack_def same_core_def Let_def h2_def)
  then show ?thesis
    using keepsD [OF stop_timer_keeps P2] keepsD [OF start_timer_keeps P2] by blast
qed

text \<open>A \<open>SYN|ACK\<close> lies ahead of what the client expects: it only sets \<open>rwnd\<close>.\<close>

lemma sender_ok_syn_ack:
  assumes P: "sender_ok p prt a V W U e h"
    and run: "onTCPPocket junk (segment prt 5678 22 1 (SYN OR ACK) adv []) h = Inr (v, h')"
  shows "sender_ok p prt a V W U e h'"
proof -
  let ?m = "segment prt 5678 22 1 (SYN OR ACK) adv []"
  obtain s r w where s: "socks h p = Some s" "swnds h (wnd_send s) = Some w" "client_side h p prt s r"
    "state s = ESTABLISHED" "e \<le> length W" "nextseq w = of_nat (length W)" "unat (base w) \<le> e" "prefix W V"
    "rwnds h (wnd_recv s) = Some r" "expect_seq r = 0"
    using P by (elim sender_okE)
  have "tju_handle_packet p ?m h = Inr (v, h')"
    using run client_side_dispatch [where dat = "[]" and junk = junk, OF s(3) _ _ refl] s(4) by simp
  then have "h' = h\<lparr>swnds := (swnds h)(wnd_send s \<mapsto> w\<lparr>rwnd := adv\<rparr>)\<rparr>"
    using s(1,2,9,10) by (simp add: tju_handle_packet_def Let_def)
  then show ?thesis
    using sender_ok_swnd [OF P s(1,2), of "w\<lparr>rwnd := adv\<rparr>" W] s(5-8) by simp
qed

section \<open>Calls that change the buffers\<close>

lemma sender_ok_rebuild:
  assumes P: "sender_ok p prt a V W U e h" and s: "socks h p = Some s" "swnds h (wnd_send s) = Some w"
    and s': "state s' = state s" "wnd_send s' = wnd_send s" "wnd_recv s' = wnd_recv s" "rtt_timer s' = rtt_timer s"
      "established_local_addr s' = established_local_addr s" "established_remote_addr s' = established_remote_addr s"
      "sending_buf s' = sending_buf s"
    and W: "B (send_windows w) = Some blk" "length blk < 2 ^ 30" "length V' \<le> length blk" "take (length V') blk = V'"
      "send_windows w' = send_windows w" "nextseq w' = of_nat (length W')" "unat (base w') \<le> e" "e \<le> length W'"
    and U: "B (sending_buf s) = Some sb" "sending_len s' = int (length U')" "length U' \<le> length sb" "take (length U') sb = U'"
    and V: "prefix W' V'" "\<forall>m \<in> set (wire h). out_ok prt V' m" and B: "\<forall>a. blocks h a = None \<longrightarrow> B a = None"
  shows "sender_ok p prt a V' W' U' e (h\<lparr>socks := (socks h)(p \<mapsto> s'), swnds := (swnds h)(wnd_send s \<mapsto> w'), blocks := B\<rparr>)"
proof -
  let ?h = "h\<lparr>socks := (socks h)(p \<mapsto> s'), swnds := (swnds h)(wnd_send s \<mapsto> w'), blocks := B\<rparr>"
  obtain r t where *: "client_side h p prt s r" "state s = ESTABLISHED" "expect_seq r = 0" "wnd_send s = a"
     "timers h (rtt_timer s) = Some t" "sending_buf s \<noteq> send_windows w"
     "\<forall>tid th. threads h tid = Some th \<longrightarrow> th_sock th = p"
    using P s by (auto simp: sender_ok_def client_side_def)
  have "heap_ok ?h"
    using * s B heap_ok_bound(1) [of h p s] heap_ok_bound(4) [of h "wnd_send s" w]
    by (auto simp: heap_ok_def client_side_def)
  then have "client_side ?h p prt s' r"
    using *(1) s' by (simp add: client_side_def)
  then show ?thesis
    unfolding sender_ok_def using * s' W U V
    by (intro exI [of _ s'] exI [of _ r] exI [of _ w'] exI [of _ t] exI [of _ blk] exI [of _ sb]) simp
qed

lemma host_parts: "h\<lparr>blocks := B, socks := S\<rparr> = h\<lparr>socks := S, swnds := swnds h, blocks := B\<rparr>"
  "h\<lparr>socks := S\<rparr> = h\<lparr>socks := S, swnds := swnds h, blocks := blocks h\<rparr>" for h :: host
  by simp_all

lemma sender_ok_tcp_send:
  assumes P: "sender_ok p prt a V W U e h" and run: "tcp_send p buf len h = Inr (v, h')"
  shows "sender_ok p prt a V W (if v = 0 then U @ take (nat len) buf else U) e h'"
proof -
  obtain s w blk sb where s: "socks h p = Some s" "swnds h (wnd_send s) = Some w" and
    W: "blocks h (send_windows w) = Some blk" "length blk < 2 ^ 30"
    "length V \<le> length blk" "take (length V) blk = V" "nextseq w = of_nat (length W)" "unat (base w) \<le> e" "e \<le> length W" and
    U: "blocks h (sending_buf s) = Some sb" "sending_len s = int (length U)" "length U \<le> length sb" "take (length U) sb = U"
    and V: "prefix W V" "\<forall>m \<in> set (wire h). out_ok prt V m" "sending_buf s \<noteq> send_windows w"
    using P by (elim sender_okE)
  have sw: "swnds h = (swnds h)(wnd_send s \<mapsto> w)"
    using s(2) by (simp add: fun_upd_idem)
  obtain dat where dat: "dat = take (nat len) buf" "length dat = nat len" "0 \<le> len" and free: "\<not> send_lock s"
    using run s(1) by (auto simp: tcp_send_def mem_read_eq_Inr_iff lock_send_def split: if_splits)
  show ?thesis
  proof (cases "sending_len s + len \<le> sending_capacity s")
    case True
    then obtain sb' where wr: "mem_write sb (length U) dat = Inr sb'" and v: "v = 0"
      and h': "h' = h\<lparr>blocks := (blocks h)(sending_buf s \<mapsto> sb'),
                  socks := (socks h)(p \<mapsto> s\<lparr>sending_len := sending_len s + len, send_lock := False\<rparr>)\<rparr>"
      using run s(1) U(1,2) dat free
      by (auto simp: tcp_send_def mem_read_eq_Inr_iff lock_send_def block_write_def update_sock_def unlock_send_def
          split: if_splits)
    have sb': "take (length (U @ dat)) sb' = U @ dat" "length (U @ dat) \<le> length sb'"
      using take_mem_write_end [OF wr] U(3,4) wr mem_write_length [OF wr] by (simp_all add: mem_write_eq_Inr_iff)
    have eq: "h' = h\<lparr>socks := (socks h)(p \<mapsto> s\<lparr>sending_len := sending_len s + len, send_lock := False\<rparr>),
        swnds := (swnds h)(wnd_send s \<mapsto> w), blocks := (blocks h)(sending_buf s \<mapsto> sb')\<rparr>"
      unfolding h' by (subst sw [symmetric]) simp
    show ?thesis
      unfolding eq v if_P [OF refl] dat(1) [symmetric]
      by (intro sender_ok_rebuild [OF P s, where blk = blk and sb = sb' and w' = w]) (use W U V sb' dat(2,3) in simp_all)
  next
    case False
    then have v: "v \<noteq> 0" and h': "h' = h\<lparr>socks := (socks h)(p \<mapsto> s\<lparr>send_lock := True\<rparr>)\<rparr>"
      using run s(1) free by (auto simp: tcp_send_def mem_read_eq_Inr_iff lock_send_def split: if_splits)
    show ?thesis
      using v sender_ok_sock [OF P s(1)] by (simp add: h' same_core_def)
  qed
qed

section \<open>A round of the sending thread\<close>

text \<open>The test the sending thread makes before it sends.\<close>

definition window_open :: "host \<Rightarrow> ptr \<Rightarrow> bool" where
  "window_open h p \<longleftrightarrow> (\<forall>s w. socks h p = Some s \<and> swnds h (wnd_send s) = Some w
     \<longrightarrow> nextseq w < base w + ucast (window_size w))"

lemma take_sending_buf_effect:
  assumes "socks h p = Some s" "sending_len s = int (length U)" "blocks h (sending_buf s) = Some sb"
    "length U \<le> length sb" "take (length U) sb = U" "take_sending_buf p h = Inr (buf, h')"
  shows "buf = U" "h' = h\<lparr>socks := (socks h)(p \<mapsto> s\<lparr>sending_len := 0, send_lock := False\<rparr>)\<rparr>"
  using assms
  by (auto simp: take_sending_buf_def lock_send_def block_read_def mem_read_eq_Inr_iff update_sock_def unlock_send_def Let_def
      split: if_splits)

lemma sender_ok_round:
  assumes P: "sender_ok p prt a W W U e h" and run: "tcp_send_stream_round p h = Inr h'" and wo: "window_open h p"
  shows "sender_ok p prt a (W @ U) (W @ U) [] e h'"
proof -
  obtain s w blk sb where s: "socks h p = Some s" "swnds h (wnd_send s) = Some w" and
    W: "blocks h (send_windows w) = Some blk" "length blk < 2 ^ 30"
    "length W \<le> length blk" "take (length W) blk = W" "nextseq w = of_nat (length W)" "unat (base w) \<le> e" "e \<le> length W" and
    U: "blocks h (sending_buf s) = Some sb" "sending_len s = int (length U)" "length U \<le> length sb" "take (length U) sb = U"
    and V: "\<forall>m \<in> set (wire h). out_ok prt W m" "sending_buf s \<noteq> send_windows w" "wnd_send s = a"
    and ports: "port (established_local_addr s) = 5678" "port (established_remote_addr s) = prt" "name_of h = Client"
    using P by (elim sender_okE)
  have nx: "uint (nextseq w) = int (length W)"
    using W(2,3,5) by (simp add: uint_nat unat_of_nat)
  show ?thesis
  proof (cases "U = []")
    case True
    then show ?thesis
      using run s(1) U(2) sender_ok_clock [OF P] by (auto simp: tcp_send_stream_round_def sleep_def)
  next
    case False
    let ?s1 = "s\<lparr>sending_len := 0, send_lock := False\<rparr>"
    define h1 where "h1 = h\<lparr>socks := (socks h)(p \<mapsto> ?s1)\<rparr>"
    obtain buf g where "take_sending_buf p h = Inr (buf, g)" and rest: "bindE (send_segment p buf g) (\<lambda>h. Inr (sleep 1 h)) = Inr h'"
      using run s(1) U(2) False by (auto simp: tcp_send_stream_round_def)
    then have buf: "buf = U" "g = h1"
      using take_sending_buf_effect [OF s(1) U(2,1,3,4)] by (auto simp: h1_def)
    let ?plen = "to_u16 (22 + int (length U))" and ?adv = "to_u16 (100 - received_len s)"
    have f1: "socks h1 p = Some ?s1" "swnds h1 (wnd_send s) = Some w" "blocks h1 = blocks h"
      using s by (simp_all add: h1_def)
    have open': "nextseq w < base w + ucast (window_size w)"
      using wo s by (simp add: window_open_def)
    obtain blk' m h3 h4 w4 where wr: "mem_write blk (length W) U = Inr blk'"
      and mk: "create_packet_buf 5678 prt (nextseq w) 0 22 ?plen NO_FLAG ?adv 0 U (int (length U)) = Inr m"
      and send: "sendToLayer3 m (uint ?plen) (h1\<lparr>blocks := (blocks h)(send_windows w \<mapsto> blk')\<rparr>) = Inr h3"
      and st: "(if nextseq w = base w then tcp_start_timer p h3 else Inr h3) = Inr h4" and w4: "swnds h4 a = Some w4"
      and h': "h' = sleep 1 (h4\<lparr>swnds := (swnds h4)(a \<mapsto> w4\<lparr>nextseq := nextseq w4 + of_nat (length U)\<rparr>)\<rparr>)"
      using rest ports W(1) nx V(3) open' unfolding buf
      by (auto simp: send_segment_def f1 Let_def block_write_def to_u16_def [of 22] to_u32_def bindE_eq_Inr_iff
          simp del: NO_FLAG_def)
    obtain k where k: "k \<le> length U" "22 + k < 65536" "m = segment 5678 prt (nextseq w) 0 NO_FLAG ?adv (take k U)"
      "uint ?plen = int (22 + k)"
      using create_packet_buf_segment [OF mk] by blast
    have blk': "length blk' = length blk" "take (length (W @ U)) blk' = W @ U" "length (W @ U) \<le> length blk'"
      using mem_write_length [OF wr] take_mem_write_end [OF wr] W(4) wr by (simp_all add: mem_write_eq_Inr_iff)
    define h2 where "h2 = h\<lparr>socks := (socks h)(p \<mapsto> ?s1), swnds := (swnds h)(wnd_send s \<mapsto> w),
      blocks := (blocks h)(send_windows w \<mapsto> blk')\<rparr>"
    have h2: "h1\<lparr>blocks := (blocks h)(send_windows w \<mapsto> blk')\<rparr> = h2"
      using s(2) by (simp add: h1_def h2_def fun_upd_idem)
    have P2: "sender_ok p prt a (W @ U) W [] e h2"
      unfolding h2_def using W U V blk' out_ok_mono
      by (intro sender_ok_rebuild [OF P s, where blk = blk' and sb = sb]) auto
    have out: "out_ok prt (W @ U) m" if "22 + k \<le> 1400"
      unfolding out_ok_def using k that W(5)
      by (intro disjI1 exI [of _ "length W"] exI [of _ "take k U"] exI [of _ ?adv]) (auto simp: min_def)
    have lm: "length m = 22 + k"
      using k(1,2) by (simp add: k(3))
    have P3: "sender_ok p prt a (W @ U) W [] e h3"
      by (rule sendToLayer3_keeps [OF P2 out lm]) (use send k(4) h2 in simp_all)
    have P4: "sender_ok p prt a (W @ U) W [] e h4"
      using st P3 keepsD [OF start_timer_keeps P3] by (cases "nextseq w = base w") auto
    obtain s4 where s4: "socks h4 p = Some s4" "wnd_send s4 = a" "nextseq w4 = of_nat (length W)" "unat (base w4) \<le> e"
      using P4 w4 by (elim sender_okE) auto
    have "sender_ok p prt a (W @ U) (W @ U) [] e
        (h4\<lparr>swnds := (swnds h4)(a \<mapsto> w4\<lparr>nextseq := nextseq w4 + of_nat (length U)\<rparr>)\<rparr>)"
      using sender_ok_swnd [OF P4 s4(1), of w4 "w4\<lparr>nextseq := nextseq w4 + of_nat (length U)\<rparr>" "W @ U"] s4 w4 W(7) by simp
    then show ?thesis
      unfolding h' sleep_def by (rule sender_ok_clock)
  qed
qed

section \<open>The receiver's invariant\<close>

text \<open>\<open>D\<close> is what the server has taken from the network, \<open>G\<close> the part its application has
  read. Beside the \<open>SYN|ACK\<close> of the handshake the server sends nothing but acknowledgements
  of prefixes of \<open>D\<close>.\<close>

definition in_ok :: "u16 \<Rightarrow> nat \<Rightarrow> bytes \<Rightarrow> bool" where
  "in_ok prt n m \<longleftrightarrow> (\<exists>k adv. k \<le> n \<and> m = segment prt 5678 (of_nat k) (of_nat k) ACK adv [])
     \<or> m = segment prt 5678 22 1 (SYN OR ACK) 100 []"

definition receiver_ok :: "ptr \<Rightarrow> u16 \<Rightarrow> bytes \<Rightarrow> bytes \<Rightarrow> host \<Rightarrow> bool" where
  "receiver_ok q prt D G h \<longleftrightarrow> (\<exists>s r w t c. server_side h q prt s r \<and> state s = ESTABLISHED \<and> \<not> recv_lock s
     \<and> swnds h (wnd_send s) = Some w \<and> nextseq w = 0 \<and> timers h (rtt_timer s) = Some t \<and> started t = 0
     \<and> expect_seq r = of_nat (length D) \<and> rcv_rep h s c \<and> D = G @ c
     \<and> (\<forall>m \<in> set (wire h). in_ok prt (length D) m))"

lemma in_ok_mono: "in_ok prt n m \<Longrightarrow> n \<le> n' \<Longrightarrow> in_ok prt n' m"
  unfolding in_ok_def by (metis le_trans)

lemma receiver_ok_ack:
  assumes R: "receiver_ok q prt D G h" and run: "onTCPPocket junk (segment 5678 prt 0 0 ACK adv []) h = Inr (v, h')"
  shows "receiver_ok q prt D G h'"
proof -
  let ?m = "segment 5678 prt 0 0 ACK adv []"
  obtain s r w t c where s: "server_side h q prt s r" "state s = ESTABLISHED" "\<not> recv_lock s"
    "swnds h (wnd_send s) = Some w" "nextseq w = 0" "timers h (rtt_timer s) = Some t" "started t = 0"
    "expect_seq r = of_nat (length D)" "rcv_rep h s c" "D = G @ c" "\<forall>m \<in> set (wire h). in_ok prt (length D) m"
    using R unfolding receiver_ok_def by blast
  have sq: "socks h q = Some s" "heap_ok h"
    using s(1) by (simp_all add: server_side_def)
  let ?w = "w\<lparr>rwnd := adv, base := 0\<rparr>"
  have run': "tju_handle_packet q ?m h = Inr (v, h')"
    using run server_side_dispatch [where dat = "[]" and junk = junk, OF s(1) _ refl] s(2) by simp
  then obtain s' where s': "handle_success_ack s = Inr s'"
    using sq s(4) by (auto simp: tju_handle_packet_def receive_ack_def Let_def)
  have core: "same_core s s'" "recv_lock s' = recv_lock s" "received_buf s' = received_buf s" "received_len s' = received_len s"
    using handle_success_ack_core [OF s'] s'
    by (auto simp: handle_success_ack_def Let_def split: con_state.splits if_splits)
  have h': "h' = h\<lparr>socks := (socks h)(q \<mapsto> s'), swnds := (swnds h)(wnd_send s \<mapsto> ?w)\<rparr>"
    using run' sq s(4-7) s' core(1)
    by (simp add: tju_handle_packet_def receive_ack_def same_core_def get_plen_segment tcp_stop_timer_def
        stop_timer_with_def Let_def)
  have "heap_ok (h\<lparr>socks := (socks h)(q \<mapsto> s')\<rparr>)"
    by (rule heap_ok_updates(1) [OF sq(2,1)])
  then have "heap_ok h'"
    unfolding h' using heap_ok_updates(2) [where h = "h\<lparr>socks := (socks h)(q \<mapsto> s')\<rparr>"] s(4) by fastforce
  then have "server_side h' q prt s' r"
    using s(1) core(1) by (simp add: server_side_def same_core_def h')
  then show ?thesis
    unfolding receiver_ok_def using s core
    by (intro exI [of _ s'] exI [of _ r] exI [of _ ?w] exI [of _ t] exI [of _ c]) (simp add: same_core_def h' rcv_rep_def)
qed

lemma of_nat_u32_less: "i < 2 ^ 32 \<Longrightarrow> j < 2 ^ 32 \<Longrightarrow> (of_nat i :: u32) < of_nat j \<longleftrightarrow> i < j"
  and of_nat_u32_eq: "i < 2 ^ 32 \<Longrightarrow> j < 2 ^ 32 \<Longrightarrow> (of_nat i :: u32) = of_nat j \<longleftrightarrow> i = j"
  by (simp_all add: word_less_nat_alt word_unat_eq_iff unat_of_nat)

text \<open>A data segment extends \<open>D\<close> along \<open>W\<close>, or leaves it; so does the \<open>SYN\<close>, which is empty.\<close>

lemma receiver_ok_data:
  assumes R: "receiver_ok q prt D G h" and D: "prefix D W" and W: "length W < 2 ^ 30"
    and dat: "i + length dat \<le> length W" "dat = take (length dat) (drop i W)" "22 + length dat \<le> 1400"
    and fl: "data_flag fl" "fl \<noteq> ACK OR FIN"
    and run: "onTCPPocket junk (segment 5678 prt (of_nat i) 0 fl adv dat) h = Inr (v, h')"
  shows "\<exists>D'. prefix D' W \<and> prefix D D' \<and> receiver_ok q prt D' G h'"
proof -
  let ?m = "segment 5678 prt (of_nat i) 0 fl adv dat"
  obtain s r w t c where s: "server_side h q prt s r" "state s = ESTABLISHED" "\<not> recv_lock s"
    "swnds h (wnd_send s) = Some w" "nextseq w = 0" "timers h (rtt_timer s) = Some t" "started t = 0"
    "expect_seq r = of_nat (length D)" "rcv_rep h s c" "D = G @ c" "\<forall>m \<in> set (wire h). in_ok prt (length D) m"
    using R unfolding receiver_ok_def by blast
  have sq: "socks h q = Some s" "heap_ok h" "name_of h \<noteq> OtherHost" "rwnds h (wnd_recv s) = Some r"
    "port (established_local_addr s) = prt" "port (established_remote_addr s) = 5678"
    using s(1) by (simp_all add: server_side_def)
  have lD: "length D \<le> length W" "length c \<le> length D"
    using prefix_length_le [OF D] s(10) by simp_all
  have len: "22 + length dat < 65536" "length c + length dat < 2 ^ 31"
    using dat(3) lD W by simp_all
  have run': "tju_handle_packet q ?m h = Inr (v, h')"
    using run server_side_dispatch [where junk = junk, OF s(1) len(1) refl] s(2) fl(2) by simp
  define D' where "D' = (if i = length D then D @ dat else D)"
  define c' where "c' = (if i = length D then c @ dat else c)"
  define reply where "reply = (if i \<le> length D then Some (of_nat (length D') :: u32) else None)"
  have spec: "gbn_receive (of_nat i) dat (expect_seq r, c) = ((of_nat (length D'), c'), reply)"
    using dat(1) lD(1) W
    by (auto simp: s(8) of_nat_u32_eq of_nat_u32_less D'_def c'_def reply_def)
  obtain g where g: "tju_handle_packet q ?m h = Inr (0, g)" "heap_ok g" "rcv_state g q (of_nat (length D'), c')"
    "rcv_frame q s h g" "wire g = wire h @ (case reply of None \<Rightarrow> []
        | Some a \<Rightarrow> [control s a ACK (to_u16 (TCP_RECV_BUFFER_SIZE - received_len s))])"
    using handle_data_effect [where src = 5678 and dst = prt and ack = 0 and adv = adv,
        OF sq(2,1) s(3,4) sq(4) s(9) fl(1) len sq(3) refl spec]
    by auto
  have gh: "h' = g"
    using run' g(1) by simp
  have W': "prefix D' W"
  proof (cases "i = length D")
    case True
    have "W = D @ drop i W"
      using D True by (auto elim: prefixE)
    then show ?thesis
      using True dat(2) by (metis D'_def append_same_eq append_take_drop_id prefix_def same_prefix_prefix take_is_prefix)
  qed (use D in \<open>simp add: D'_def\<close>)
  have DD: "prefix D D'" "D' = G @ c'"
    by (simp_all add: D'_def c'_def s(10))
  obtain s' where s': "socks g = (socks h)(q \<mapsto> s')"
    "s' = s\<lparr>received_buf := received_buf s', received_len := received_len s', recv_lock := False\<rparr>"
    and gfr: "g = h\<lparr>socks := socks g, swnds := swnds g, rwnds := rwnds g, blocks := blocks g,
             next_ptr := next_ptr g, wire := wire g\<rparr>"
    using g(4) unfolding rcv_frame_def by blast
  obtain w0 w' where w0: "swnds h (wnd_send s) = Some w0" "swnds g = (swnds h)(wnd_send s \<mapsto> w')" "w' = w0\<lparr>rwnd := rwnd w'\<rparr>"
    using g(4) unfolding rcv_frame_def by (elim exE conjE) (rule that)
  have w': "swnds g (wnd_send s) = Some w'" "nextseq w' = 0"
    using w0(1) s(4,5) by (simp add: w0(2), subst w0(3), simp)
  obtain r' where r': "rwnds g (wnd_recv s') = Some r'" "expect_seq r' = of_nat (length D')" "rcv_rep g s' c'" "\<not> recv_lock s'"
    using g(3) s'(1) by (auto simp: rcv_state_def)
  have core: "state s' = state s" "wnd_send s' = wnd_send s" "rtt_timer s' = rtt_timer s"
    "established_local_addr s' = established_local_addr s" "established_remote_addr s' = established_remote_addr s"
    by (subst s'(2), simp)+
  have same: "timers g = timers h" "name_of g = name_of h" "is_server g = is_server h"
    "established_queue g = established_queue h"
    by (subst gfr, simp)+
  have "server_side g q prt s' r'"
    using s(1) s'(1) r'(1) g(2) core same by (simp add: server_side_def)
  moreover have "\<forall>m \<in> set (wire g). in_ok prt (length D') m"
    using s(11) in_ok_mono prefix_length_le [OF DD(1)] sq(5,6)
    by (auto simp: g(5) reply_def control_def in_ok_def split: if_splits) blast+
  ultimately have "receiver_ok q prt D' G g"
    unfolding receiver_ok_def using s w' r' core same DD(2)
    by (intro exI [of _ s'] exI [of _ r'] exI [of _ w'] exI [of _ t] exI [of _ c']) simp
  then show ?thesis
    using W' DD gh by blast
qed

lemma receiver_ok_recv:
  assumes R: "receiver_ok q prt D G h" and run: "tcp_recv q (int n) h = Inr (v, dat, h')"
  shows "receiver_ok q prt D (G @ dat) h'"
proof -
  obtain s r w t c where s: "server_side h q prt s r" "state s = ESTABLISHED" "\<not> recv_lock s"
    "swnds h (wnd_send s) = Some w" "nextseq w = 0" "timers h (rtt_timer s) = Some t" "started t = 0"
    "expect_seq r = of_nat (length D)" "rcv_rep h s c" "D = G @ c" "\<forall>m \<in> set (wire h). in_ok prt (length D) m"
    using R unfolding receiver_ok_def by blast
  have sq: "socks h q = Some s" "heap_ok h"
    using s(1) by (simp_all add: server_side_def)
  have c: "c \<noteq> []"
    using run sq(1) s(9) by (auto simp: tcp_recv_def rcv_rep_def)
  obtain s' b where *: "dat = take n c" "h' = h\<lparr>socks := (socks h)(q \<mapsto> s'), blocks := (blocks h)(received_buf s \<mapsto> b)\<rparr>"
    "s' = s\<lparr>received_len := int (length (drop n c)), recv_lock := False\<rparr>" "rcv_rep h' s' (drop n c)"
    using tcp_recv_result [OF sq(1) s(3,9) c, of n] run by auto
  have nn: "blocks h (received_buf s) \<noteq> None"
    using s(9) c by (auto simp: rcv_rep_def split: if_splits)
  have "heap_ok h'"
    using sq(2) nn heap_ok_bound(1) [OF sq(2,1)] heap_ok_bound(7) [OF sq(2)] by (auto simp: *(2) heap_ok_def)
  then have "server_side h' q prt s' r"
    using s(1) by (simp add: server_side_def *(2,3))
  then show ?thesis
    unfolding receiver_ok_def using s * 
    by (intro exI [of _ s'] exI [of _ r] exI [of _ w] exI [of _ t] exI [of _ "drop n c"]) simp
qed

section \<open>The data phase as a transition system\<close>

text \<open>
  A configuration is the client, the server, the bytes the client's application has passed
  to successful \<open>tcp_send\<close> calls, and the bytes the server's application has received. The
  datagrams a host has sent stay in its \<open>wire\<close>, so a delivery may happen late, never, out of
  order or more than once. Two conditions restrict the runs: the sending thread runs while
  the window is open (it discards the data otherwise), and the timer has not expired more
  than ten times (the client gives the connection up then).
\<close>

type_synonym config = "host \<times> host \<times> bytes \<times> bytes"

inductive data_step :: "tju_tcp_t \<Rightarrow> ptr \<Rightarrow> ptr \<Rightarrow> config \<Rightarrow> config \<Rightarrow> bool" for junk p q where
  Send: "tcp_send p buf len A = Inr (v, A') \<Longrightarrow>
     data_step junk p q (A, B, acc, got) (A', B, if v = 0 then acc @ take (nat len) buf else acc, got)"
| Round: "tcp_send_stream_round p A = Inr A' \<Longrightarrow> window_open A p \<Longrightarrow>
     data_step junk p q (A, B, acc, got) (A', B, acc, got)"
| Timer: "tcp_check_timeout tid A = Inr A' \<Longrightarrow> \<forall>s. socks A p = Some s \<longrightarrow> timeout_counts s \<le> 10 \<Longrightarrow>
     data_step junk p q (A, B, acc, got) (A', B, acc, got)"
| Tick: "data_step junk p q (A, B, acc, got) (A\<lparr>clock := n\<rparr>, B, acc, got)"
| Data: "m \<in> set (wire A) \<Longrightarrow> onTCPPocket junk m B = Inr (v, B') \<Longrightarrow>
     data_step junk p q (A, B, acc, got) (A, B', acc, got)"
| Ack: "m \<in> set (wire B) \<Longrightarrow> onTCPPocket junk m A = Inr (v, A') \<Longrightarrow>
     data_step junk p q (A, B, acc, got) (A', B, acc, got)"
| Recv: "tcp_recv q (int n) B = Inr (v, dat, B') \<Longrightarrow>
     data_step junk p q (A, B, acc, got) (A, B', acc, got @ dat)"

definition data_inv :: "ptr \<Rightarrow> ptr \<Rightarrow> u16 \<Rightarrow> config \<Rightarrow> bool" where
  "data_inv p q prt cfg \<longleftrightarrow> (case cfg of (A, B, acc, got) \<Rightarrow>
     \<exists>a W U D. sender_ok p prt a W W U (length D) A \<and> receiver_ok q prt D got B \<and> prefix D W \<and> acc = W @ U)"

lemma sender_ok_mono_e:
  assumes "sender_ok p prt a V W U e h" "e \<le> e'" "e' \<le> length W"
  shows "sender_ok p prt a V W U e' h"
  using assms(1) unfolding sender_ok_def
  by (elim exE conjE, intro exI conjI) (assumption | (erule le_trans, rule assms(2)) | rule assms(3))+

lemma data_invI:
  "sender_ok p prt a W W U (length D) A \<Longrightarrow> receiver_ok q prt D got B \<Longrightarrow> prefix D W \<Longrightarrow> acc = W @ U \<Longrightarrow>
     data_inv p q prt (A, B, acc, got)"
  by (auto simp: data_inv_def)

lemma data_invE:
  assumes "data_inv p q prt (A, B, acc, got)"
  obtains a W U D where "sender_ok p prt a W W U (length D) A" "receiver_ok q prt D got B" "prefix D W" "acc = W @ U"
  using assms by (auto simp: data_inv_def)

lemma data_inv_data:
  assumes inv: "data_inv p q prt (A, B, acc, got)" and m: "m \<in> set (wire A)" and run: "onTCPPocket junk m B = Inr (v, B')"
  shows "data_inv p q prt (A, B', acc, got)"
proof -
  obtain a W U D where P: "sender_ok p prt a W W U (length D) A" and R: "receiver_ok q prt D got B"
    and D: "prefix D W" "acc = W @ U"
    using inv by (rule data_invE)
  have out: "out_ok prt W m" and W: "length W < 2 ^ 30"
    using P m by (auto elim!: sender_okE)
  have ext: "data_inv p q prt (A, B', acc, got)"
    if D': "prefix D' W" "prefix D D'" "receiver_ok q prt D' got B'" for D'
  proof -
    have "sender_ok p prt a W W U (length D') A"
      by (rule sender_ok_mono_e [OF P]) (use D' in \<open>simp_all add: prefix_length_le\<close>)
    then show ?thesis
      using D'(3,1) D(2) by (rule data_invI)
  qed
  show ?thesis
    using out unfolding out_ok_def
  proof (elim disjE exE conjE)
    fix i dat adv
    assume "m = segment 5678 prt (of_nat i) 0 NO_FLAG adv dat" and dat: "i + length dat \<le> length W"
      "dat = take (length dat) (drop i W)" "22 + length dat \<le> 1400"
    moreover have "data_flag NO_FLAG" "NO_FLAG \<noteq> ACK OR FIN"
      by (simp_all add: data_flag_def)
    ultimately obtain D' where "prefix D' W" "prefix D D'" "receiver_ok q prt D' got B'"
      using receiver_ok_data [OF R D(1) W dat] run by blast
    then show ?thesis
      using ext by blast
  next
    fix adv
    assume "m = segment 5678 prt 0 0 SYN adv []"
    then obtain D' where "prefix D' W" "prefix D D'" "receiver_ok q prt D' got B'"
      using receiver_ok_data [OF R D(1) W, where i = 0 and dat = "[]" and fl = SYN] run by (simp add: data_flag_def) blast
    then show ?thesis
      using ext by blast
  next
    fix adv
    assume "m = segment 5678 prt 0 0 ACK adv []"
    then have "receiver_ok q prt D got B'"
      using receiver_ok_ack [OF R] run by blast
    with P show ?thesis
      using D by (rule data_invI)
  qed
qed

lemma data_inv_ack:
  assumes inv: "data_inv p q prt (A, B, acc, got)" and m: "m \<in> set (wire B)" and run: "onTCPPocket junk m A = Inr (v, A')"
  shows "data_inv p q prt (A', B, acc, got)"
proof -
  obtain a W U D where P: "sender_ok p prt a W W U (length D) A" and R: "receiver_ok q prt D got B"
    and D: "prefix D W" "acc = W @ U"
    using inv by (rule data_invE)
  have "in_ok prt (length D) m"
    using R m by (auto simp: receiver_ok_def)
  then have "sender_ok p prt a W W U (length D) A'"
    unfolding in_ok_def using sender_ok_ack [OF P] sender_ok_syn_ack [OF P] run by blast
  then show ?thesis
    using R D by (rule data_invI)
qed

lemma data_step_inv:
  assumes "data_inv p q prt cfg" "data_step junk p q cfg cfg'"
  shows "data_inv p q prt cfg'"
  using assms(2,1)
proof induction
  case (Send buf len A v A' B acc got)
  obtain a W U D where P: "sender_ok p prt a W W U (length D) A" and R: "receiver_ok q prt D got B"
    and D: "prefix D W" "acc = W @ U"
    using Send(2) by (rule data_invE)
  show ?case
    using data_invI [OF sender_ok_tcp_send [OF P Send(1)] R D(1) refl] by (cases "v = 0") (simp_all add: D(2))
next
  case (Round A A' B acc got)
  obtain a W U D where P: "sender_ok p prt a W W U (length D) A" and R: "receiver_ok q prt D got B"
    and D: "prefix D W" "acc = W @ U"
    using Round(3) by (rule data_invE)
  show ?case
    by (rule data_invI [OF sender_ok_round [OF P Round(1,2)] R]) (simp_all add: D prefix_prefix)
next
  case (Timer tid A A' B acc got)
  obtain a W U D where P: "sender_ok p prt a W W U (length D) A" and R: "receiver_ok q prt D got B"
    and D: "prefix D W" "acc = W @ U"
    using Timer(3) by (rule data_invE)
  show ?case
    using poll_keeps [OF P Timer(1)] Timer(2) R D by (intro data_invI) simp_all
next
  case (Tick A B acc got n)
  then show ?case
    using sender_ok_clock by (elim data_invE) (rule data_invI)
next
  case (Data m A B v B' acc got)
  then show ?case
    using data_inv_data by blast
next
  case (Ack m B A v A' acc got)
  then show ?case
    using data_inv_ack by blast
next
  case (Recv n B v dat B' A acc got)
  then show ?case
    using receiver_ok_recv [OF _ Recv(1)] by (elim data_invE) (rule data_invI)
qed

lemma data_inv_prefix: "data_inv p q prt (A, B, acc, got) \<Longrightarrow> prefix got acc"
  by (elim data_invE) (auto simp: receiver_ok_def prefix_def)

interpretation data_phase: step_system "data_step junk p q" "data_inv p q prt"
  by unfold_locales (rule data_step_inv)

text \<open>An established connection before its first byte. Of the datagrams of the handshake the
  network may still hold the \<open>SYN\<close> and the \<open>SYN|ACK\<close>.\<close>

definition data_start :: "ptr \<Rightarrow> ptr \<Rightarrow> u16 \<Rightarrow> host \<Rightarrow> host \<Rightarrow> bool" where
  "data_start p q prt A B \<longleftrightarrow>
     (\<exists>s r w t blk sb. client_side A p prt s r \<and> state s = ESTABLISHED \<and> expect_seq r = 0
        \<and> swnds A (wnd_send s) = Some w \<and> base w = 0 \<and> nextseq w = 0 \<and> timers A (rtt_timer s) = Some t
        \<and> blocks A (send_windows w) = Some blk \<and> length blk < 2 ^ 30
        \<and> blocks A (sending_buf s) = Some sb \<and> sending_buf s \<noteq> send_windows w \<and> sending_len s = 0
        \<and> (\<forall>tid th. threads A tid = Some th \<longrightarrow> th_sock th = p) \<and> (\<forall>m \<in> set (wire A). out_ok prt [] m))
   \<and> (\<exists>s r w t. server_side B q prt s r \<and> state s = ESTABLISHED \<and> \<not> recv_lock s
        \<and> swnds B (wnd_send s) = Some w \<and> nextseq w = 0 \<and> timers B (rtt_timer s) = Some t \<and> started t = 0
        \<and> expect_seq r = 0 \<and> rcv_rep B s [] \<and> (\<forall>m \<in> set (wire B). in_ok prt 0 m))"

lemma data_start_inv:
  assumes "data_start p q prt A B"
  shows "data_inv p q prt (A, B, [], [])"
proof -
  obtain s r w t blk sb where "client_side A p prt s r" "state s = ESTABLISHED" "expect_seq r = 0"
    "swnds A (wnd_send s) = Some w" "base w = 0" "nextseq w = 0" "timers A (rtt_timer s) = Some t"
    "blocks A (send_windows w) = Some blk" "length blk < 2 ^ 30"
    "blocks A (sending_buf s) = Some sb" "sending_buf s \<noteq> send_windows w" "sending_len s = 0"
    "\<forall>tid th. threads A tid = Some th \<longrightarrow> th_sock th = p" "\<forall>m \<in> set (wire A). out_ok prt [] m"
    using assms unfolding data_start_def by blast
  then have "sender_ok p prt (wnd_send s) [] [] [] 0 A"
    unfolding sender_ok_def
    by (intro exI [of _ s] exI [of _ r] exI [of _ w] exI [of _ t] exI [of _ blk] exI [of _ sb]) simp
  moreover obtain s r w t where "server_side B q prt s r" "state s = ESTABLISHED" "\<not> recv_lock s"
    "swnds B (wnd_send s) = Some w" "nextseq w = 0" "timers B (rtt_timer s) = Some t" "started t = 0"
    "expect_seq r = 0" "rcv_rep B s []" "\<forall>m \<in> set (wire B). in_ok prt 0 m"
    using assms unfolding data_start_def by blast
  then have "receiver_ok q prt [] [] B"
    unfolding receiver_ok_def
    by (intro exI [of _ s] exI [of _ r] exI [of _ w] exI [of _ t] exI [of _ "[]"]) simp
  ultimately show ?thesis
    by (intro data_invI [where D = "[]" and W = "[]" and U = "[]"]) simp_all
qed

end
