(* ===== verification/Lossless.thy ===== *)
theory Lossless
  imports Delivery
begin

text \<open>
  The end-to-end guarantees of the data phase: what the server's application reads is a
  prefix of what the client's application has sent, over any network; and a network that
  delivers every datagram once and in order delivers everything. The second is proved for
  runs of exchanges, each of which sends a chunk, passes the segment on, reads it and
  returns the acknowledgement.
\<close>

section \<open>One exchange\<close>

text \<open>The client has nothing outstanding and no timer running; \<open>k\<close> bytes have been sent. And
  the client waits for the acknowledgement of byte \<open>k\<close> with its timer running.\<close>

definition client_quiet :: "ptr \<Rightarrow> u16 \<Rightarrow> nat \<Rightarrow> host \<Rightarrow> bool" where
  "client_quiet p prt k h \<longleftrightarrow> (\<exists>s r w t blk sb. client_side h p prt s r \<and> state s = ESTABLISHED
     \<and> \<not> send_lock s \<and> sending_len s = 0 \<and> sending_capacity s = 176000 \<and> cc_inv s
     \<and> swnds h (wnd_send s) = Some w \<and> base w = of_nat k \<and> nextseq w = of_nat k \<and> window_size w = 44928
     \<and> timers h (rtt_timer s) = Some t \<and> started t = 0 \<and> dev_rtt t = 3 \<and> is_f32 (estimated_rtt t)
     \<and> (timeout t = 3 \<or> timeout t = 12) \<and> poll_delay h < 2
     \<and> blocks h (send_windows w) = Some blk \<and> length blk = 176000
     \<and> blocks h (sending_buf s) = Some sb \<and> length sb = 176000 \<and> sending_buf s \<noteq> send_windows w
     \<and> (received_buf s \<noteq> NULL \<longrightarrow> blocks h (received_buf s) \<noteq> None))"

definition client_waiting :: "ptr \<Rightarrow> u16 \<Rightarrow> nat \<Rightarrow> host \<Rightarrow> bool" where
  "client_waiting p prt k h \<longleftrightarrow> (\<exists>s r w t blk sb th. client_side h p prt s r \<and> state s = ESTABLISHED
     \<and> \<not> send_lock s \<and> sending_len s = 0 \<and> sending_capacity s = 176000 \<and> cc_inv s
     \<and> swnds h (wnd_send s) = Some w \<and> nextseq w = of_nat k \<and> window_size w = 44928
     \<and> timers h (rtt_timer s) = Some t \<and> timer_running h p t th \<and> dev_rtt t = 3 \<and> poll_delay h < 2
     \<and> blocks h (send_windows w) = Some blk \<and> length blk = 176000
     \<and> blocks h (sending_buf s) = Some sb \<and> length sb = 176000 \<and> sending_buf s \<noteq> send_windows w
     \<and> (received_buf s \<noteq> NULL \<longrightarrow> blocks h (received_buf s) \<noteq> None))"

text \<open>The chunk in the sending buffer, and taken out again by the sending thread.\<close>

definition buffered :: "ptr \<Rightarrow> tju_tcp_t \<Rightarrow> bytes \<Rightarrow> bytes \<Rightarrow> host \<Rightarrow> host" where
  "buffered p s sb c h = h\<lparr>blocks := (blocks h)(sending_buf s \<mapsto> c @ drop (length c) sb),
     socks := (socks h)(p \<mapsto> s\<lparr>sending_len := int (length c), send_lock := False\<rparr>)\<rparr>"

definition taken :: "ptr \<Rightarrow> tju_tcp_t \<Rightarrow> bytes \<Rightarrow> bytes \<Rightarrow> host \<Rightarrow> host" where
  "taken p s sb c h = (buffered p s sb c h)\<lparr>
     socks := (socks h)(p \<mapsto> s\<lparr>sending_len := 0, send_lock := False\<rparr>)\<rparr>"

lemma chunk_buffered:
  assumes "socks A p = Some s" "\<not> send_lock s" "sending_len s = 0" "sending_capacity s = 176000"
    and "blocks A (sending_buf s) = Some sb" "length sb = 176000" and "c \<noteq> []" "length c \<le> 176000"
  shows "tcp_send p c (int (length c)) A = Inr (0, buffered p s sb c A)"
    and "take_sending_buf p (buffered p s sb c A) = Inr (c, taken p s sb c A)"
  using assms
  by (simp_all add: tcp_send_def take_sending_buf_def mem_read_def lock_send_def block_read_def block_write_def
      mem_write_def update_sock_def unlock_send_def Let_def buffered_def taken_def)

lemma window_less:
  assumes "k \<le> 176000"
  shows "(of_nat k :: u32) < of_nat k + ucast (44928 :: u16)"
proof -
  have "(of_nat k :: u32) + ucast (44928 :: u16) = of_nat (k + 44928)"
    by simp
  then show ?thesis
    using assms of_nat_u32_less [of k "k + 44928"] by (simp only:) simp
qed

lemma client_transmits:
  assumes Q: "client_quiet p prt k A" and c: "c \<noteq> []" "length c \<le> 1378" "k + length c \<le> 176000"
  shows "\<exists>A1 A2 adv. tcp_send p c (int (length c)) A = Inr (0, A1) \<and> tcp_send_stream_round p A1 = Inr A2
    \<and> wire A2 = wire A @ [segment 5678 prt (of_nat k) 0 NO_FLAG adv c]
    \<and> window_open A1 p \<and> client_waiting p prt (k + length c) A2"
proof -
  obtain s r w t blk sb where cs: "client_side A p prt s r" and s: "state s = ESTABLISHED"
     "\<not> send_lock s" "sending_len s = 0" "sending_capacity s = 176000" "cc_inv s"
     and w: "swnds A (wnd_send s) = Some w" "base w = of_nat k" "nextseq w = of_nat k" "window_size w = 44928"
     and t: "timers A (rtt_timer s) = Some t" "started t = 0" "dev_rtt t = 3" "is_f32 (estimated_rtt t)"
     "timeout t = 3 \<or> timeout t = 12" "poll_delay A < 2"
     and b: "blocks A (send_windows w) = Some blk" "length blk = 176000"
     "blocks A (sending_buf s) = Some sb" "length sb = 176000" "sending_buf s \<noteq> send_windows w"
     and rb: "received_buf s \<noteq> NULL \<longrightarrow> blocks A (received_buf s) \<noteq> None"
    using Q unfolding client_quiet_def by metis
  have sp: "socks A p = Some s" "heap_ok A" "name_of A = Client" "port (established_local_addr s) = 5678"
    "port (established_remote_addr s) = prt"
    using cs by (simp_all add: client_side_def)
  let ?n = "length c"
  have uk: "uint (of_nat k :: u32) = int k" "unat (of_nat k :: u32) = k"
    using c(3) by (simp_all add: uint_nat unat_of_nat)
  let ?sb = "c @ drop ?n sb" and ?blk = "take k blk @ c @ drop (k + ?n) blk"
  let ?s1 = "s\<lparr>sending_len := int ?n, send_lock := False\<rparr>" and ?adv = "to_u16 (100 - received_len s)"
  define A1 where "A1 = buffered p s sb c A"
  note A1_eq = A1_def [unfolded buffered_def]
  define s2 where "s2 = s\<lparr>sending_len := 0, send_lock := False\<rparr>"
  have s2: "state s2 = state s" "wnd_send s2 = wnd_send s" "wnd_recv s2 = wnd_recv s" "rtt_timer s2 = rtt_timer s"
    "established_local_addr s2 = established_local_addr s" "established_remote_addr s2 = established_remote_addr s"
    "\<not> send_lock s2" "sending_len s2 = 0" "sending_capacity s2 = sending_capacity s" "sending_buf s2 = sending_buf s"
    "received_len s2 = received_len s" "received_buf s2 = received_buf s" "cc_inv (s2\<lparr>interrupt_signal := 0\<rparr>)"
    using s(5) by (simp_all add: s2_def cc_inv_def)
  define h2 where "h2 = A1\<lparr>socks := (socks A)(p \<mapsto> s2)\<rparr>"
  have send: "tcp_send p c (int ?n) A = Inr (0, A1)" and take: "take_sending_buf p A1 = Inr (c, h2)"
    using chunk_buffered [OF sp(1) s(2-4) b(3,4) c(1)] c(2) by (simp_all add: A1_def h2_def s2_def taken_def)
  define h3 where "h3 = h2\<lparr>blocks := (blocks h2)(send_windows w \<mapsto> ?blk)\<rparr>"
  let ?m = "segment 5678 prt (of_nat k) 0 NO_FLAG ?adv c"
  define h4 where "h4 = h3\<lparr>wire := wire A @ [?m]\<rparr>"
  let ?w = "w\<lparr>nextseq := of_nat (k + ?n)\<rparr>"
  define A2 where "A2 = sleep 1 ((launched p s2 t h4)\<lparr>swnds := (swnds A)(wnd_send s \<mapsto> ?w)\<rparr>)"
  have less: "(of_nat k :: u32) < of_nat k + ucast (44928 :: u16)"
    using c(3) by (intro window_less) simp
  have mk: "create_packet_buf 5678 prt (of_nat k) 0 22 (to_u16 (22 + int ?n)) NO_FLAG ?adv 0 c (int ?n) = Inr ?m"
    using create_segment [of c 5678 prt "of_nat k" 0 NO_FLAG ?adv] c by (simp add: seg_len_u16)
  have len: "uint (to_u16 (22 + int ?n)) = 22 + int ?n"
    using c(2) uint_seg_len [of ?n] by (simp add: seg_len_u16)
  have h3': "swnds h3 = swnds A" "timers h3 = timers A" "name_of h3 = Client" "threads h3 = threads A" "wire h3 = wire A"
    "socks h3 = (socks A)(p \<mapsto> s2)"
    by (simp_all add: h3_def h2_def A1_eq sp)
  have start: "tcp_start_timer p h4 = Inr (launched p s2 t h4)"
    by (rule tcp_start_timer_idle) (simp_all add: h4_def h3' s2 t timer_idle_def)
  have seg: "send_segment p c h2 = Inr ((launched p s2 t h4)\<lparr>swnds := (swnds A)(wnd_send s \<mapsto> ?w)\<rparr>)"
  proof -
    have "block_write (send_windows w) (int k) c h2 = Inr h3"
      using b c by (simp add: block_write_def mem_write_def h3_def h2_def A1_eq)
    moreover have "sendToLayer3 ?m (22 + int ?n) h3 = Inr h4"
      using sendToLayer3_segment [of c h3] c(2) by (simp add: h3' h4_def)
    moreover have "socks h2 p = Some s2" "swnds h2 (wnd_send s) = Some w" "swnds (launched p s2 t h4) = swnds A"
      using w(1) by (simp_all add: h2_def A1_eq h4_def h3')
    ultimately show ?thesis
      using s2 sp(4,5) w less mk len start uk(1)
      by (simp add: send_segment_def Let_def to_u16_def [of 22] to_u32_def)
  qed
  have round: "tcp_send_stream_round p A1 = Inr A2"
    using c(1) take seg by (simp add: tcp_send_stream_round_def A1_eq A2_def)
  let ?s3 = "s2\<lparr>interrupt_signal := 0\<rparr>" and ?t = "t\<lparr>started := 1, timer_thread := next_tid A\<rparr>"
  let ?th = "\<lparr>th_sock = p, th_limit = timeout t, th_since = clock A\<rparr>"
  have A2: "socks A2 = (socks A)(p \<mapsto> ?s3)" "swnds A2 = (swnds A)(wnd_send s \<mapsto> ?w)" "rwnds A2 = rwnds A"
    "timers A2 = (timers A)(rtt_timer s \<mapsto> ?t)" "threads A2 = (threads A)(next_tid A \<mapsto> ?th)"
    "blocks A2 = (blocks A)(sending_buf s \<mapsto> ?sb, send_windows w \<mapsto> ?blk)" "clock A2 = clock A + 1"
    "poll_delay A2 = poll_delay A" "name_of A2 = name_of A" "is_server A2 = is_server A"
    "connect_sock A2 = connect_sock A" "wire A2 = wire A @ [?m]" "next_ptr A2 = next_ptr A"
    "queues A2 = queues A" "nodes A2 = nodes A"
    by (simp_all add: A2_def sleep_def h4_def h3_def h2_def A1_eq s2)
  have "heap_ok A2"
    using sp(2) heap_ok_bound [OF sp(2)] sp(1) w(1) t(1) b(1,3) by (auto simp: heap_ok_def A2)
  then have "client_side A2 p prt ?s3 r"
    using cs by (simp add: client_side_def A2 s2)
  moreover have "timer_running A2 p ?t ?th"
    using t by (auto simp: timer_running_def A2 is_f32_def fl32_3_12)
  moreover have "length ?blk = 176000" "length ?sb = 176000"
    using b c by simp_all
  ultimately have "client_waiting p prt (k + ?n) A2"
    unfolding client_waiting_def using s s2 w t b rb
    by (intro exI [of _ ?s3] exI [of _ r] exI [of _ ?w] exI [of _ ?t] exI [of _ ?blk] exI [of _ ?sb] exI [of _ ?th])
      (simp add: A2)
  moreover have "window_open A1 p"
    using w less by (simp add: window_open_def A1_eq)
  ultimately show ?thesis
    using send round A2(12) by blast
qed

text \<open>The sending thread copies every segment to the place its sequence number has in the block
  of the send window, whose end nobody looks at.\<close>

lemma client_overruns:
  assumes Q: "client_quiet p prt k A" and c: "k \<le> 176000" "length c \<le> 176000" "176000 < k + length c"
  shows "\<exists>A1. tcp_send p c (int (length c)) A = Inr (0, A1)
    \<and> tcp_send_stream_round p A1 = Inl (Undefined OutOfBounds)"
proof -
  obtain s w blk sb where s: "socks A p = Some s" "\<not> send_lock s" "sending_len s = 0" "sending_capacity s = 176000"
     and w: "swnds A (wnd_send s) = Some w" "base w = of_nat k" "nextseq w = of_nat k" "window_size w = 44928"
     and b: "blocks A (send_windows w) = Some blk" "length blk = 176000"
     "blocks A (sending_buf s) = Some sb" "length sb = 176000" "sending_buf s \<noteq> send_windows w"
    using Q unfolding client_quiet_def client_side_def by metis
  have c0: "c \<noteq> []"
    using c by auto
  have "uint (of_nat k :: u32) = int k"
    using c(1) by (simp add: uint_nat unat_of_nat)
  moreover have "block_write (send_windows w) (int k) c (taken p s sb c A) = Inl (Undefined OutOfBounds)"
    using b c(3) by (simp add: block_write_def mem_write_def taken_def buffered_def)
  ultimately have "send_segment p c (taken p s sb c A) = Inl (Undefined OutOfBounds)"
    using w window_less [OF c(1)] by (simp add: send_segment_def taken_def buffered_def Let_def)
  then have "tcp_send_stream_round p (buffered p s sb c A) = Inl (Undefined OutOfBounds)"
    using chunk_buffered(2) [OF s b(3,4) c0 c(2)] c0
    by (simp add: tcp_send_stream_round_def) (simp add: buffered_def)
  then show ?thesis
    using chunk_buffered(1) [OF s b(3,4) c0 c(2)] by blast
qed

lemma client_acked:
  assumes Q: "client_waiting p prt k A" and k: "k < 2 ^ 32"
  shows "\<exists>A'. onTCPPocket junk (segment prt 5678 (of_nat k) (of_nat k) ACK adv []) A = Inr (0, A')
    \<and> client_quiet p prt k A'"
proof -
  let ?m = "segment prt 5678 (of_nat k) (of_nat k) ACK adv []"
  obtain s r w t blk sb th where cs: "client_side A p prt s r" and s: "state s = ESTABLISHED"
     "\<not> send_lock s" "sending_len s = 0" "sending_capacity s = 176000" "cc_inv s"
     and w: "swnds A (wnd_send s) = Some w" "nextseq w = of_nat k" "window_size w = 44928"
     and t: "timers A (rtt_timer s) = Some t" "timer_running A p t th" "dev_rtt t = 3" "poll_delay A < 2"
     and b: "blocks A (send_windows w) = Some blk" "length blk = 176000"
     "blocks A (sending_buf s) = Some sb" "length sb = 176000" "sending_buf s \<noteq> send_windows w"
     and rb: "received_buf s \<noteq> NULL \<longrightarrow> blocks A (received_buf s) \<noteq> None"
    using Q unfolding client_waiting_def by metis
  have sp: "socks A p = Some s" "heap_ok A" "name_of A = Client" "port (established_local_addr s) = 5678"
    "port (established_remote_addr s) = prt"
    using cs by (simp_all add: client_side_def)
  obtain s' where s': "handle_success_ack s = Inr s'" "cc_inv s'"
    using handle_success_ack_inv [OF s(5)] by blast
  have core: "same_core s s'" "send_lock s' = send_lock s" "sending_capacity s' = sending_capacity s"
    "received_buf s' = received_buf s"
    using handle_success_ack_core [OF s'(1)] s'(1)
    by (auto simp: handle_success_ack_def Let_def split: con_state.splits if_splits)
  let ?w = "w\<lparr>rwnd := adv, base := of_nat k\<rparr>"
  define h1 where "h1 = A\<lparr>socks := (socks A)(p \<mapsto> s'), swnds := (swnds A)(wnd_send s \<mapsto> ?w)\<rparr>"
  have f: "socks h1 p = Some s'" "timers h1 (rtt_timer s') = Some t" "timer_running h1 p t th"
    using t core(1) by (simp_all add: h1_def same_core_def timer_running_def)
  have "onTCPPocket junk ?m A = tju_handle_packet p ?m A"
    using client_side_dispatch [where dat = "[]" and junk = junk, OF cs _ _ refl] s(1) by simp
  also have "\<dots> = Inr (0, stopped p s' t h1)"
    using sp(1) w s'(1) core(1) tcp_stop_timer_running [OF f]
    by (simp add: tju_handle_packet_def receive_ack_def same_core_def get_plen_segment Let_def h1_def)
  finally have run: "onTCPPocket junk ?m A = Inr (0, stopped p s' t h1)" .
  let ?A = "stopped p s' t h1" and ?s = "s'\<lparr>interrupt_signal := 1\<rparr>" and ?t = "(updated t)\<lparr>started := 0\<rparr>"
  have A': "socks ?A = (socks A)(p \<mapsto> ?s)" "swnds ?A = (swnds A)(wnd_send s \<mapsto> ?w)" "rwnds ?A = rwnds A"
    "timers ?A = (timers A)(rtt_timer s \<mapsto> ?t)" "blocks ?A = blocks A" "name_of ?A = name_of A"
    "is_server ?A = is_server A" "connect_sock ?A = connect_sock A" "next_ptr ?A = next_ptr A"
    "queues ?A = queues A" "nodes ?A = nodes A" "poll_delay ?A = poll_delay A"
    using core(1) by (simp_all add: stopped_def h1_def same_core_def)
  have "heap_ok ?A"
    using sp(2) heap_ok_bound [OF sp(2)] sp(1) w(1) t(1) by (auto simp: heap_ok_def A')
  then have "client_side ?A p prt ?s r"
    using cs core(1) by (simp add: client_side_def A' same_core_def)
  moreover have "CLOCK_G \<le> 12"
    using CLOCK_G_le(2) by linarith
  then have "is_f32 (estimated_rtt ?t)" "timeout ?t = 12"
    using t(3) by (simp_all add: updated_def rto_def is_f32_def f_mul_def fl32_3_12 max_def)
  ultimately have "client_quiet p prt k ?A"
    unfolding client_quiet_def using s s'(2) w t b rb core
    by (intro exI [of _ ?s] exI [of _ r] exI [of _ ?w] exI [of _ ?t] exI [of _ blk] exI [of _ sb])
      (simp add: A' same_core_def cc_inv_def)
  then show ?thesis
    using run by blast
qed

text \<open>The server has taken \<open>k\<close> bytes, of which its application has not yet read the last ones, \<open>u\<close>.\<close>

definition server_holds :: "ptr \<Rightarrow> u16 \<Rightarrow> nat \<Rightarrow> bytes \<Rightarrow> host \<Rightarrow> bool" where
  "server_holds q prt k u h \<longleftrightarrow> (\<exists>s r w. server_side h q prt s r \<and> state s = ESTABLISHED \<and> \<not> recv_lock s
     \<and> swnds h (wnd_send s) = Some w \<and> expect_seq r = of_nat k \<and> rcv_rep h s u)"

abbreviation server_quiet :: "ptr \<Rightarrow> u16 \<Rightarrow> nat \<Rightarrow> host \<Rightarrow> bool" where
  "server_quiet q prt k \<equiv> server_holds q prt k []"

lemma server_takes:
  assumes Q: "server_quiet q prt k B" and c: "c \<noteq> []" "length c \<le> 1378"
  shows "\<exists>B1 adv'. onTCPPocket junk (segment 5678 prt (of_nat k) 0 NO_FLAG adv c) B = Inr (0, B1)
    \<and> wire B1 = wire B @ [segment prt 5678 (of_nat (k + length c)) (of_nat (k + length c)) ACK adv' []]
    \<and> server_holds q prt (k + length c) c B1"
proof -
  let ?m = "segment 5678 prt (of_nat k) 0 NO_FLAG adv c"
  let ?k = "of_nat (k + length c) :: u32"
  obtain s r w where ss: "server_side B q prt s r" and s: "state s = ESTABLISHED" "\<not> recv_lock s"
    and w: "swnds B (wnd_send s) = Some w" and r: "expect_seq r = of_nat k" and rep: "rcv_rep B s []"
    using Q unfolding server_holds_def by metis
  have sq: "socks B q = Some s" "heap_ok B" "name_of B \<noteq> OtherHost" "rwnds B (wnd_recv s) = Some r"
    "port (established_local_addr s) = prt" "port (established_remote_addr s) = 5678"
    using ss by (simp_all add: server_side_def)
  have spec: "gbn_receive (of_nat k) c (expect_seq r, []) = ((?k, c), Some ?k)"
    by (simp add: r)
  have len: "22 + length c < 65536" "length ([] :: bytes) + length c < 2 ^ 31"
    using c(2) by simp_all
  obtain B1 where B1: "tju_handle_packet q ?m B = Inr (0, B1)" "heap_ok B1" "rcv_state B1 q (?k, c)"
    "rcv_frame q s B B1" "wire B1 = wire B @ [control s ?k ACK (to_u16 (TCP_RECV_BUFFER_SIZE - received_len s))]"
    using handle_data_effect [where src = 5678 and dst = prt and fl = NO_FLAG and ack = 0 and adv = adv,
        OF sq(2,1) s(2) w sq(4) rep _ len sq(3) refl spec]
    by (auto simp: data_flag_def)
  have on: "onTCPPocket junk ?m B = Inr (0, B1)"
    using server_side_dispatch [where junk = junk, OF ss len(1) refl] s(1) B1(1) by simp
  obtain s' where s': "socks B1 = (socks B)(q \<mapsto> s')"
    "s' = s\<lparr>received_buf := received_buf s', received_len := received_len s', recv_lock := False\<rparr>"
    and fr: "B1 = B\<lparr>socks := socks B1, swnds := swnds B1, rwnds := rwnds B1, blocks := blocks B1,
             next_ptr := next_ptr B1, wire := wire B1\<rparr>"
    using B1(4) unfolding rcv_frame_def by blast
  obtain w' where w': "swnds B1 (wnd_send s) = Some w'"
    using B1(4) unfolding rcv_frame_def by (elim exE conjE) simp
  obtain r' where r': "rwnds B1 (wnd_recv s') = Some r'" "expect_seq r' = ?k" "rcv_rep B1 s' c" "\<not> recv_lock s'"
    using B1(3) s'(1) by (auto simp: rcv_state_def)
  have core: "state s' = state s" "wnd_send s' = wnd_send s"
    "established_local_addr s' = established_local_addr s" "established_remote_addr s' = established_remote_addr s"
    by (subst s'(2), simp)+
  have same: "name_of B1 = name_of B" "is_server B1 = is_server B" "established_queue B1 = established_queue B"
    by (subst fr, simp)+
  have "server_side B1 q prt s' r'"
    using ss r'(1) core same B1(2) by (simp add: server_side_def s'(1))
  then have "server_holds q prt (k + length c) c B1"
    unfolding server_holds_def using core w' r' s
    by (intro exI [of _ s'] exI [of _ r'] exI [of _ w']) simp
  moreover have "wire B1 = wire B @ [segment prt 5678 ?k ?k ACK (to_u16 (100 - received_len s)) []]"
    using B1(5) sq(5,6) by (simp add: control_def)
  ultimately show ?thesis
    using on by metis
qed

text \<open>A read of \<open>n\<close> bytes; what is left is moved down by \<open>memcpy\<close>, so it must not be longer.\<close>

lemma server_reads:
  assumes Q: "server_holds q prt k u B" and u: "u \<noteq> []" "length u \<le> 2 * n"
  shows "\<exists>B'. tcp_recv q (int n) B = Inr (0, take n u, B') \<and> wire B' = wire B \<and> server_holds q prt k (drop n u) B'"
proof -
  obtain s r w where ss: "server_side B q prt s r" and s: "state s = ESTABLISHED" "\<not> recv_lock s"
    and w: "swnds B (wnd_send s) = Some w" and r: "expect_seq r = of_nat k" and rep: "rcv_rep B s u"
    using Q unfolding server_holds_def by metis
  have sq: "socks B q = Some s" "heap_ok B"
    using ss by (simp_all add: server_side_def)
  obtain s2 b B2 where B2: "tcp_recv q (int n) B = Inr (0, take n u, B2)"
    "B2 = B\<lparr>socks := (socks B)(q \<mapsto> s2), blocks := (blocks B)(received_buf s \<mapsto> b)\<rparr>"
    "s2 = s\<lparr>received_len := int (length (drop n u)), recv_lock := False\<rparr>" "rcv_rep B2 s2 (drop n u)"
    using tcp_recv_result [OF sq(1) s(2) rep u(1), of n] u(2) by (auto split: sum.splits)
  have "blocks B (received_buf s) \<noteq> None"
    using rep u(1) by (auto simp: rcv_rep_def split: if_splits)
  then have "heap_ok B2"
    using sq(2) heap_ok_bound(1) [OF sq(2,1)] heap_ok_bound(7) [OF sq(2)] by (auto simp: B2(2) heap_ok_def)
  then have "server_side B2 q prt s2 r"
    using ss by (simp add: server_side_def B2(2,3))
  then have "server_holds q prt k (drop n u) B2"
    unfolding server_holds_def using w r s B2(4)
    by (intro exI [of _ s2] exI [of _ r] exI [of _ w]) (simp add: B2(2,3))
  then show ?thesis
    using B2(1) by (simp add: B2(2))
qed

lemma server_waits:
  assumes "server_quiet q prt k B"
  shows "tcp_recv q n B = Inl Blocked"
proof -
  obtain s where "socks B q = Some s" "rcv_rep B s []"
    using assms by (auto simp: server_holds_def server_side_def)
  then show ?thesis
    by (simp add: tcp_recv_def rcv_rep_def)
qed

lemma server_receives:
  assumes Q: "server_quiet q prt k B" and c: "c \<noteq> []" "length c \<le> 1378" and n: "length c \<le> n"
  shows "\<exists>B1 B2 adv'. onTCPPocket junk (segment 5678 prt (of_nat k) 0 NO_FLAG adv c) B = Inr (0, B1)
    \<and> tcp_recv q (int n) B1 = Inr (0, c, B2)
    \<and> wire B2 = wire B @ [segment prt 5678 (of_nat (k + length c)) (of_nat (k + length c)) ACK adv' []]
    \<and> server_quiet q prt (k + length c) B2"
proof -
  obtain B1 adv' where 1: "onTCPPocket junk (segment 5678 prt (of_nat k) 0 NO_FLAG adv c) B = Inr (0, B1)"
    "wire B1 = wire B @ [segment prt 5678 (of_nat (k + length c)) (of_nat (k + length c)) ACK adv' []]"
    "server_holds q prt (k + length c) c B1"
    using server_takes [OF Q c] by blast
  have "length c \<le> 2 * n" "take n c = c" "drop n c = []"
    using n by simp_all
  with server_reads [OF 1(3) c(1), of n] 1(1,2) show ?thesis
    by auto
qed

section \<open>Rounds of a lossless connection\<close>

text \<open>One exchange: the client's application sends a chunk, the sending thread and the network
  pass it on, the server's application reads up to \<open>n\<close> bytes, and the acknowledgement returns.\<close>

definition exchange :: "tju_tcp_t \<Rightarrow> ptr \<Rightarrow> ptr \<Rightarrow> nat \<Rightarrow> bytes \<Rightarrow> host \<Rightarrow> host \<Rightarrow> (bytes \<times> host \<times> host) outcome" where
  "exchange junk p q n c A B =
     bindE (tcp_send p c (int (length c)) A) (\<lambda>(_, A).
     bindE (tcp_send_stream_round p A) (\<lambda>A.
     bindE (onTCPPocket junk (last (wire A)) B) (\<lambda>(_, B).
     bindE (tcp_recv q (int n) B) (\<lambda>(_, dat, B).
     bindE (onTCPPocket junk (last (wire B)) A) (\<lambda>(_, A). Inr (dat, A, B))))))"

fun exchanges :: "tju_tcp_t \<Rightarrow> ptr \<Rightarrow> ptr \<Rightarrow> nat \<Rightarrow> bytes list \<Rightarrow> host \<Rightarrow> host \<Rightarrow> (bytes \<times> host \<times> host) outcome" where
  "exchanges junk p q n [] A B = Inr ([], A, B)"
| "exchanges junk p q n (c # cs) A B =
     bindE (exchange junk p q n c A B) (\<lambda>(dat, A, B).
     bindE (exchanges junk p q n cs A B) (\<lambda>(rest, A, B). Inr (dat @ rest, A, B)))"

lemma exchange_delivers:
  assumes A: "client_quiet p prt k A" and B: "server_quiet q prt k B"
    and c: "c \<noteq> []" "length c \<le> 1378" "k + length c \<le> 176000" and n: "length c \<le> n"
  shows "\<exists>A' B'. exchange junk p q n c A B = Inr (c, A', B')
    \<and> (data_step junk p q)\<^sup>*\<^sup>* (A, B, acc, got) (A', B', acc @ c, got @ c)
    \<and> client_quiet p prt (k + length c) A' \<and> server_quiet q prt (k + length c) B'"
proof -
  obtain A1 A2 adv where A2: "tcp_send p c (int (length c)) A = Inr (0, A1)" "tcp_send_stream_round p A1 = Inr A2"
    "wire A2 = wire A @ [segment 5678 prt (of_nat k) 0 NO_FLAG adv c]" "client_waiting p prt (k + length c) A2"
    "window_open A1 p"
    using client_transmits [OF A c] by blast
  obtain B1 B2 adv' where B2: "onTCPPocket junk (segment 5678 prt (of_nat k) 0 NO_FLAG adv c) B = Inr (0, B1)"
    "tcp_recv q (int n) B1 = Inr (0, c, B2)"
    "wire B2 = wire B @ [segment prt 5678 (of_nat (k + length c)) (of_nat (k + length c)) ACK adv' []]"
    "server_quiet q prt (k + length c) B2"
    using server_receives [OF B c(1,2) n] by blast
  have "k + length c < 2 ^ 32"
    using c(3) by simp
  then obtain A3 where A3: "onTCPPocket junk (segment prt 5678 (of_nat (k + length c)) (of_nat (k + length c)) ACK adv' []) A2
      = Inr (0, A3)" "client_quiet p prt (k + length c) A3"
    using client_acked [OF A2(4)] by blast
  have "exchange junk p q n c A B = Inr (c, A3, B2)"
    using A2(1-3) B2(1-3) A3(1) by (simp add: exchange_def del: of_nat_add)
  moreover have "(data_step junk p q)\<^sup>*\<^sup>* (A, B, acc, got) (A3, B2, acc @ c, got @ c)"
  proof -
    have "data_step junk p q (A, B, acc, got) (A1, B, acc @ c, got)"
      using Send [OF A2(1)] by simp
    moreover have "data_step junk p q (A1, B, acc @ c, got) (A2, B, acc @ c, got)"
      by (rule Round [OF A2(2,5)])
    moreover have "data_step junk p q (A2, B, acc @ c, got) (A2, B1, acc @ c, got)"
      by (rule Data [OF _ B2(1)]) (simp add: A2(3))
    moreover have "data_step junk p q (A2, B1, acc @ c, got) (A2, B2, acc @ c, got @ c)"
      by (rule Recv [OF B2(2)])
    moreover have "data_step junk p q (A2, B2, acc @ c, got @ c) (A3, B2, acc @ c, got @ c)"
      by (rule Ack [OF _ A3(1)]) (simp add: B2(3))
    ultimately show ?thesis
      by (meson converse_rtranclp_into_rtranclp r_into_rtranclp)
  qed
  ultimately show ?thesis
    using A3(2) B2(4) by blast
qed

lemma exchanges_deliver:
  assumes "client_quiet p prt k A" "server_quiet q prt k B" "\<forall>c \<in> set cs. c \<noteq> [] \<and> length c \<le> 1378 \<and> length c \<le> n"
    and "k + length (concat cs) \<le> 176000"
  shows "\<exists>A' B'. exchanges junk p q n cs A B = Inr (concat cs, A', B')
    \<and> (data_step junk p q)\<^sup>*\<^sup>* (A, B, acc, got) (A', B', acc @ concat cs, got @ concat cs)
    \<and> client_quiet p prt (k + length (concat cs)) A' \<and> server_quiet q prt (k + length (concat cs)) B'"
  using assms
proof (induction cs arbitrary: k A B acc got)
  case (Cons c cs)
  have "c \<noteq> []" "length c \<le> 1378" "k + length c \<le> 176000" "length c \<le> n"
    using Cons.prems(3,4) by simp_all
  from exchange_delivers [OF Cons.prems(1,2) this, of junk acc got]
  obtain A1 B1 where 1: "exchange junk p q n c A B = Inr (c, A1, B1)"
    "(data_step junk p q)\<^sup>*\<^sup>* (A, B, acc, got) (A1, B1, acc @ c, got @ c)"
    "client_quiet p prt (k + length c) A1" "server_quiet q prt (k + length c) B1"
    by blast
  obtain A2 B2 where 2: "exchanges junk p q n cs A1 B1 = Inr (concat cs, A2, B2)"
    "(data_step junk p q)\<^sup>*\<^sup>* (A1, B1, acc @ c, got @ c) (A2, B2, (acc @ c) @ concat cs, (got @ c) @ concat cs)"
    "client_quiet p prt (k + length (concat (c # cs))) A2" "server_quiet q prt (k + length (concat (c # cs))) B2"
    using Cons.IH [OF 1(3,4), of "acc @ c" "got @ c"] Cons.prems(3,4) by (auto simp: add.assoc)
  show ?case
    using 1(1) 2(1,3,4) rtranclp_trans [OF 1(2) 2(2)] by simp
qed simp


text \<open>
  Without loss the stream arrives complete. From a connection with nothing outstanding,
  chunks of at most one segment, sent, delivered, read and acknowledged one after the other,
  are received as they were sent; every call returns, and the run is one of the runs of the
  data phase. The total is bounded by the send window block, which is never reused.
\<close>

theorem lossless_delivery:
  assumes "client_quiet p prt k A" "server_quiet q prt k B" "\<forall>c \<in> set cs. c \<noteq> [] \<and> length c \<le> 1378 \<and> length c \<le> n"
    and "k + length (concat cs) \<le> 176000"
  shows "\<exists>A' B'. exchanges junk p q n cs A B = Inr (concat cs, A', B')
    \<and> (data_step junk p q)\<^sup>*\<^sup>* (A, B, [], []) (A', B', concat cs, concat cs)"
  using exchanges_deliver [OF assms, of junk "[]" "[]"] by auto

text \<open>Two hosts with an established connection from port 5678 to port 80.\<close>

definition quiet_client :: host where
  "quiet_client = (blank_host Client)\<lparr>
     socks := [1 \<mapsto> blank_sock\<lparr>state := ESTABLISHED, established_local_addr := \<lparr>ip = client_ip, port = 5678\<rparr>,
       established_remote_addr := \<lparr>ip = server_ip, port = 80\<rparr>, sending_buf := 6, sending_capacity := 176000,
       wnd_send := 2, wnd_recv := 3, rtt_timer := 4, cwnd := 1400, finished_handshake := 1\<rparr>],
     swnds := [2 \<mapsto> \<lparr>send_windows = 5, window_size = 44928, base = 0, nextseq = 0, rwnd = 100\<rparr>],
     rwnds := [3 \<mapsto> \<lparr>receiver_window = NULL, expect_seq = 0\<rparr>], timers := [4 \<mapsto> initial_timer],
     blocks := [5 \<mapsto> replicate 176000 0, 6 \<mapsto> replicate 176000 0], next_ptr := 7,
     connect_sock := (\<lambda>_. 1)\<rparr>"

definition quiet_server :: host where
  "quiet_server = (blank_host Server)\<lparr>
     socks := [1 \<mapsto> blank_sock\<lparr>state := ESTABLISHED, established_local_addr := \<lparr>ip = server_ip, port = 80\<rparr>,
       established_remote_addr := \<lparr>ip = client_ip, port = 5678\<rparr>, wnd_send := 2, wnd_recv := 3, rtt_timer := 4\<rparr>],
     swnds := [2 \<mapsto> \<lparr>send_windows = NULL, window_size = 44928, base = 0, nextseq = 0, rwnd = 100\<rparr>],
     rwnds := [3 \<mapsto> \<lparr>receiver_window = NULL, expect_seq = 0\<rparr>], timers := [4 \<mapsto> initial_timer],
     next_ptr := 5, established_queue := (\<lambda>_. 1), is_server := True\<rparr>"

lemma quiet_hosts: "client_quiet 1 80 0 quiet_client" "server_quiet 1 80 0 quiet_server"
  by (auto simp: client_quiet_def client_side_def server_holds_def server_side_def quiet_client_def quiet_server_def
      blank_host_def blank_sock_def initial_timer_def heap_ok_def rcv_rep_def cc_inv_def is_f32_def fl32_3_12)

lemma quiet_start: "data_start 1 1 80 quiet_client quiet_server"
  by (auto simp: data_start_def client_side_def server_side_def quiet_client_def quiet_server_def
      blank_host_def blank_sock_def initial_timer_def heap_ok_def rcv_rep_def)

lemma lossless_delivery_witness:
  "\<exists>A B. exchanges blank_sock 1 1 4 [[1, 2, 3], [4, 5]] quiet_client quiet_server = Inr ([1, 2, 3, 4, 5], A, B)"
  using lossless_delivery [OF quiet_hosts, of "[[1, 2, 3], [4, 5]]" 4 blank_sock] by auto


end
