(* ===== verification/Session.thy ===== *)
theory Session
  imports Lossless
begin

text \<open>
  A whole connection, composed of the theories \<open>Connection\<close> and \<open>Lossless\<close>: two new sockets
  are created, the connection is opened, chunks of data are exchanged, and the client closes
  it. The sockets that the handshake leaves behind satisfy the conditions of the data phase,
  and those of the data phase the conditions of the close.
\<close>

section \<open>What a new socket owns\<close>

text \<open>The buffers of a new socket, the send window and the congestion state; \<open>malloc\<close> returns
  blocks of the size asked for.\<close>

definition sized_blocks :: "memory_junk \<Rightarrow> bool" where
  "sized_blocks j \<longleftrightarrow> length (junk_block j 176000) = 176000"

definition new_buffers :: "host \<Rightarrow> tju_tcp_t \<Rightarrow> sender_window_t \<Rightarrow> bool" where
  "new_buffers h s w \<longleftrightarrow> sending_len s = 0 \<and> sending_capacity s = 176000 \<and> cc_inv s \<and> window_size w = 44928
     \<and> (\<exists>blk. blocks h (send_windows w) = Some blk \<and> length blk = 176000)
     \<and> (\<exists>sb. blocks h (sending_buf s) = Some sb \<and> length sb = 176000)
     \<and> sending_buf s \<noteq> send_windows w \<and> blocks h (received_buf s) \<noteq> None"

lemma tcp_socket_new:
  assumes ok: "heap_ok h" and j: "sized_blocks j" and run: "tcp_socket j h = Inr (p, h')"
  shows "\<exists>s w r t. p = next_ptr h \<and> fresh_sock h' p s w r t \<and> new_buffers h' s w \<and> name_of h' = name_of h
    \<and> poll_delay h' = poll_delay h \<and> established_queue h' = established_queue h
    \<and> (\<forall>q. q < next_ptr h \<longrightarrow> socks h' q = socks h q) \<and> wire h' = wire h \<and> threads h' = threads h
    \<and> finished_handshake s = finished_handshake (junk_sock j) \<and> timeout_counts s = timeout_counts (junk_sock j)"
proof -
  have w: "(word_of_int 176000 :: u16) = 44928"
    by simp
  obtain s w r t where f: "p = next_ptr h" "fresh_sock h' p s w r t" "window_size w = 44928" "cwnd s = SMSS"
    "con_status s = SLOW_START" "name_of h' = name_of h" "poll_delay h' = poll_delay h"
    "established_queue h' = established_queue h" "\<forall>q. q < next_ptr h \<longrightarrow> socks h' q = socks h q" "wire h' = wire h" "threads h' = threads h"
    using tcp_socket_fresh [OF ok, of j] run by auto
  have "\<exists>s w. socks h' p = Some s \<and> swnds h' (wnd_send s) = Some w \<and> sending_len s = 0 \<and> sending_capacity s = 176000
     \<and> (\<exists>blk. blocks h' (send_windows w) = Some blk \<and> length blk = 176000)
     \<and> (\<exists>sb. blocks h' (sending_buf s) = Some sb \<and> length sb = 176000)
     \<and> sending_buf s \<noteq> send_windows w \<and> blocks h' (received_buf s) \<noteq> None
     \<and> finished_handshake s = finished_handshake (junk_sock j) \<and> timeout_counts s = timeout_counts (junk_sock j)"
    using ok j run
    by (auto simp: tcp_socket_def malloc_sock_def malloc_block_def malloc_def update_sock_def tcp_init_timer_def
        tcp_init_rtt_def sockqueue_init_def Let_def sized_blocks_def)
  then have "new_buffers h' s w" "finished_handshake s = finished_handshake (junk_sock j)"
    "timeout_counts s = timeout_counts (junk_sock j)"
    using f(2-5) by (auto simp: new_buffers_def fresh_sock_def cc_inv_def)
  then show ?thesis
    using f by blast
qed

section \<open>From the handshake to the data phase\<close>

lemma opened:
  assumes A: "fresh_sock A p s w r t" "name_of A = Client" "poll_delay A < 2" "new_buffers A s w"
    and B: "fresh_sock B l s' w' r' t'" "name_of B = Server" "poll_delay B < 3" "new_buffers B s' w'"
    and none: "established_queue B (pair_hash prt 5678) = NULL" and cs: "socks B cs = Some x" "cs \<noteq> l"
  shows "\<exists>A' B'. open_connection junk j p l cs prt A B = Inr ([0, 0, 0, 0, 0], A', B')
    \<and> client_quiet p prt 0 A' \<and> server_quiet cs prt 0 B'
    \<and> wire A' = wire A @ [segment 5678 prt 0 0 SYN 100 [], segment 5678 prt 23 23 ACK 100 []]
    \<and> (wire A = [] \<and> wire B = [] \<and> threads A = (\<lambda>_. None) \<longrightarrow> data_start p cs prt (A'\<lparr>wire := butlast (wire A')\<rparr>) B')
    \<and> (\<exists>c r w t. server_side B' cs prt c r \<and> state c = ESTABLISHED \<and> cc_inv c
         \<and> swnds B' (wnd_send c) = Some w \<and> nextseq w = 0 \<and> timers B' (rtt_timer c) = Some t \<and> started t = 0
         \<and> finished_handshake c = finished_handshake s' \<and> timeout_counts c = timeout_counts s')"
proof -
  obtain A1 A2 A3 sA wA rA i tA where A': "tcp_connect_begin p \<lparr>ip = server_ip, port = prt\<rparr> A = Inr A1"
    "wire A1 = wire A @ [segment 5678 prt 0 0 SYN 100 []]"
    "onTCPPocket junk (segment prt 5678 22 1 (SYN OR ACK) 100 []) A1 = Inr (0, A2)"
    "wire A2 = wire A1 @ [segment 5678 prt 23 23 ACK 100 []]"
    "connect_ready p A2 = Inr True" "tcp_connect_finish p A2 = Inr (0, A3)"
    and cA: "client_side A3 p prt sA rA" "expect_seq rA = 0"
    and sA: "sA = s\<lparr>established_remote_addr := \<lparr>ip = server_ip, port = prt\<rparr>,
        established_local_addr := \<lparr>ip = client_ip, port = 5678\<rparr>, bind_addr := \<lparr>ip = server_ip, port = prt\<rparr>,
        finished_handshake := 0, state := ESTABLISHED, interrupt_signal := i\<rparr>"
    and wA: "wA = w\<lparr>rwnd := 100, base := 0, nextseq := 0\<rparr>" "swnds A3 (wnd_send sA) = Some wA"
    and tA: "timers A3 (rtt_timer sA) = Some ((updated tA)\<lparr>started := 0\<rparr>)" "dev_rtt tA = 3"
    and fA: "blocks A3 = blocks A" "poll_delay A3 = poll_delay A" "wire A3 = wire A2"
    and thA: "\<forall>tid th. threads A3 tid = Some th \<longrightarrow> threads A tid = Some th"
    using client_opens [OF A(1,2), of prt junk] A(3) by auto
  obtain B1 B2 B3 B4 B5 B6 c wB rB tB where B': "tcp_bind l \<lparr>ip = server_ip, port = prt\<rparr> B = Inr (0, B1)"
    "tcp_listen l B1 = Inr (0, B2)" "tcp_accept_begin l cs B2 = Inr B3"
    "onTCPPocket junk (segment 5678 prt 0 0 SYN 100 []) B3 = Inr (0, B4)"
    "wire B4 = wire B3 @ [segment prt 5678 22 1 (SYN OR ACK) 100 []]"
    "onTCPPocket junk (segment 5678 prt 23 23 ACK 100 []) B4 = Inr (0, B5)"
    "accept_ready l B5 = Inr True" "tcp_accept_finish j l cs B5 = Inr (0, B6)"
    and cB: "server_side B6 cs prt c rB" "expect_seq rB = 0"
    and c: "c = s'\<lparr>bind_addr := \<lparr>ip = server_ip, port = prt\<rparr>, state := ESTABLISHED, listen_state := (\<lambda>_. LISTEN),
        established_local_addr := \<lparr>ip = server_ip, port = prt\<rparr>,
        established_remote_addr := \<lparr>ip = client_ip, port = 5678\<rparr>\<rparr>"
    and wB: "swnds B6 (wnd_send c) = Some wB" "wB = w'\<lparr>rwnd := 100, base := 0, nextseq := 0\<rparr>"
    and tB: "timers B6 (rtt_timer c) = Some tB" "started tB = 0" and fB: "blocks B6 = blocks B"
    and wireB: "wire B6 = wire B @ [segment prt 5678 22 1 (SYN OR ACK) 100 []]"
    using server_opens [OF B(1-3) none cs, of junk j] by blast
  have "open_connection junk j p l cs prt A B = Inr ([0, 0, 0, 0, 0], A3, B6)"
    using A' B' by (simp add: open_connection_def)
  moreover have "CLOCK_G \<le> 12"
    using CLOCK_G_le(2) by linarith
  then have tm: "is_f32 (estimated_rtt (updated tA))" "timeout (updated tA) = 12"
    using tA(2) by (simp_all add: updated_def rto_def is_f32_def f_mul_def fl32_3_12 max_def)
  obtain blk sb where b: "blocks A (send_windows w) = Some blk" "length blk = 176000"
    "blocks A (sending_buf s) = Some sb" "length sb = 176000" "sending_buf s \<noteq> send_windows w"
    "blocks A (received_buf s) \<noteq> None" "sending_len s = 0" "sending_capacity s = 176000" "cc_inv s" "window_size w = 44928"
    using A(4) unfolding new_buffers_def by blast
  have "\<not> send_lock s"
    using A(1) by (simp add: fresh_sock_def)
  then have "client_quiet p prt 0 A3"
    unfolding client_quiet_def using cA wA tA fA b A(3) tm
    by (intro exI [of _ sA] exI [of _ rA] exI [of _ wA] exI [of _ "(updated tA)\<lparr>started := 0\<rparr>"] exI [of _ blk] exI [of _ sb])
      (simp add: sA cc_inv_def)
  moreover have "received_len s' = 0" "\<not> recv_lock s'"
    using B(1) by (simp_all add: fresh_sock_def)
  then have "server_quiet cs prt 0 B6"
    unfolding server_holds_def using cB wB fB B(4)
    by (intro exI [of _ c] exI [of _ rB] exI [of _ wB]) (auto simp: c rcv_rep_def new_buffers_def)
  moreover have wA': "wire A3 = wire A @ [segment 5678 prt 0 0 SYN 100 [], segment 5678 prt 23 23 ACK 100 []]"
    using fA(3) A'(2,4) by simp
  moreover have "data_start p cs prt (A3\<lparr>wire := butlast (wire A3)\<rparr>) B6"
    if start: "wire A = []" "wire B = []" "threads A = (\<lambda>_. None)"
  proof -
    have "client_side (A3\<lparr>wire := butlast (wire A3)\<rparr>) p prt sA rA"
      using cA(1) by (simp add: client_side_def heap_ok_def)
    moreover have "out_ok prt [] (segment 5678 prt 0 0 SYN 100 [])" "threads A3 = (\<lambda>_. None)"
      using thA start(3) by (auto simp: out_ok_def fun_eq_iff)
    ultimately have "\<exists>s r w t blk sb. client_side (A3\<lparr>wire := butlast (wire A3)\<rparr>) p prt s r \<and> state s = ESTABLISHED
        \<and> expect_seq r = 0 \<and> swnds A3 (wnd_send s) = Some w \<and> base w = 0 \<and> nextseq w = 0 \<and> timers A3 (rtt_timer s) = Some t
        \<and> blocks A3 (send_windows w) = Some blk \<and> length blk < 2 ^ 30
        \<and> blocks A3 (sending_buf s) = Some sb \<and> sending_buf s \<noteq> send_windows w \<and> sending_len s = 0
        \<and> (\<forall>tid th. threads A3 tid = Some th \<longrightarrow> th_sock th = p) \<and> (\<forall>m \<in> set (butlast (wire A3)). out_ok prt [] m)"
      using cA(2) sA wA tA(1) fA(1) b wA' start(1)
      by (intro exI [of _ sA] exI [of _ rA] exI [of _ wA] exI [of _ "(updated tA)\<lparr>started := 0\<rparr>"] exI [of _ blk]
          exI [of _ sb]) simp
    moreover have "rcv_rep B6 c []" "\<not> recv_lock c" "in_ok prt 0 (segment prt 5678 22 1 (SYN OR ACK) 100 [])"
      using B(1,4) fB by (auto simp: rcv_rep_def c new_buffers_def fresh_sock_def in_ok_def)
    then have "\<exists>s r w t. server_side B6 cs prt s r \<and> state s = ESTABLISHED \<and> \<not> recv_lock s
        \<and> swnds B6 (wnd_send s) = Some w \<and> nextseq w = 0 \<and> timers B6 (rtt_timer s) = Some t \<and> started t = 0
        \<and> expect_seq r = 0 \<and> rcv_rep B6 s [] \<and> (\<forall>m \<in> set (wire B6). in_ok prt 0 m)"
      using cB wB tB wireB start(2) c
      by (intro exI [of _ c] exI [of _ rB] exI [of _ wB] exI [of _ tB]) simp
    ultimately show ?thesis
      unfolding data_start_def by simp
  qed
  moreover have "cc_inv c"
    using B(4) by (simp add: c new_buffers_def cc_inv_def)
  then have "\<exists>c r w t. server_side B6 cs prt c r \<and> state c = ESTABLISHED \<and> cc_inv c
      \<and> swnds B6 (wnd_send c) = Some w \<and> nextseq w = 0 \<and> timers B6 (rtt_timer c) = Some t \<and> started t = 0
      \<and> finished_handshake c = finished_handshake s' \<and> timeout_counts c = timeout_counts s'"
    using cB(1) wB tB c by (intro exI [of _ c] exI [of _ rB] exI [of _ wB] exI [of _ tB]) simp
  ultimately show ?thesis
    by blast
qed

section \<open>The whole connection\<close>

definition session :: "tju_tcp_t \<Rightarrow> memory_junk \<Rightarrow> ptr \<Rightarrow> ptr \<Rightarrow> ptr \<Rightarrow> u16 \<Rightarrow> nat \<Rightarrow> bytes list \<Rightarrow> host \<Rightarrow> host
    \<Rightarrow> (int list \<times> bytes \<times> int list \<times> host \<times> host) outcome" where
  "session junk j p l cs prt n chunks A B =
     bindE (open_connection junk j p l cs prt A B) (\<lambda>(opening, A, B).
     bindE (exchanges junk p cs n chunks A B) (\<lambda>(got, A, B).
     bindE (close_connection junk p A B) (\<lambda>(closing, A, B). Inr (opening, got, closing, A, B))))"


text \<open>Two hosts before anything has run; the server's application has allocated the structure
  at address 1 for the accepted connection. \<open>stale_junk\<close> is memory in which the field
  \<open>finished_handshake\<close> happens to be set.\<close>

definition idle_server :: host where
  "idle_server = (blank_host Server)\<lparr>socks := [1 \<mapsto> blank_sock], next_ptr := 2\<rparr>"

definition stale_junk :: memory_junk where
  "stale_junk = example_junk\<lparr>junk_sock := blank_sock\<lparr>finished_handshake := 1\<rparr>\<rparr>"

lemma example_hosts:
  "heap_ok (blank_host Client)" "name_of (blank_host Client) = Client" "poll_delay (blank_host Client) < 2"
  "wire (blank_host Client) = []" "threads (blank_host Client) = (\<lambda>_. None)"
  "heap_ok idle_server" "name_of idle_server = Server" "poll_delay idle_server < 3" "wire idle_server = []"
  "established_queue idle_server (pair_hash 1234 5678) = NULL" "socks idle_server 1 = Some blank_sock"
  "sized_blocks example_junk" "sized_blocks stale_junk"
  by (rule heap_ok_blank)
    (simp_all add: blank_host_def idle_server_def heap_ok_def sized_blocks_def example_junk_def stale_junk_def)


section \<open>After the handshake, over any network\<close>



section \<open>A second copy of the last acknowledgement\<close>

lemma established_timeout_exits:
  assumes ex: "timer_expired h p s t tid" and st: "state s = ESTABLISHED" "finished_handshake s \<noteq> 0" "timeout_counts s \<le> 10"
    and w: "swnds h (wnd_send s) = Some w" "sint (nextseq w - base w) < 0"
  shows "tcp_check_timeout tid h = Inl (Exit 0)"
proof -
  have s: "socks h p = Some s"
    using ex by (simp add: timer_expired_def)
  have "\<not> 10 < uint (timeout_counts s)"
    using st(3) by (simp add: word_le_def)
  then show ?thesis
    using check_timeout_expired [OF ex] s st(1,2) w
    by (simp add: tcp_write_timer_handler_def timer_handler_with_def retransmit_timer_with_def Let_def)
qed

lemma stale_ack_effect:
  assumes s: "server_side h q prt c r" "state c = ESTABLISHED" "cc_inv c"
    and w: "swnds h (wnd_send c) = Some w" "nextseq w = 0" and t: "timers h (rtt_timer c) = Some t" "started t = 0"
    and k: "k \<noteq> 0"
  shows "\<exists>h' c' t'. onTCPPocket junk (segment 5678 prt k a ACK adv []) h = Inr (0, h') \<and> socks h' q = Some c'
    \<and> state c' = ESTABLISHED \<and> finished_handshake c' = finished_handshake c \<and> timeout_counts c' = timeout_counts c
    \<and> swnds h' (wnd_send c') = Some (w\<lparr>rwnd := adv, base := k\<rparr>) \<and> timers h' (rtt_timer c') = Some t'
    \<and> timer_thread t' = next_tid h
    \<and> threads h' (next_tid h) = Some \<lparr>th_sock = q, th_limit = timeout t, th_since = clock h\<rparr>"
proof -
  let ?m = "segment 5678 prt k a ACK adv []" and ?w = "w\<lparr>rwnd := adv, base := k\<rparr>"
  have sq: "socks h q = Some c"
    using s(1) by (simp add: server_side_def)
  obtain c' where c': "handle_success_ack c = Inr c'"
    using handle_success_ack_inv [OF s(3)] by blast
  have core: "same_core c c'" "finished_handshake c' = finished_handshake c" "timeout_counts c' = timeout_counts c"
    using handle_success_ack_core [OF c'] c'
    by (auto simp: handle_success_ack_def Let_def split: con_state.splits if_splits)
  let ?h = "h\<lparr>socks := (socks h)(q \<mapsto> c'), swnds := (swnds h)(wnd_send c \<mapsto> ?w)\<rparr>"
  have "tcp_start_timer q ?h = Inr (launched q c' t ?h)"
    using t core(1) by (intro tcp_start_timer_idle) (simp_all add: same_core_def timer_idle_def)
  then have "tju_handle_packet q ?m h = Inr (0, launched q c' t ?h)"
    using sq w k c' core(1) by (simp add: tju_handle_packet_def receive_ack_def same_core_def get_plen_segment Let_def)
  then have "onTCPPocket junk ?m h = Inr (0, launched q c' t ?h)"
    using server_side_dispatch [where dat = "[]" and junk = junk, OF s(1) _ refl] s(2) by simp
  then show ?thesis
    using core s(2) by (intro exI [of _ "launched q c' t ?h"]) (simp add: same_core_def)
qed



end
