(* ===== verification/Programs.thy ===== *)
theory Programs
  imports Session
begin

text \<open>
  The two programs of \<open>src/app\<close>. The client connects and sends the lines of a file, each as
  the whole of the buffer \<open>fgets\<close> has read it into; the server accepts the connection and
  reads 512 bytes at a time. What the file holds, the contents of the uninitialised buffers
  and the results of the calls of the system are arguments. Both programs end in loops
  without an exit, so the \<open>tcp_close\<close> behind them is never called.
\<close>

section \<open>Reading lines\<close>

text \<open>What \<open>fgets\<close> takes of its input: up to \<open>k\<close> characters, a newline ends it; and the rest.\<close>

fun take_line :: "nat \<Rightarrow> bytes \<Rightarrow> bytes \<times> bytes" where
  "take_line 0 inp = ([], inp)"
| "take_line (Suc k) [] = ([], [])"
| "take_line (Suc k) (c # cs) = (if c = 10 then ([c], cs) else let (l, r) = take_line k cs in (c # l, r))"

text \<open>The line and a zero byte go to the start of the buffer, the rest of it stays. \<open>None\<close> is
  the \<open>NULL\<close> at the end of the file.\<close>

definition store_line :: "bytes \<Rightarrow> bytes \<Rightarrow> bytes" where
  "store_line buf l = l @ 0 # drop (length l + 1) buf"

definition fgets :: "bytes \<Rightarrow> nat \<Rightarrow> bytes \<Rightarrow> (bytes \<times> bytes) option" where
  "fgets buf n inp = (if inp = [] then None
     else let (l, rest) = take_line (n - 1) inp in Some (store_line buf l, rest))"

lemma take_line_append: "take_line k inp = (l, r) \<Longrightarrow> l @ r = inp \<and> length l \<le> k"
  by (induction k inp arbitrary: l r rule: take_line.induct) (auto split: if_splits prod.splits)

lemma take_line_nonempty: "take_line k inp = (l, r) \<Longrightarrow> k \<noteq> 0 \<Longrightarrow> inp \<noteq> [] \<Longrightarrow> l \<noteq> []"
  by (cases "(k, inp)" rule: take_line.cases) (auto split: if_splits prod.splits)

lemma take_line_shorter: "take_line k inp = (l, r) \<Longrightarrow> k \<noteq> 0 \<Longrightarrow> inp \<noteq> [] \<Longrightarrow> length r < length inp"
  using take_line_append [of k inp l r] take_line_nonempty [of k inp l r] by (cases l) auto

text \<open>The lines of a file as a buffer of 1024 bytes divides them.\<close>

function file_lines :: "bytes \<Rightarrow> bytes list" where
  "file_lines inp = (if inp = [] then [] else let (l, rest) = take_line 1023 inp in l # file_lines rest)"
  by auto

termination file_lines
  by (relation "measure length") (auto dest!: take_line_shorter [OF sym])

declare file_lines.simps [simp del]

text \<open>The messages the client sends for them: the buffer after each line.\<close>

fun messages :: "bytes \<Rightarrow> bytes list \<Rightarrow> bytes list" where
  "messages buf [] = []"
| "messages buf (l # ls) = store_line buf l # messages (store_line buf l) ls"

lemma length_store_line: "length l < length buf \<Longrightarrow> length (store_line buf l) = length buf"
  by (simp add: store_line_def)

text \<open>The string a buffer holds.\<close>

definition c_string :: "bytes \<Rightarrow> bytes" where
  "c_string buf = takeWhile (\<lambda>c. c \<noteq> 0) buf"

lemma c_string_store_line: "0 \<notin> set l \<Longrightarrow> c_string (store_line buf l) = l"
  by (auto simp: c_string_def store_line_def takeWhile_append)

lemma fgets_line:
  assumes "inp \<noteq> []"
  obtains l rest where "fgets buf 1024 inp = Some (store_line buf l, rest)" "file_lines inp = l # file_lines rest"
    "length l < 1024" "l @ rest = inp" "l \<noteq> []"
proof -
  obtain l rest where "take_line 1023 inp = (l, rest)"
    by fastforce
  with assms that show thesis
    using take_line_append [of 1023 inp l rest] take_line_nonempty [of 1023 inp l rest]
    by (simp add: fgets_def file_lines.simps [of inp])
qed

lemma file_lines_Nil [simp]: "file_lines [] = []"
  by (simp add: file_lines.simps)

section \<open>The client\<close>

text \<open>\<open>main\<close> up to the wait of \<open>tcp_connect\<close>, and from there to the loop: a file that cannot be
  opened ends the program.\<close>

definition client_start :: "bool \<Rightarrow> bool \<Rightarrow> bool \<Rightarrow> memory_junk \<Rightarrow> host \<Rightarrow> (ptr \<times> host) outcome" where
  "client_start flag socket_ok bind_ok j h =
     bindE (startSimulation flag socket_ok bind_ok h) (\<lambda>(_, h).
     bindE (tcp_socket j h) (\<lambda>(p, h).
     bindE (tcp_connect_begin p \<lparr>ip = server_ip, port = 1234\<rparr> h) (\<lambda>h. Inr (p, h))))"

definition client_connected :: "ptr \<Rightarrow> bytes option \<Rightarrow> host \<Rightarrow> (bytes \<times> host) outcome" where
  "client_connected p file h = bindE (tcp_connect_finish p h) (\<lambda>(_, h).
     case file of None \<Rightarrow> Inl (Exit 0) | Some inp \<Rightarrow> Inr (inp, h))"

text \<open>One round of the loop, up to its \<open>sleep\<close>: the whole buffer is sent, and a refusal is not
  noticed. \<open>None\<close> is the end of the loop.\<close>

definition client_line :: "ptr \<Rightarrow> bytes \<Rightarrow> bytes \<Rightarrow> host \<Rightarrow> (bytes \<times> bytes \<times> host) option outcome" where
  "client_line p buf inp h =
     (case fgets buf 1024 inp of
        None \<Rightarrow> Inr None
      | Some (buf, inp) \<Rightarrow> bindE (tcp_send p buf 1024 h) (\<lambda>(_, h). Inr (Some (buf, inp, h))))"

section \<open>The server\<close>

definition server_start ::
  "bool \<Rightarrow> bool \<Rightarrow> bool \<Rightarrow> memory_junk \<Rightarrow> tju_tcp_t \<Rightarrow> host \<Rightarrow> (ptr \<times> ptr \<times> host) outcome" where
  "server_start flag socket_ok bind_ok j junk h =
     bindE (startSimulation flag socket_ok bind_ok h) (\<lambda>(_, h).
     bindE (tcp_socket j h) (\<lambda>(l, h).
     bindE (tcp_bind l \<lparr>ip = server_ip, port = 1234\<rparr> h) (\<lambda>(_, h).
     bindE (tcp_listen l h) (\<lambda>(_, h).
       let (conn, h) = malloc_sock junk h
       in bindE (tcp_accept_begin l conn h) (\<lambda>h. Inr (l, conn, h))))))"

text \<open>A failed accept is printed only.\<close>

definition server_accepted :: "memory_junk \<Rightarrow> ptr \<Rightarrow> ptr \<Rightarrow> host \<Rightarrow> host outcome" where
  "server_accepted j l conn h = bindE (tcp_accept_finish j l conn h) (\<lambda>(_, h). Inr h)"

text \<open>One round of the loop leaves what was read at the start of the buffer.\<close>

definition server_round :: "ptr \<Rightarrow> bytes \<Rightarrow> host \<Rightarrow> (bytes \<times> host) outcome" where
  "server_round conn buf h = bindE (tcp_recv conn 512 h) (\<lambda>(_, dat, h). Inr (dat @ drop (length dat) buf, h))"

text \<open>A round of the function \<open>echo\<close>, which \<open>main\<close> does not call.\<close>

definition echo_round :: "ptr \<Rightarrow> bytes \<Rightarrow> host \<Rightarrow> (bytes \<times> host) outcome" where
  "echo_round client buf h = bindE (server_round client buf h) (\<lambda>(buf, h).
     bindE (tcp_send client buf 512 h) (\<lambda>(_, h). Inr (buf, h)))"

section \<open>Both programs over a network without loss\<close>

text \<open>The start: the three segments of the handshake, then both calls return.\<close>

definition connect_programs ::
  "tju_tcp_t \<Rightarrow> bool \<Rightarrow> memory_junk \<Rightarrow> memory_junk \<Rightarrow> memory_junk \<Rightarrow> bytes option \<Rightarrow> host \<Rightarrow> host
    \<Rightarrow> (ptr \<times> ptr \<times> bytes \<times> host \<times> host) outcome" where
  "connect_programs junk flag jA jB j file A B =
     bindE (client_start flag True True jA A) (\<lambda>(p, A).
     bindE (server_start flag True True jB junk B) (\<lambda>(l, conn, B).
     bindE (onTCPPocket junk (last (wire A)) B) (\<lambda>(_, B).
     bindE (onTCPPocket junk (last (wire B)) A) (\<lambda>(_, A).
     bindE (onTCPPocket junk (last (wire A)) B) (\<lambda>(_, B).
     bindE (connect_ready p A) (\<lambda>c. bindE (accept_ready l B) (\<lambda>a.
     bindE (requireE (c \<and> a) Blocked) (\<lambda>_.
     bindE (client_connected p file A) (\<lambda>(inp, A).
     bindE (server_accepted j l conn B) (\<lambda>B. Inr (p, conn, inp, A, B)))))))))))"

text \<open>What happens while the client sleeps: the sending thread and the network pass the message
  on, the server's loop reads it in two rounds, the acknowledgement returns.\<close>

definition pass_message ::
  "tju_tcp_t \<Rightarrow> ptr \<Rightarrow> ptr \<Rightarrow> bytes \<Rightarrow> host \<Rightarrow> host \<Rightarrow> ((bytes \<times> bytes) \<times> host \<times> host) outcome" where
  "pass_message junk p conn sbuf A B =
     bindE (tcp_send_stream_round p A) (\<lambda>A.
     bindE (onTCPPocket junk (last (wire A)) B) (\<lambda>(_, B).
     bindE (server_round conn sbuf B) (\<lambda>(b1, B).
     bindE (server_round conn b1 B) (\<lambda>(b2, B).
     bindE (onTCPPocket junk (last (wire B)) A) (\<lambda>(_, A). Inr ((b1, b2), A, B))))))"

text \<open>The loop of the client, with the contents of the server's buffer after each of its rounds.\<close>

function send_file ::
  "tju_tcp_t \<Rightarrow> ptr \<Rightarrow> ptr \<Rightarrow> bytes \<Rightarrow> bytes \<Rightarrow> bytes \<Rightarrow> host \<Rightarrow> host \<Rightarrow> (bytes list \<times> host \<times> host) outcome" where
  "send_file junk p conn buf sbuf inp A B =
     bindE (client_line p buf inp A) (\<lambda>r. case r of
        None \<Rightarrow> Inr ([], A, B)
      | Some (buf', rest, A) \<Rightarrow>
          bindE (pass_message junk p conn sbuf A B) (\<lambda>((b1, b2), A, B).
          bindE (send_file junk p conn buf' b2 rest (sleep 1 A) B) (\<lambda>(bs, A, B). Inr (b1 # b2 # bs, A, B))))"
  by auto

termination send_file
  by (relation "measure (\<lambda>(_, _, _, _, _, inp, _, _). length inp)")
    (auto simp: client_line_def fgets_def bindE_eq_Inr_iff split: if_splits prod.splits dest!: take_line_shorter)

declare send_file.simps [simp del]

definition run_programs ::
  "tju_tcp_t \<Rightarrow> bool \<Rightarrow> memory_junk \<Rightarrow> memory_junk \<Rightarrow> memory_junk \<Rightarrow> bytes \<Rightarrow> bytes \<Rightarrow> bytes option \<Rightarrow> host \<Rightarrow> host
    \<Rightarrow> (bytes list \<times> host \<times> host) outcome" where
  "run_programs junk flag jA jB j buf sbuf file A B =
     bindE (connect_programs junk flag jA jB j file A B) (\<lambda>(p, conn, inp, A, B).
       send_file junk p conn buf sbuf inp A B)"

section \<open>One message\<close>

lemma message_delivered:
  assumes A: "client_quiet p prt k A" and B: "server_quiet q prt k B"
    and m: "length m = 1024" "length sbuf = 512" "k + 1024 \<le> 176000"
  shows "\<exists>A1 A' B'. tcp_send p m 1024 A = Inr (0, A1)
    \<and> pass_message junk p q sbuf A1 B = Inr ((take 512 m, drop 512 m), A', B')
    \<and> client_quiet p prt (k + 1024) (sleep 1 A') \<and> server_quiet q prt (k + 1024) B'"
proof -
  have m': "m \<noteq> []" "length m \<le> 1378" "k + length m \<le> 176000"
    using m by auto
  obtain A1 A2 adv where A2: "tcp_send p m (int (length m)) A = Inr (0, A1)" "tcp_send_stream_round p A1 = Inr A2"
    "wire A2 = wire A @ [segment 5678 prt (of_nat k) 0 NO_FLAG adv m]" "client_waiting p prt (k + length m) A2"
    using client_transmits [OF A m'] by blast
  obtain B1 adv' where B1: "onTCPPocket junk (segment 5678 prt (of_nat k) 0 NO_FLAG adv m) B = Inr (0, B1)"
    "wire B1 = wire B @ [segment prt 5678 (of_nat (k + length m)) (of_nat (k + length m)) ACK adv' []]"
    "server_holds q prt (k + length m) m B1"
    using server_takes [OF B m'(1,2)] by blast
  obtain B2 where B2: "tcp_recv q (int 512) B1 = Inr (0, take 512 m, B2)" "wire B2 = wire B1"
    "server_holds q prt (k + length m) (drop 512 m) B2"
    using server_reads [OF B1(3) m'(1), of 512] m(1) by auto
  have d: "drop 512 m \<noteq> []" "length (drop 512 m) \<le> 2 * 512" "take 512 (drop 512 m) = drop 512 m" "drop 512 (drop 512 m) = []"
    using m(1) by simp_all
  obtain B3 where B3: "tcp_recv q (int 512) B2 = Inr (0, drop 512 m, B3)" "wire B3 = wire B2"
    "server_quiet q prt (k + length m) B3"
    using server_reads [OF B2(3) d(1,2)] unfolding d(3,4) by blast
  have "k + length m < 2 ^ 32"
    using m'(3) by simp
  then obtain A3 where A3: "onTCPPocket junk (segment prt 5678 (of_nat (k + length m)) (of_nat (k + length m)) ACK adv' []) A2
      = Inr (0, A3)" "client_quiet p prt (k + length m) A3"
    using client_acked [OF A2(4)] by blast
  have "client_quiet p prt (k + 1024) (sleep 1 A3)"
    using A3(2) m(1) by (simp add: client_quiet_def client_side_def heap_ok_def sleep_def)
  moreover have "pass_message junk p q sbuf A1 B = Inr ((take 512 m, drop 512 m), A3, B3)"
    using A2(2,3) B1(1,2) B2(1,2) B3(1,2) A3(1) m(1,2)
    by (simp add: pass_message_def server_round_def del: of_nat_add)
  ultimately show ?thesis
    using A2(1) B3(3) m(1) by auto
qed

lemma message_overruns:
  assumes "client_quiet p prt k A" "length m = 1024" "k \<le> 176000" "176000 < k + 1024"
  shows "\<exists>A1. tcp_send p m 1024 A = Inr (0, A1) \<and> pass_message junk p q sbuf A1 B = Inl (Undefined OutOfBounds)"
  using client_overruns [OF assms(1), of m] assms(2-) by (auto simp: pass_message_def)

lemma send_file_end: "send_file junk p q buf sbuf [] A B = Inr ([], A, B)"
  by (subst send_file.simps) (simp add: client_line_def fgets_def)

lemma send_file_line:
  "fgets buf 1024 inp = Some (m, rest) \<Longrightarrow> tcp_send p m 1024 A = Inr (r, A0) \<Longrightarrow>
    send_file junk p q buf sbuf inp A B =
      bindE (pass_message junk p q sbuf A0 B) (\<lambda>((b1, b2), A, B).
      bindE (send_file junk p q m b2 rest (sleep 1 A) B) (\<lambda>(bs, A, B). Inr (b1 # b2 # bs, A, B)))"
  by (subst send_file.simps) (simp add: client_line_def)

lemma send_file_delivers:
  assumes "client_quiet p prt k A" "server_quiet q prt k B" "length buf = 1024" "length sbuf = 512"
    and "k + 1024 * length (file_lines inp) \<le> 176000"
  shows "\<exists>reads A' B'. send_file junk p q buf sbuf inp A B = Inr (reads, A', B')
    \<and> concat reads = concat (messages buf (file_lines inp)) \<and> server_quiet q prt (k + 1024 * length (file_lines inp)) B'"
  using assms
proof (induction "length inp" arbitrary: inp buf sbuf k A B rule: less_induct)
  case less
  show ?case
  proof (cases "inp = []")
    case True
    then show ?thesis
      using less.prems by (simp add: send_file_end)
  next
    case False
    then obtain l rest where l: "fgets buf 1024 inp = Some (store_line buf l, rest)" "file_lines inp = l # file_lines rest"
      "length l < 1024" "l @ rest = inp" "l \<noteq> []"
      by (rule fgets_line)
    let ?m = "store_line buf l"
    have m: "length ?m = 1024" "k + 1024 \<le> 176000" "length rest < length inp"
      using l less.prems by (auto simp: length_store_line)
    obtain A0 A1 B1 where 1: "tcp_send p ?m 1024 A = Inr (0, A0)"
      "pass_message junk p q sbuf A0 B = Inr ((take 512 ?m, drop 512 ?m), A1, B1)"
      "client_quiet p prt (k + 1024) (sleep 1 A1)" "server_quiet q prt (k + 1024) B1"
      using message_delivered [OF less.prems(1,2) m(1) less.prems(4) m(2)] by blast
    have "length (drop 512 ?m) = 512" "k + 1024 + 1024 * length (file_lines rest) \<le> 176000"
      using m(1) less.prems(5) l(2) by simp_all
    then obtain reads A2 B2 where 2: "send_file junk p q ?m (drop 512 ?m) rest (sleep 1 A1) B1 = Inr (reads, A2, B2)"
      "concat reads = concat (messages ?m (file_lines rest))"
      "server_quiet q prt (k + 1024 + 1024 * length (file_lines rest)) B2"
      using less.hyps [OF m(3) 1(3,4) m(1)] by blast
    have "send_file junk p q buf sbuf inp A B = Inr (take 512 ?m # drop 512 ?m # reads, A2, B2)"
      using send_file_line [OF l(1) 1(1)] 1(2) 2(1) by simp
    then show ?thesis
      using 2(2,3) l(2) append_take_drop_id [of 512 ?m]
      by (simp add: algebra_simps del: append_take_drop_id flip: append.assoc)
  qed
qed

lemma send_file_overruns:
  assumes "client_quiet p prt k A" "server_quiet q prt k B" "length buf = 1024" "length sbuf = 512"
    and "k \<le> 176000" "176000 < k + 1024 * length (file_lines inp)"
  shows "send_file junk p q buf sbuf inp A B = Inl (Undefined OutOfBounds)"
  using assms
proof (induction "length inp" arbitrary: inp buf sbuf k A B rule: less_induct)
  case less
  then have "inp \<noteq> []"
    by auto
  then obtain l rest where l: "fgets buf 1024 inp = Some (store_line buf l, rest)" "file_lines inp = l # file_lines rest"
    "length l < 1024" "l @ rest = inp" "l \<noteq> []"
    by (rule fgets_line)
  let ?m = "store_line buf l"
  have m: "length ?m = 1024" "length rest < length inp"
    using l less.prems by (auto simp: length_store_line)
  show ?case
  proof (cases "k + 1024 \<le> 176000")
    case True
    obtain A0 A1 B1 where 1: "tcp_send p ?m 1024 A = Inr (0, A0)"
      "pass_message junk p q sbuf A0 B = Inr ((take 512 ?m, drop 512 ?m), A1, B1)"
      "client_quiet p prt (k + 1024) (sleep 1 A1)" "server_quiet q prt (k + 1024) B1"
      using message_delivered [OF less.prems(1,2) m(1) less.prems(4) True] by blast
    have "length (drop 512 ?m) = 512" "176000 < k + 1024 + 1024 * length (file_lines rest)"
      using m(1) less.prems(6) l(2) by simp_all
    then have "send_file junk p q ?m (drop 512 ?m) rest (sleep 1 A1) B1 = Inl (Undefined OutOfBounds)"
      using less.hyps [OF m(2) 1(3,4) m(1)] True by simp
    then show ?thesis
      using send_file_line [OF l(1) 1(1)] 1(2) by simp
  next
    case False
    then show ?thesis
      using message_overruns [OF less.prems(1) m(1) less.prems(5), of junk q sbuf B] send_file_line [OF l(1)] by fastforce
  qed
qed

section \<open>The start of the programs\<close>

text \<open>The server allocates the structure for the connection after it has begun to listen; the
  memory is the same as if it had done so before.\<close>

lemma malloc_after_listen:
  assumes l: "l < next_ptr h" and m: "malloc_sock junk h = (c, h')"
    and b: "tcp_bind l a h' = Inr (r, h1)" and ls: "tcp_listen l h1 = Inr (r', h2)"
  shows "\<exists>k1 k2. tcp_bind l a h = Inr (r, k1) \<and> tcp_listen l k1 = Inr (r', k2) \<and> malloc_sock junk k2 = (c, h2)"
  using assms
  by (auto simp: malloc_sock_def malloc_def tcp_bind_def tcp_listen_def update_sock_def Let_def bindE_eq_Inr_iff
      fun_upd_twist split: if_splits)

lemma malloc_sock_eq:
  "malloc_sock junk h = (c, h') \<Longrightarrow>
    c = next_ptr h \<and> h' = h\<lparr>socks := (socks h)(next_ptr h \<mapsto> junk), next_ptr := next_ptr h + 1\<rparr>"
  by (auto simp: malloc_sock_def malloc_def)

lemma fresh_sock_malloc:
  assumes "fresh_sock h l s w r t" "malloc_sock junk h = (c, h')"
  shows "fresh_sock h' l s w r t"
proof -
  have h': "h' = h\<lparr>socks := (socks h)(next_ptr h \<mapsto> junk), next_ptr := next_ptr h + 1\<rparr>"
    using malloc_sock_eq [OF assms(2)] by simp
  then have "two_queues h' q n x q' m y = two_queues h q n x q' m y" for q n x q' m y
    by (intro two_queues_cong) simp_all
  then show ?thesis
    using assms(1) malloc_sock_ok [of h junk] heap_ok_bound(1) [of h l s] h' by (auto simp: fresh_sock_def)
qed

lemma programs_connected:
  assumes A0: "heap_ok A0" "sized_blocks jA" "name_of A0 = Client" "poll_delay A0 < 2"
    and B0: "heap_ok B0" "sized_blocks jB" "name_of B0 = Server" "poll_delay B0 < 3"
  shows "\<exists>p c A B. connect_programs junk flag jA jB j (Some inp) A0 B0 = Inr (p, c, inp, A, B)
    \<and> client_quiet p 1234 0 A \<and> server_quiet c 1234 0 B"
proof -
  let ?A0 = "tcp_manager_init flag A0" and ?B0 = "tcp_manager_init flag B0"
  have init: "heap_ok ?A0" "name_of ?A0 = Client" "poll_delay ?A0 < 2" "heap_ok ?B0" "name_of ?B0 = Server"
    "poll_delay ?B0 < 3" "established_queue ?B0 i = NULL" for i
    using A0 B0 by (simp_all add: tcp_manager_init_def heap_ok_def)
  obtain p A where A: "tcp_socket jA ?A0 = Inr (p, A)"
    using tcp_socket_fresh [OF init(1), of jA] by blast
  obtain s w r t where fA: "fresh_sock A p s w r t" "new_buffers A s w" "name_of A = Client" "poll_delay A < 2"
    using tcp_socket_new [OF init(1) A0(2) A] init(2,3) by auto
  obtain l B where B: "tcp_socket jB ?B0 = Inr (l, B)"
    using tcp_socket_fresh [OF init(4), of jB] by blast
  obtain s' w' r' t' where fB: "fresh_sock B l s' w' r' t'" "new_buffers B s' w'" "name_of B = Server"
    "poll_delay B < 3" "established_queue B (pair_hash 1234 5678) = NULL"
    using tcp_socket_new [OF init(4) B0(2) B] init(5-7) by auto
  obtain c C where C: "malloc_sock junk B = (c, C)"
    by fastforce
  then have c: "c = next_ptr B" "C = B\<lparr>socks := (socks B)(next_ptr B \<mapsto> junk), next_ptr := next_ptr B + 1\<rparr>"
    using malloc_sock_eq by blast+
  have l: "l < next_ptr B"
    using fB(1) heap_ok_bound(1) [of B l s'] by (simp add: fresh_sock_def)
  have fC: "fresh_sock C l s' w' r' t'" "new_buffers C s' w'" "name_of C = Server" "poll_delay C < 3"
    "established_queue C (pair_hash 1234 5678) = NULL" "socks C c = Some junk" "c \<noteq> l"
    using fresh_sock_malloc [OF fB(1) C] fB(2-5) c l by (auto simp: new_buffers_def)
  obtain A' B' where op: "open_connection junk j p l c 1234 A C = Inr ([0, 0, 0, 0, 0], A', B')"
    "client_quiet p 1234 0 A'" "server_quiet c 1234 0 B'"
    using opened [OF fA(1,3,4,2) fC(1,3,4,2,5-7), of junk j] by blast
  obtain A1 r1 C1 r2 C2 C3 C4 A2 C5 where steps: "tcp_connect_begin p \<lparr>ip = server_ip, port = 1234\<rparr> A = Inr A1"
    "tcp_bind l \<lparr>ip = server_ip, port = 1234\<rparr> C = Inr (r1, C1)" "tcp_listen l C1 = Inr (r2, C2)"
    "tcp_accept_begin l c C2 = Inr C3" "onTCPPocket junk (last (wire A1)) C3 = Inr (0, C4)"
    "onTCPPocket junk (last (wire C4)) A1 = Inr (0, A2)" "onTCPPocket junk (last (wire A2)) C4 = Inr (0, C5)"
    "connect_ready p A2 = Inr True" "accept_ready l C5 = Inr True"
    "tcp_connect_finish p A2 = Inr (0, A')" "tcp_accept_finish j l c C5 = Inr (0, B')"
    using op(1) unfolding open_connection_def by (auto simp: bindE_eq_Inr_iff requireE_eq_Inr_iff)
  obtain k1 k2 where "tcp_bind l \<lparr>ip = server_ip, port = 1234\<rparr> B = Inr (r1, k1)" "tcp_listen l k1 = Inr (r2, k2)"
    "malloc_sock junk k2 = (c, C2)"
    using malloc_after_listen [OF l C steps(2,3)] by blast
  then have "connect_programs junk flag jA jB j (Some inp) A0 B0 = Inr (p, c, inp, A', B')"
    using A B steps
    by (simp add: connect_programs_def client_start_def server_start_def client_connected_def server_accepted_def
        startSimulation_def Let_def)
  then show ?thesis
    using op(2,3) by blast
qed

section \<open>What the programs do\<close>

lemma messages_strings: "\<forall>l \<in> set ls. 0 \<notin> set l \<Longrightarrow> map c_string (messages buf ls) = ls"
  by (induction ls arbitrary: buf) (simp_all add: c_string_store_line)

lemma concat_file_lines: "concat (file_lines inp) = inp"
proof (induction inp rule: file_lines.induct)
  case (1 inp)
  show ?case
  proof (cases "inp = []")
    case False
    obtain l rest where l: "take_line 1023 inp = (l, rest)"
      by fastforce
    then show ?thesis
      using 1 [OF False l [symmetric] refl] False take_line_append [OF l] by (simp add: file_lines.simps [of inp])
  qed simp
qed

lemma length_file_lines_newlines: "length (file_lines (replicate n 10)) = n"
  by (induction n) (simp_all add: file_lines.simps [of "_ # _"] numeral_eq_Suc)



text \<open>
  C6: The 172nd line makes the client write behind its send window. Each line costs 1024
  bytes, and the sending thread copies a segment to the offset of its sequence number in a
  block of 176000 bytes without looking at its end: whatever the file says, and although
  every earlier message has been received and acknowledged, a file of more than 171 lines
  ends in undefined behaviour.
\<close>

theorem long_file_overruns_window:
  assumes "heap_ok A0" "sized_blocks jA" "name_of A0 = Client" "poll_delay A0 < 2"
    and "heap_ok B0" "sized_blocks jB" "name_of B0 = Server" "poll_delay B0 < 3"
    and "length buf = 1024" "length sbuf = 512" "171 < length (file_lines inp)"
  shows "run_programs junk flag jA jB j buf sbuf (Some inp) A0 B0 = Inl (Undefined OutOfBounds)"
proof -
  obtain p c A B where 1: "connect_programs junk flag jA jB j (Some inp) A0 B0 = Inr (p, c, inp, A, B)"
    "client_quiet p 1234 0 A" "server_quiet c 1234 0 B"
    using programs_connected [OF assms(1-8)] by blast
  have "send_file junk p c buf sbuf inp A B = Inl (Undefined OutOfBounds)"
    using assms(11) by (intro send_file_overruns [OF 1(2,3) assms(9,10)]) simp_all
  then show ?thesis
    using 1(1) by (simp add: run_programs_def)
qed

lemma long_file_overruns_window_witness:
  "run_programs blank_sock False example_junk example_junk example_junk (replicate 1024 7) (replicate 512 7)
      (Some (replicate 172 10)) (blank_host Client) (blank_host Server) = Inl (Undefined OutOfBounds)"
proof -
  have host: "name_of (blank_host nm) = nm" "poll_delay (blank_host nm) < 2" "poll_delay (blank_host nm) < 3" for nm
    by (simp_all add: blank_host_def)
  have "length (replicate 1024 7 :: bytes) = 1024" "length (replicate 512 7 :: bytes) = 512"
    "171 < length (file_lines (replicate 172 10))"
    unfolding length_file_lines_newlines by simp_all
  then show ?thesis
    by (rule long_file_overruns_window [OF heap_ok_blank example_hosts(12) host(1,2) heap_ok_blank example_hosts(12) host(1,3)])
qed

end
