(* ===== verification/Rb_tree.thy ===== *)
theory Rb_tree
  imports Tcp_Prelude "HOL-Library.Tree"
begin

text \<open>
  \<open>src/rb_tree.c\<close> and \<open>include/rb_tree.h\<close>: intrusive red-black trees with parent pointers,
  the colour in the lowest bit of the parent pointer. The memory maps addresses (64-bit
  words, 0 is \<open>NULL\<close>) to nodes; one tree root belongs to it. Where the source writes the
  same code twice with left and right exchanged, the model has one definition with the
  side as an argument. Loops carry fuel; running out of it is the outcome \<open>Blocked\<close>, and the
  theorems on the loops show which fuel is enough. A tree of addresses and colours says
  what the memory holds.
\<close>

section \<open>Nodes\<close>


record rb_node =
  rb_parent_color :: u64
  rb_right :: u64
  rb_left :: u64

definition RB_RED :: u64 where "RB_RED = 0"
definition RB_BLACK :: u64 where "RB_BLACK = 1"

definition rb_parent :: "rb_node \<Rightarrow> u64" where
  "rb_parent r = rb_parent_color r AND NOT 3"

definition rb_color :: "rb_node \<Rightarrow> u64" where
  "rb_color r = rb_parent_color r AND 1"

definition rb_is_red :: "rb_node \<Rightarrow> bool" where
  "rb_is_red r \<longleftrightarrow> rb_color r = 0"

definition rb_is_black :: "rb_node \<Rightarrow> bool" where
  "rb_is_black r \<longleftrightarrow> rb_color r \<noteq> 0"

definition rb_set_red :: "rb_node \<Rightarrow> rb_node" where
  "rb_set_red r = r\<lparr>rb_parent_color := rb_parent_color r AND NOT 1\<rparr>"

definition rb_set_black :: "rb_node \<Rightarrow> rb_node" where
  "rb_set_black r = r\<lparr>rb_parent_color := rb_parent_color r OR 1\<rparr>"

definition rb_set_parent :: "u64 \<Rightarrow> rb_node \<Rightarrow> rb_node" where
  "rb_set_parent p rb = rb\<lparr>rb_parent_color := (rb_parent_color rb AND 3) OR p\<rparr>"

definition rb_set_color :: "u64 \<Rightarrow> rb_node \<Rightarrow> rb_node" where
  "rb_set_color color rb = rb\<lparr>rb_parent_color := (rb_parent_color rb AND NOT 1) OR color\<rparr>"

section \<open>Memory\<close>

record rb_mem =
  cells :: "u64 \<Rightarrow> rb_node option"
  rb_root :: u64

definition node_at :: "rb_mem \<Rightarrow> u64 \<Rightarrow> rb_node outcome" where
  "node_at m p = derefE (cells m p)"

definition upd :: "u64 \<Rightarrow> (rb_node \<Rightarrow> rb_node) \<Rightarrow> rb_mem \<Rightarrow> rb_mem outcome" where
  "upd p f m = bindE (node_at m p) (\<lambda>n. Inr (m\<lparr>cells := (cells m)(p \<mapsto> f n)\<rparr>))"

definition rb_init_node :: "u64 \<Rightarrow> rb_mem \<Rightarrow> rb_mem outcome" where
  "rb_init_node rb = upd rb (\<lambda>n. rb_set_parent rb (n\<lparr>rb_parent_color := 0, rb_right := 0, rb_left := 0\<rparr>))"

text \<open>The left and the right child, and the link a node is inserted at: a child field of its
  parent, or the root when there is no parent.\<close>

datatype side = L | R

primrec other :: "side \<Rightarrow> side" where
  "other L = R"
| "other R = L"

definition child :: "side \<Rightarrow> rb_node \<Rightarrow> u64" where
  "child s n = (case s of L \<Rightarrow> rb_left n | R \<Rightarrow> rb_right n)"

definition set_child :: "side \<Rightarrow> u64 \<Rightarrow> rb_node \<Rightarrow> rb_node" where
  "set_child s p n = (case s of L \<Rightarrow> n\<lparr>rb_left := p\<rparr> | R \<Rightarrow> n\<lparr>rb_right := p\<rparr>)"

definition rb_link_node :: "u64 \<Rightarrow> u64 \<Rightarrow> side \<Rightarrow> rb_mem \<Rightarrow> rb_mem outcome" where
  "rb_link_node node parent s m =
     bindE (upd node (\<lambda>n. n\<lparr>rb_parent_color := parent, rb_left := 0, rb_right := 0\<rparr>) m) (\<lambda>m.
       if parent = 0 then Inr (m\<lparr>rb_root := node\<rparr>) else upd parent (set_child s node) m)"

section \<open>Rotations\<close>

definition rb_rotate_left :: "u64 \<Rightarrow> rb_mem \<Rightarrow> rb_mem outcome" where
  "rb_rotate_left node m =
     bindE (node_at m node) (\<lambda>n. let right = rb_right n; parent = rb_parent n in
     bindE (node_at m right) (\<lambda>r.
     bindE (upd node (\<lambda>n. n\<lparr>rb_right := rb_left r\<rparr>) m) (\<lambda>m.
     bindE (if rb_left r \<noteq> 0 then upd (rb_left r) (rb_set_parent node) m else Inr m) (\<lambda>m.
     bindE (upd right (\<lambda>r. r\<lparr>rb_left := node\<rparr>) m) (\<lambda>m.
     bindE (upd right (rb_set_parent parent) m) (\<lambda>m.
     bindE (if parent \<noteq> 0
            then bindE (node_at m parent) (\<lambda>p.
                   if node = rb_left p then upd parent (\<lambda>p. p\<lparr>rb_left := right\<rparr>) m
                   else upd parent (\<lambda>p. p\<lparr>rb_right := right\<rparr>) m)
            else Inr (m\<lparr>rb_root := right\<rparr>)) (\<lambda>m.
     upd node (rb_set_parent right) m)))))))"

definition rb_rotate_right :: "u64 \<Rightarrow> rb_mem \<Rightarrow> rb_mem outcome" where
  "rb_rotate_right node m =
     bindE (node_at m node) (\<lambda>n. let left = rb_left n; parent = rb_parent n in
     bindE (node_at m left) (\<lambda>l.
     bindE (upd node (\<lambda>n. n\<lparr>rb_left := rb_right l\<rparr>) m) (\<lambda>m.
     bindE (if rb_right l \<noteq> 0 then upd (rb_right l) (rb_set_parent node) m else Inr m) (\<lambda>m.
     bindE (upd left (\<lambda>l. l\<lparr>rb_right := node\<rparr>) m) (\<lambda>m.
     bindE (upd left (rb_set_parent parent) m) (\<lambda>m.
     bindE (if parent \<noteq> 0
            then bindE (node_at m parent) (\<lambda>p.
                   if node = rb_right p then upd parent (\<lambda>p. p\<lparr>rb_right := left\<rparr>) m
                   else upd parent (\<lambda>p. p\<lparr>rb_left := left\<rparr>) m)
            else Inr (m\<lparr>rb_root := left\<rparr>)) (\<lambda>m.
     upd node (rb_set_parent left) m)))))))"

definition rb_rotate :: "side \<Rightarrow> u64 \<Rightarrow> rb_mem \<Rightarrow> rb_mem outcome" where
  "rb_rotate s = (case s of L \<Rightarrow> rb_rotate_left | R \<Rightarrow> rb_rotate_right)"

section \<open>What the memory holds\<close>

datatype color = Red | Black

type_synonym rbt = "(u64 \<times> color) tree"

fun color_code :: "color \<Rightarrow> u64" where
  "color_code Red = RB_RED"
| "color_code Black = RB_BLACK"

definition aligned :: "u64 \<Rightarrow> bool" where
  "aligned p \<longleftrightarrow> p AND 3 = 0"

text \<open>A node with the given parent, colour, child on side \<open>s\<close> and child on the other side.\<close>

definition cell :: "side \<Rightarrow> u64 \<Rightarrow> color \<Rightarrow> u64 \<Rightarrow> u64 \<Rightarrow> rb_node" where
  "cell s par c near far = (case s of
      L \<Rightarrow> \<lparr>rb_parent_color = par OR color_code c, rb_right = far, rb_left = near\<rparr>
    | R \<Rightarrow> \<lparr>rb_parent_color = par OR color_code c, rb_right = near, rb_left = far\<rparr>)"

lemma bit_low: "bit (3 :: u64) n \<longleftrightarrow> n = 0 \<or> n = 1"
proof -
  have eq: "(3 :: u64) = mask 2"
    by (simp add: mask_eq_exp_minus_1)
  have "bit (mask 2 :: u64) n \<longleftrightarrow> n < 2"
    by (auto simp: bit_mask_iff)
  then show ?thesis
    unfolding eq by (auto simp: less_2_cases_iff)
qed

lemma bit_color: "bit (color_code c) n \<longleftrightarrow> c = Black \<and> n = 0"
  by (cases c) (auto simp: RB_RED_def RB_BLACK_def bit_1_iff)

lemma aligned_bits: "aligned p \<longleftrightarrow> \<not> bit p 0 \<and> \<not> bit p 1"
proof
  assume "aligned p"
  then have "\<not> bit (p AND 3) n" for n
    by (simp add: aligned_def)
  then show "\<not> bit p 0 \<and> \<not> bit p 1"
    unfolding bit_and_iff bit_low by blast
next
  assume p: "\<not> bit p 0 \<and> \<not> bit p 1"
  show "aligned p"
    unfolding aligned_def
  proof (rule bit_word_eqI)
    fix n
    show "bit (p AND 3) n = bit 0 n"
      using p unfolding bit_and_iff bit_low by (cases "n = 0"; cases "n = 1") auto
  qed
qed

lemma aligned_0 [simp]: "aligned 0"
  by (simp add: aligned_def)

lemma cell_other: "cell (other s) par c x y = cell s par c y x"
  by (cases s) (simp_all add: cell_def)

lemma cell_children [simp]:
  "child s (cell s par c x y) = x" "child (other s) (cell s par c x y) = y"
  "set_child s z (cell s par c x y) = cell s par c z y" "set_child (other s) z (cell s par c x y) = cell s par c x z"
  "rb_left (cell L par c x y) = x" "rb_right (cell L par c x y) = y"
  "rb_left (cell R par c x y) = y" "rb_right (cell R par c x y) = x"
  by (cases s; simp add: cell_def child_def set_child_def)+

lemma cell_sides:
  "(cell L par c x y)\<lparr>rb_left := z\<rparr> = cell L par c z y" "(cell L par c x y)\<lparr>rb_right := z\<rparr> = cell L par c x z"
  "(cell R par c x y)\<lparr>rb_left := z\<rparr> = cell R par c x z" "(cell R par c x y)\<lparr>rb_right := z\<rparr> = cell R par c z y"
  by (simp_all add: cell_def)

lemma cell_color:
  assumes "aligned par"
  shows "rb_parent (cell s par c x y) = par" "rb_color (cell s par c x y) = color_code c"
    "rb_is_red (cell s par c x y) \<longleftrightarrow> c = Red" "rb_is_black (cell s par c x y) \<longleftrightarrow> c = Black"
    "rb_set_red (cell s par c x y) = cell s par Red x y" "rb_set_black (cell s par c x y) = cell s par Black x y"
    "rb_set_parent q (cell s par c x y) = cell s q c x y"
    "rb_set_color (color_code d) (cell s par c x y) = cell s par d x y"
proof -
  have b: "\<not> bit par 0" "\<not> bit par 1"
    using assms by (simp_all add: aligned_bits)
  note bits = bit_and_iff bit_or_iff bit_not_iff bit_low bit_color bit_1_iff
  have and1: "(par OR color_code c) AND 1 = color_code c"
    using b by (intro bit_word_eqI) (auto simp only: bits)
  have and3: "(par OR color_code c) AND 3 = color_code c"
    using b by (intro bit_word_eqI) (auto simp only: bits)
  have not3: "(par OR color_code c) AND NOT 3 = par"
    using b by (intro bit_word_eqI) (auto simp only: bits possible_bit_word)
  have not1: "(par OR color_code c) AND NOT 1 = par"
    using b by (intro bit_word_eqI) (auto simp only: bits possible_bit_word intro!: gr0I)
  have or1: "par OR color_code c OR 1 = par OR 1"
    by (intro bit_word_eqI) (auto simp only: bits)
  note defs = cell_def rb_parent_def rb_color_def rb_is_red_def rb_is_black_def rb_set_red_def rb_set_black_def
    rb_set_parent_def rb_set_color_def
  show "rb_parent (cell s par c x y) = par"
    using not3 by (cases s) (simp_all add: defs)
  show col: "rb_color (cell s par c x y) = color_code c"
    using and1 by (cases s) (simp_all add: defs)
  show "rb_is_red (cell s par c x y) \<longleftrightarrow> c = Red" "rb_is_black (cell s par c x y) \<longleftrightarrow> c = Black"
    unfolding rb_is_red_def rb_is_black_def col by (cases c; simp add: RB_RED_def RB_BLACK_def)+
  show "rb_set_red (cell s par c x y) = cell s par Red x y"
    "rb_set_color (color_code d) (cell s par c x y) = cell s par d x y"
    using not1 by (cases s; simp add: defs RB_RED_def)+
  show "rb_set_black (cell s par c x y) = cell s par Black x y"
    using or1 by (cases s; simp add: defs RB_BLACK_def or.assoc)
  show "rb_set_parent q (cell s par c x y) = cell s q c x y"
    using and3 by (cases s; simp add: defs or.commute)
qed

text \<open>The address of a tree's root node, the addresses in it, and a tree by its two sides.\<close>

fun addr :: "rbt \<Rightarrow> u64" where
  "addr Leaf = 0"
| "addr (Node l (a, c) r) = a"

fun addrs :: "rbt \<Rightarrow> u64 set" where
  "addrs Leaf = {}"
| "addrs (Node l (a, c) r) = insert a (addrs l \<union> addrs r)"

definition mk :: "side \<Rightarrow> rbt \<Rightarrow> u64 \<times> color \<Rightarrow> rbt \<Rightarrow> rbt" where
  "mk s near n far = (case s of L \<Rightarrow> Node near n far | R \<Rightarrow> Node far n near)"

text \<open>Distinct, aligned, non-zero addresses.\<close>

fun wf_tree :: "rbt \<Rightarrow> bool" where
  "wf_tree Leaf \<longleftrightarrow> True"
| "wf_tree (Node l (a, c) r) \<longleftrightarrow> a \<noteq> 0 \<and> aligned a \<and> a \<notin> addrs l \<and> a \<notin> addrs r
     \<and> addrs l \<inter> addrs r = {} \<and> wf_tree l \<and> wf_tree r"

text \<open>The nodes of the tree \<open>t\<close> are in memory, with the parent \<open>par\<close> above them.\<close>

fun rep :: "(u64 \<Rightarrow> rb_node option) \<Rightarrow> u64 \<Rightarrow> rbt \<Rightarrow> bool" where
  "rep M par Leaf \<longleftrightarrow> True"
| "rep M par (Node l (a, c) r) \<longleftrightarrow> M a = Some (cell L par c (addr l) (addr r)) \<and> rep M a l \<and> rep M a r"

lemma mk_simps [simp]:
  "addr (mk s x (a, c) y) = a" "addrs (mk s x (a, c) y) = insert a (addrs x \<union> addrs y)"
  "rep M par (mk s x (a, c) y) \<longleftrightarrow> M a = Some (cell s par c (addr x) (addr y)) \<and> rep M a x \<and> rep M a y"
  "wf_tree (mk s x (a, c) y) \<longleftrightarrow> a \<noteq> 0 \<and> aligned a \<and> a \<notin> addrs x \<and> a \<notin> addrs y
     \<and> addrs x \<inter> addrs y = {} \<and> wf_tree x \<and> wf_tree y"
  "mk s x n y \<noteq> Leaf"
  by (cases s; auto simp: mk_def cell_other [of L, simplified, symmetric])+

lemma mk_other: "mk (other s) x n y = mk s y n x"
  by (cases s) (simp_all add: mk_def)

lemma addr_0 [simp]: "wf_tree t \<Longrightarrow> addr t = 0 \<longleftrightarrow> t = Leaf"
  by (cases t rule: addr.cases) auto

lemma addr_in [simp]: "t \<noteq> Leaf \<Longrightarrow> addr t \<in> addrs t"
  by (cases t rule: addr.cases) auto

lemma addrs_nonzero: "wf_tree t \<Longrightarrow> a \<in> addrs t \<Longrightarrow> a \<noteq> 0"
  by (induction t rule: addrs.induct) auto

lemma rep_frame: "\<forall>a \<in> addrs t. M' a = M a \<Longrightarrow> rep M' par t = rep M par t"
  by (induction t arbitrary: par rule: addrs.induct) auto

lemma rep_upd [simp]: "a \<notin> addrs t \<Longrightarrow> rep (M(a := v)) par t = rep M par t"
  by (rule rep_frame) auto

text \<open>A subtree gets a new parent.\<close>

lemma rep_reparent:
  assumes "rep M par t" "t \<noteq> Leaf" "wf_tree t" "aligned par"
  shows "\<exists>n. M (addr t) = Some n \<and> rep (M(addr t \<mapsto> rb_set_parent q n)) q t"
  using assms by (cases t rule: addr.cases) (auto simp: cell_color)

section \<open>Trees with a hole\<close>

text \<open>
  A frame is a node with the side the hole is on, its address, its colour and the other
  subtree; a path lists the frames from the hole to the root.
\<close>

type_synonym frame = "side \<times> u64 \<times> color \<times> rbt"

fun plug :: "frame list \<Rightarrow> rbt \<Rightarrow> rbt" where
  "plug [] t = t"
| "plug ((s, a, c, u) # k) t = plug k (mk s t (a, c) u)"

fun top_addr :: "frame list \<Rightarrow> u64" where
  "top_addr [] = 0"
| "top_addr ((s, a, c, u) # k) = a"

fun path_addrs :: "frame list \<Rightarrow> u64 set" where
  "path_addrs [] = {}"
| "path_addrs ((s, a, c, u) # k) = insert a (addrs u \<union> path_addrs k)"

fun wf_path :: "frame list \<Rightarrow> bool" where
  "wf_path [] \<longleftrightarrow> True"
| "wf_path ((s, a, c, u) # k) \<longleftrightarrow> a \<noteq> 0 \<and> aligned a \<and> a \<notin> addrs u \<and> a \<notin> path_addrs k
     \<and> addrs u \<inter> path_addrs k = {} \<and> wf_tree u \<and> wf_path k"

fun rep_path :: "(u64 \<Rightarrow> rb_node option) \<Rightarrow> u64 \<Rightarrow> frame list \<Rightarrow> bool" where
  "rep_path M x [] \<longleftrightarrow> True"
| "rep_path M x ((s, a, c, u) # k) \<longleftrightarrow> M a = Some (cell s (top_addr k) c x (addr u)) \<and> rep M a u \<and> rep_path M a k"

lemma plug_append: "plug (k1 @ k2) t = plug k2 (plug k1 t)"
  by (induction k1 t rule: plug.induct) simp_all

lemma addrs_plug: "addrs (plug k t) = addrs t \<union> path_addrs k"
  by (induction k t rule: plug.induct) auto

lemma wf_plug: "wf_tree (plug k t) \<longleftrightarrow> wf_tree t \<and> wf_path k \<and> addrs t \<inter> path_addrs k = {}"
  by (induction k t rule: plug.induct) auto

lemma addr_plug: "addr (plug k t) = (if k = [] then addr t else addr (plug k Leaf))"
proof (induction k arbitrary: t)
  case (Cons f k)
  obtain s a c u where "f = (s, a, c, u)"
    by (cases f)
  then show ?case
    using Cons.IH [of "mk s t (a, c) u"] Cons.IH [of "mk s Leaf (a, c) u"] by simp
qed simp

lemma rep_plug: "rep M 0 (plug k t) \<longleftrightarrow> rep M (top_addr k) t \<and> rep_path M (addr t) k"
  by (induction k t rule: plug.induct) auto

lemma rep_path_frame: "\<forall>a \<in> path_addrs k. M' a = M a \<Longrightarrow> rep_path M' x k = rep_path M x k"
  by (induction k arbitrary: x rule: path_addrs.induct) (auto simp: rep_frame [of _ M' M])

lemma rep_path_upd [simp]: "a \<notin> path_addrs k \<Longrightarrow> rep_path (M(a := v)) x k = rep_path M x k"
  by (induction k arbitrary: x rule: path_addrs.induct) auto

lemma top_aligned [simp]: "wf_path k \<Longrightarrow> aligned (top_addr k)"
  by (cases k rule: top_addr.cases) auto

lemma top_0 [simp]: "wf_path k \<Longrightarrow> top_addr k = 0 \<longleftrightarrow> k = []"
  by (cases k rule: top_addr.cases) auto

lemma top_in [simp]: "k \<noteq> [] \<Longrightarrow> top_addr k \<in> path_addrs k"
  by (cases k rule: top_addr.cases) auto

text \<open>The hole gets a new root.\<close>

lemma rep_path_link:
  assumes "rep_path M x k" "k \<noteq> []" "wf_path k"
  shows "\<exists>s n. M (top_addr k) = Some n \<and> child s n = x \<and> rep_path (M(top_addr k \<mapsto> set_child s y n)) y k"
proof -
  obtain s a c u k' where k: "k = (s, a, c, u) # k'"
    using assms(2) by (cases k rule: top_addr.cases) auto
  then show ?thesis
    using assms by (intro exI [of _ s]) auto
qed

section \<open>Memory with one tree\<close>

definition holds :: "rb_mem \<Rightarrow> rbt \<Rightarrow> bool" where
  "holds m t \<longleftrightarrow> wf_tree t \<and> rep (cells m) 0 t \<and> rb_root m = addr t"

text \<open>An operation turned the tree \<open>t\<close> into \<open>t'\<close> and changed only nodes of \<open>t\<close>.\<close>

definition turns :: "rb_mem \<Rightarrow> rbt \<Rightarrow> rb_mem \<Rightarrow> rbt \<Rightarrow> bool" where
  "turns m t m' t' \<longleftrightarrow> holds m' t' \<and> addrs t' = addrs t \<and> (\<forall>a. a \<notin> addrs t \<longrightarrow> cells m' a = cells m a)"

lemma turns_refl: "holds m t \<Longrightarrow> turns m t m t"
  by (simp add: turns_def)

lemma turns_trans: "turns m t m1 t1 \<Longrightarrow> turns m1 t1 m2 t2 \<Longrightarrow> turns m t m2 t2"
  by (simp add: turns_def)

lemma turns_holds: "turns m t m' t' \<Longrightarrow> holds m' t'"
  by (simp add: turns_def)

lemma node_at_eq [simp]: "node_at m p = Inr n \<longleftrightarrow> cells m p = Some n"
  by (simp add: node_at_def)

lemma upd_eq: "cells m p = Some n \<Longrightarrow> upd p f m = Inr (m\<lparr>cells := (cells m)(p \<mapsto> f n)\<rparr>)"
  by (simp add: upd_def node_at_def)

text \<open>Reading a node of the tree.\<close>

lemma holds_node:
  assumes "holds m (plug k (mk s x (a, c) y))"
  shows "cells m a = Some (cell s (top_addr k) c (addr x) (addr y))" "aligned (top_addr k)" "a \<noteq> 0"
  using assms by (auto simp: holds_def rep_plug wf_plug)

text \<open>Changing its colour.\<close>

lemma recolor:
  assumes h: "holds m (plug k (mk s x (a, c) y))"
    and f: "\<And>par u v. aligned par \<Longrightarrow> f (cell s par c u v) = cell s par d u v"
  shows "\<exists>m'. upd a f m = Inr m' \<and> turns m (plug k (mk s x (a, c) y)) m' (plug k (mk s x (a, d) y))"
proof -
  let ?m = "m\<lparr>cells := (cells m)(a \<mapsto> cell s (top_addr k) d (addr x) (addr y))\<rparr>"
  have "upd a f m = Inr ?m"
    using holds_node [OF h] by (simp add: upd_eq f)
  moreover have "turns m (plug k (mk s x (a, c) y)) ?m (plug k (mk s x (a, d) y))"
    using h addr_plug [of k "mk s x (a, d) y"] addr_plug [of k "mk s x (a, c) y"]
    by (auto simp: turns_def holds_def rep_plug wf_plug addrs_plug)
  ultimately show ?thesis
    by blast
qed

section \<open>Rotations on the tree\<close>

lemma other_simps [simp]: "other (other s) = s" "other s \<noteq> s" "s \<noteq> other s"
  by (cases s; simp)+

lemma child_fun: "child L = rb_left" "child R = rb_right"
    "set_child L p = (\<lambda>n. n\<lparr>rb_left := p\<rparr>)" "set_child R p = (\<lambda>n. n\<lparr>rb_right := p\<rparr>)"
  by (simp_all add: fun_eq_iff child_def set_child_def)

text \<open>The link above the hole, in the form in which the rotations and \<open>rb_erase\<close> set it.\<close>

definition relink :: "side \<Rightarrow> u64 \<Rightarrow> u64 \<Rightarrow> u64 \<Rightarrow> rb_mem \<Rightarrow> rb_mem outcome" where
  "relink s old new parent m =
     (if parent \<noteq> 0
      then bindE (node_at m parent) (\<lambda>p.
             if old = child s p then upd parent (set_child s new) m else upd parent (set_child (other s) new) m)
      else Inr (m\<lparr>rb_root := new\<rparr>))"

text \<open>Both rotations are one operation with the sides exchanged.\<close>

lemma rb_rotate_eq:
  "rb_rotate s node m =
     bindE (node_at m node) (\<lambda>n. let y = child (other s) n; parent = rb_parent n in
     bindE (node_at m y) (\<lambda>r.
     bindE (upd node (set_child (other s) (child s r)) m) (\<lambda>m.
     bindE (if child s r \<noteq> 0 then upd (child s r) (rb_set_parent node) m else Inr m) (\<lambda>m.
     bindE (upd y (set_child s node) m) (\<lambda>m.
     bindE (upd y (rb_set_parent parent) m) (\<lambda>m.
     bindE (relink s node y parent m) (upd node (rb_set_parent y))))))))"
  by (cases s)
    (simp_all add: rb_rotate_def rb_rotate_left_def rb_rotate_right_def relink_def child_fun cong: if_cong)

lemma relink_effect:
  assumes r: "rep_path (cells m) x k" "wf_path k" "x \<noteq> 0" "x \<notin> path_addrs k" and root: "k = [] \<Longrightarrow> rb_root m = x"
  shows "\<exists>M g. relink s x y (top_addr k) m = Inr (m\<lparr>cells := M, rb_root := (if k = [] then y else rb_root m)\<rparr>)
    \<and> rep_path M y k \<and> (\<forall>a. a \<noteq> g \<longrightarrow> M a = cells m a) \<and> (k \<noteq> [] \<longrightarrow> g \<in> path_addrs k) \<and> (k = [] \<longrightarrow> M = cells m)"
proof (cases k rule: top_addr.cases)
  case 1
  then show ?thesis
    by (simp add: relink_def)
next
  case (2 s' g c u k')
  have g: "cells m g = Some (cell s' (top_addr k') c x (addr u))" "rep (cells m) g u" "rep_path (cells m) g k'"
    "g \<noteq> 0" "g \<notin> addrs u" "g \<notin> path_addrs k'"
    using r by (simp_all add: 2)
  have "x \<noteq> addr u"
    using r(2-4) by (cases "u = Leaf") (auto simp: 2)
  then have "relink s x y g m = Inr (m\<lparr>cells := (cells m)(g \<mapsto> cell s' (top_addr k') c y (addr u))\<rparr>)"
    using g(1,4) by (cases s; cases s') (simp_all add: relink_def upd_eq node_at_def child_def set_child_def cell_sides)
  then show ?thesis
    using g by (intro exI [of _ "(cells m)(g \<mapsto> cell s' (top_addr k') c y (addr u))"] exI [of _ g]) (simp add: 2)
qed

lemma reparent_effect:
  assumes "rep (cells m) par t" "wf_tree t" "aligned par"
  shows "\<exists>M. (if addr t \<noteq> 0 then upd (addr t) (rb_set_parent q) m else Inr m) = Inr (m\<lparr>cells := M\<rparr>)
    \<and> rep M q t \<and> (\<forall>a. a \<notin> addrs t \<longrightarrow> M a = cells m a)"
proof (cases "t = Leaf")
  case True
  then show ?thesis
    by (intro exI [of _ "cells m"]) simp
next
  case False
  obtain n where "cells m (addr t) = Some n" "rep ((cells m)(addr t \<mapsto> rb_set_parent q n)) q t"
    using rep_reparent [OF assms(1) False assms(2,3)] by blast
  then show ?thesis
    using False assms(2) by (intro exI [of _ "(cells m)(addr t \<mapsto> rb_set_parent q n)"]) (auto simp: upd_eq)
qed

lemma rotate_turns:
  assumes h: "holds m (plug k (mk s A (x, cx) (mk s B (y, cy) C)))"
  shows "\<exists>m'. rb_rotate s x m = Inr m'
    \<and> turns m (plug k (mk s A (x, cx) (mk s B (y, cy) C))) m' (plug k (mk s (mk s A (x, cx) B) (y, cy) C))"
proof -
  let ?M = "cells m"
  have M: "?M x = Some (cell s (top_addr k) cx (addr A) y)" "?M y = Some (cell s x cy (addr B) (addr C))"
    "rep ?M x A" "rep ?M y B" "rep ?M y C" "rep_path ?M x k"
    using h by (simp_all add: holds_def rep_plug)
  have w: "x \<noteq> 0" "y \<noteq> 0" "aligned x" "aligned y" "x \<noteq> y" "x \<notin> addrs A" "x \<notin> addrs B" "x \<notin> addrs C"
    "y \<notin> addrs A" "y \<notin> addrs B" "y \<notin> addrs C" "addrs A \<inter> addrs B = {}" "addrs A \<inter> addrs C = {}"
    "addrs B \<inter> addrs C = {}" "wf_tree A" "wf_tree B" "wf_tree C" "wf_path k" "x \<notin> path_addrs k" "y \<notin> path_addrs k"
    "addrs A \<inter> path_addrs k = {}" "addrs B \<inter> path_addrs k = {}" "addrs C \<inter> path_addrs k = {}"
    using h by (auto simp: holds_def wf_plug)
  let ?x1 = "cell s (top_addr k) cx (addr A) (addr B)" and ?y1 = "cell s (top_addr k) cy x (addr C)"
  define M1 where "M1 = ?M(x \<mapsto> ?x1)"
  have B1: "rep M1 y B"
    using M(4) w(7) by (simp add: M1_def)
  obtain M2 where M2: "(if addr B \<noteq> 0 then upd (addr B) (rb_set_parent x) (m\<lparr>cells := M1\<rparr>) else Inr (m\<lparr>cells := M1\<rparr>))
      = Inr (m\<lparr>cells := M2\<rparr>)" "rep M2 x B" "\<forall>a. a \<notin> addrs B \<longrightarrow> M2 a = M1 a"
    using reparent_effect [of "m\<lparr>cells := M1\<rparr>" y B x] B1 w(4,16) by auto
  define m4 where "m4 = m\<lparr>cells := M2(y \<mapsto> ?y1)\<rparr>"
  have "M2 y = ?M y" "M2 x = Some ?x1"
    using M2(3) w by (simp_all add: M1_def)
  then have y: "bindE (upd y (set_child s x) (m\<lparr>cells := M2\<rparr>)) (upd y (rb_set_parent (top_addr k))) = Inr m4"
    using M(2) w(3) by (simp add: upd_eq cell_color m4_def)
  have m4: "cells m4 a = ?M a" if "a \<noteq> x" "a \<noteq> y" "a \<notin> addrs B" for a
    using that M2(3) by (simp add: m4_def M1_def)
  have "rep_path (cells m4) x k"
    using M(6) w by (subst rep_path_frame [where M = ?M]) (auto intro!: m4)
  then obtain M5 g where link: "relink s x y (top_addr k) m4 = Inr (m4\<lparr>cells := M5, rb_root := (if k = [] then y else rb_root m4)\<rparr>)"
    and M5: "rep_path M5 y k" "\<forall>a. a \<noteq> g \<longrightarrow> M5 a = cells m4 a" "k \<noteq> [] \<longrightarrow> g \<in> path_addrs k" "k = [] \<longrightarrow> M5 = cells m4"
    using relink_effect [of m4 x k s y] h w by (auto simp: m4_def holds_def)
  have off: "M5 a = cells m4 a" if "a \<notin> path_addrs k" for a
    using M5(2-4) that by (cases "k = []") auto
  define m' where "m' = m\<lparr>cells := M5(x \<mapsto> cell s y cx (addr A) (addr B)), rb_root := (if k = [] then y else rb_root m)\<rparr>"
  have m': "cells m' a = ?M a" if "a \<noteq> x" "a \<noteq> y" "a \<notin> addrs B" "a \<notin> path_addrs k" for a
    using that off m4 by (simp add: m'_def)
  have "M5 x = Some ?x1"
    using off w \<open>M2 x = Some ?x1\<close> by (simp add: m4_def)
  then have last: "upd x (rb_set_parent y) (m4\<lparr>cells := M5, rb_root := (if k = [] then y else rb_root m4)\<rparr>) = Inr m'"
    using w(18) by (simp add: upd_eq cell_color m'_def m4_def)
  have "rb_rotate s x m = bindE (if addr B \<noteq> 0 then upd (addr B) (rb_set_parent x) (m\<lparr>cells := M1\<rparr>) else Inr (m\<lparr>cells := M1\<rparr>))
    (\<lambda>m. bindE (upd y (set_child s x) m) (\<lambda>m. bindE (upd y (rb_set_parent (top_addr k)) m) (\<lambda>m.
     bindE (relink s x y (top_addr k) m) (upd x (rb_set_parent y)))))"
    using M(1,2) w(18) by (simp add: rb_rotate_eq upd_eq cell_color M1_def node_at_def Let_def)
  also have "\<dots> = bindE (bindE (upd y (set_child s x) (m\<lparr>cells := M2\<rparr>)) (upd y (rb_set_parent (top_addr k)))) (\<lambda>m.
     bindE (relink s x y (top_addr k) m) (upd x (rb_set_parent y)))"
    by (simp only: M2(1) bindE_simps bindE_assoc)
  also have "\<dots> = Inr m'"
    by (simp only: y bindE_simps link last)
  finally have run: "rb_rotate s x m = Inr m'" .
  have "rep (cells m') x A" "rep (cells m') y C"
    using M(3,5) w by (subst rep_frame [where M = ?M]; auto intro!: m')+
  moreover have "\<forall>a \<in> addrs B. cells m' a = M2 a"
  proof
    fix a
    assume "a \<in> addrs B"
    then have "a \<notin> path_addrs k" "a \<noteq> x" "a \<noteq> y"
      using w by auto
    then show "cells m' a = M2 a"
      using off [of a] by (simp add: m'_def m4_def)
  qed
  then have "rep (cells m') x B"
    using M2(2) rep_frame by metis
  moreover have "cells m' y = Some ?y1" "cells m' x = Some (cell s y cx (addr A) (addr B))"
    using off w by (simp_all add: m'_def m4_def)
  moreover have "rep_path (cells m') y k"
    using M5(1) w by (simp add: m'_def)
  moreover have "rb_root m' = addr (plug k (mk s (mk s A (x, cx) B) (y, cy) C))"
    using h addr_plug [of k "mk s A (x, cx) (mk s B (y, cy) C)"]
    by (subst addr_plug) (simp add: m'_def holds_def)
  ultimately have "turns m (plug k (mk s A (x, cx) (mk s B (y, cy) C))) m' (plug k (mk s (mk s A (x, cx) B) (y, cy) C))"
    using w m' by (auto simp: turns_def holds_def rep_plug wf_plug addrs_plug)
  then show ?thesis
    using run by blast
qed

end
