(* ===== verification/Rb_insert.thy ===== *)
theory Rb_insert
  imports Rb_tree
begin

text \<open>
  Insertion into the trees of \<open>src/rb_tree.c\<close>: \<open>rb_insert_color\<close> rebalances after a red node
  has been linked. Its loop is followed on trees with a hole, and the balanced tree it
  leaves is related to the tree before.
\<close>

section \<open>The operation\<close>

text \<open>\<open>p && rb_is_red(p)\<close>.\<close>

definition red_at :: "u64 \<Rightarrow> rb_mem \<Rightarrow> bool outcome" where
  "red_at p m = (if p = 0 then Inr False else bindE (node_at m p) (\<lambda>n. Inr (rb_is_red n)))"

text \<open>The body of the loop when the parent is the child of the grandparent on side \<open>s\<close>; the
  result is the next \<open>node\<close>.\<close>

definition insert_color_body :: "side \<Rightarrow> u64 \<Rightarrow> u64 \<Rightarrow> u64 \<Rightarrow> rb_mem \<Rightarrow> (u64 \<times> rb_mem) outcome" where
  "insert_color_body s node parent gparent m =
     bindE (node_at m gparent) (\<lambda>g. let uncle = child (other s) g in
     bindE (red_at uncle m) (\<lambda>red.
       if red then
         bindE (upd uncle rb_set_black m) (\<lambda>m.
         bindE (upd parent rb_set_black m) (\<lambda>m.
         bindE (upd gparent rb_set_red m) (\<lambda>m. Inr (gparent, m))))
       else
         bindE (node_at m parent) (\<lambda>p.
         bindE (if child (other s) p = node
                then bindE (rb_rotate s parent m) (\<lambda>m. Inr (parent, node, m))
                else Inr (node, parent, m)) (\<lambda>(node, parent, m).
         bindE (upd parent rb_set_black m) (\<lambda>m.
         bindE (upd gparent rb_set_red m) (\<lambda>m.
         bindE (rb_rotate (other s) gparent m) (\<lambda>m. Inr (node, m))))))))"

fun insert_color_loop :: "nat \<Rightarrow> u64 \<Rightarrow> rb_mem \<Rightarrow> rb_mem outcome" where
  "insert_color_loop 0 node m = Inl Blocked"
| "insert_color_loop (Suc n) node m =
     bindE (node_at m node) (\<lambda>nd. let parent = rb_parent nd in
       if parent = 0 then Inr m
       else bindE (node_at m parent) (\<lambda>p.
         if \<not> rb_is_red p then Inr m
         else let gparent = rb_parent p in
           bindE (node_at m gparent) (\<lambda>g.
           bindE (insert_color_body (if parent = rb_left g then L else R) node parent gparent m)
             (\<lambda>(node, m). insert_color_loop n node m))))"

definition rb_insert_color :: "nat \<Rightarrow> u64 \<Rightarrow> rb_mem \<Rightarrow> rb_mem outcome" where
  "rb_insert_color n node m = bindE (insert_color_loop n node m) (\<lambda>m. upd (rb_root m) rb_set_black m)"

section \<open>The loop on trees\<close>

fun root_color :: "rbt \<Rightarrow> color" where
  "root_color Leaf = Black"
| "root_color (Node l (a, c) r) = c"

fun paint :: "color \<Rightarrow> rbt \<Rightarrow> rbt" where
  "paint c Leaf = Leaf"
| "paint c (Node l (a, d) r) = Node l (a, c) r"

fun near :: "side \<Rightarrow> rbt \<Rightarrow> rbt" where
  "near s Leaf = Leaf"
| "near s (Node l n r) = (case s of L \<Rightarrow> l | R \<Rightarrow> r)"

lemma mk_parts [simp]:
  "near s (mk s x n y) = x" "near (other s) (mk s x n y) = y" "root_color (mk s x (a, c) y) = c"
  "paint d (mk s x (a, c) y) = mk s x (a, d) y"
  by (cases s; simp add: mk_def)+

lemma tree_mk: "t \<noteq> Leaf \<Longrightarrow> t = mk s (near s t) (addr t, root_color t) (near (other s) t)"
  by (cases t rule: addr.cases; cases s) (simp_all add: mk_def)

text \<open>What the loop does to the tree with the red subtree \<open>t\<close> in the hole.\<close>

fun fix_insert :: "frame list \<Rightarrow> rbt \<Rightarrow> rbt" where
  "fix_insert ((s1, p, Red, u1) # (s, g, cg, u) # k) t =
     (if root_color u = Red then fix_insert k (mk s (mk s1 t (p, Black) u1) (g, Red) (paint Black u))
      else if s1 = s then plug k (mk s t (p, Black) (mk s u1 (g, Red) u))
      else plug k (mk s (mk s u1 (p, Red) (near s t)) (addr t, Black) (mk s (near (other s) t) (g, Red) u)))"
| "fix_insert k t = plug k t"

lemmas fix_insert_induct = fix_insert.induct [case_names red root black lone]

text \<open>The root, the last frame, is not red.\<close>

fun root_black :: "frame list \<Rightarrow> bool" where
  "root_black [] \<longleftrightarrow> True"
| "root_black [(s, a, c, u)] \<longleftrightarrow> c = Black"
| "root_black (f # k) \<longleftrightarrow> root_black k"

lemma loop_stops:
  "holds m (plug [] (mk s x (a, c) y)) \<Longrightarrow> insert_color_loop (Suc n) a m = Inr m"
  "holds m (plug ((s1, p, Black, u) # k) (mk s x (a, c) y)) \<Longrightarrow> insert_color_loop (Suc n) a m = Inr m"
proof -
  assume "holds m (plug [] (mk s x (a, c) y))"
  from holds_node [OF this] show "insert_color_loop (Suc n) a m = Inr m"
    by (simp add: node_at_def cell_color)
next
  assume h: "holds m (plug ((s1, p, Black, u) # k) (mk s x (a, c) y))"
  from holds_node [OF h] holds_node [of m k s1 _ p Black u] h
  show "insert_color_loop (Suc n) a m = Inr m"
    by (simp add: node_at_def cell_color)
qed

lemma red_at_eq: "holds m (plug k t) \<Longrightarrow> red_at (addr t) m = Inr (root_color t = Red)"
  by (cases t rule: addr.cases) (auto simp: red_at_def holds_def rep_plug wf_plug node_at_def cell_color)

text \<open>A red uncle: both are painted black, the grandparent red.\<close>

lemma body_red_uncle:
  assumes h: "holds m (plug ((s1, p, Red, u1) # (s, g, cg, mk s ul (ua, Red) ur) # k) t)"
  shows "\<exists>m'. insert_color_body s node p g m = Inr (g, m')
    \<and> turns m (plug ((s1, p, Red, u1) # (s, g, cg, mk s ul (ua, Red) ur) # k) t)
        m' (plug k (mk s (mk s1 t (p, Black) u1) (g, Red) (mk s ul (ua, Black) ur)))"
proof -
  let ?P = "\<lambda>c. mk s1 t (p, c) u1" and ?U = "\<lambda>c. mk s ul (ua, c) ur"
  have h0: "holds m (plug k (mk s (?P Red) (g, cg) (?U Red)))"
    using h by simp
  have h1: "holds m (plug ((other s, g, cg, ?P Red) # k) (?U Red))"
    using h0 by (simp add: mk_other)
  obtain m1 where m1: "upd ua rb_set_black m = Inr m1"
    "turns m (plug ((other s, g, cg, ?P Red) # k) (?U Red)) m1 (plug ((other s, g, cg, ?P Red) # k) (?U Black))"
    using recolor [OF h1, of rb_set_black Black] by (auto simp: cell_color)
  have h2: "holds m1 (plug ((s, g, cg, ?U Black) # k) (?P Red))"
    using turns_holds [OF m1(2)] by (simp add: mk_other)
  obtain m2 where m2: "upd p rb_set_black m1 = Inr m2"
    "turns m1 (plug ((s, g, cg, ?U Black) # k) (?P Red)) m2 (plug ((s, g, cg, ?U Black) # k) (?P Black))"
    using recolor [OF h2, of rb_set_black Black] by (auto simp: cell_color)
  have h3: "holds m2 (plug k (mk s (?P Black) (g, cg) (?U Black)))"
    using turns_holds [OF m2(2)] by simp
  obtain m3 where m3: "upd g rb_set_red m2 = Inr m3"
    "turns m2 (plug k (mk s (?P Black) (g, cg) (?U Black))) m3 (plug k (mk s (?P Black) (g, Red) (?U Black)))"
    using recolor [OF h3, of rb_set_red Red] by (auto simp: cell_color)
  have "insert_color_body s node p g m = Inr (g, m3)"
    using holds_node(1) [OF h0] red_at_eq [OF h1] m1(1) m2(1) m3(1)
    by (simp add: insert_color_body_def node_at_def)
  moreover have "turns m (plug k (mk s (?P Red) (g, cg) (?U Red))) m3 (plug k (mk s (?P Black) (g, Red) (?U Black)))"
    using turns_trans [OF turns_trans [OF m1(2) [unfolded plug.simps mk_other] m2(2) [unfolded plug.simps]] m3(2)] .
  ultimately show ?thesis
    by simp
qed


text \<open>A black uncle: the parent is painted black, the grandparent red and rotated down.\<close>

lemma black_rotate:
  assumes h: "holds m (plug k (mk s (mk s A (p, Red) B) (g, cg) u))"
  shows "\<exists>m'. bindE (upd p rb_set_black m) (\<lambda>m. bindE (upd g rb_set_red m) (rb_rotate (other s) g)) = Inr m'
    \<and> turns m (plug k (mk s (mk s A (p, Red) B) (g, cg) u)) m' (plug k (mk s A (p, Black) (mk s B (g, Red) u)))"
proof -
  let ?P = "\<lambda>c. mk s A (p, c) B"
  have h1: "holds m (plug ((s, g, cg, u) # k) (?P Red))"
    using h by simp
  obtain m1 where m1: "upd p rb_set_black m = Inr m1"
    "turns m (plug ((s, g, cg, u) # k) (?P Red)) m1 (plug ((s, g, cg, u) # k) (?P Black))"
    using recolor [OF h1, of rb_set_black Black] by (auto simp: cell_color)
  have h2: "holds m1 (plug k (mk s (?P Black) (g, cg) u))"
    using turns_holds [OF m1(2)] by simp
  obtain m2 where m2: "upd g rb_set_red m1 = Inr m2"
    "turns m1 (plug k (mk s (?P Black) (g, cg) u)) m2 (plug k (mk s (?P Black) (g, Red) u))"
    using recolor [OF h2, of rb_set_red Red] by (auto simp: cell_color)
  have eq: "mk (other s) u (g, Red) (mk (other s) B (p, Black) A) = mk s (?P Black) (g, Red) u"
    "mk (other s) (mk (other s) u (g, Red) B) (p, Black) A = mk s A (p, Black) (mk s B (g, Red) u)"
    by (simp_all add: mk_other)
  obtain m3 where m3: "rb_rotate (other s) g m2 = Inr m3"
    "turns m2 (plug k (mk s (?P Black) (g, Red) u)) m3 (plug k (mk s A (p, Black) (mk s B (g, Red) u)))"
    using rotate_turns [of m2 k "other s" u g Red B p Black A] turns_holds [OF m2(2)] unfolding eq by blast
  show ?thesis
    using m1 m2 m3 turns_trans [OF turns_trans [OF m1(2) [unfolded plug.simps] m2(2)] m3(2)] by auto
qed

lemma body_outer:
  assumes h: "holds m (plug ((s, p, Red, u1) # (s, g, cg, u) # k) (mk s x (a, c) y))" and u: "root_color u = Black"
  shows "\<exists>m'. insert_color_body s a p g m = Inr (a, m')
    \<and> turns m (plug ((s, p, Red, u1) # (s, g, cg, u) # k) (mk s x (a, c) y))
        m' (plug ((s, p, Black, mk s u1 (g, Red) u) # k) (mk s x (a, c) y))"
proof -
  let ?t = "mk s x (a, c) y"
  have h0: "holds m (plug k (mk s (mk s ?t (p, Red) u1) (g, cg) u))"
    using h by simp
  have h1: "holds m (plug ((other s, g, cg, mk s ?t (p, Red) u1) # k) u)"
    using h0 by (simp add: mk_other)
  obtain m' where m': "bindE (upd p rb_set_black m) (\<lambda>m. bindE (upd g rb_set_red m) (rb_rotate (other s) g)) = Inr m'"
    "turns m (plug k (mk s (mk s ?t (p, Red) u1) (g, cg) u)) m' (plug k (mk s ?t (p, Black) (mk s u1 (g, Red) u)))"
    using black_rotate [OF h0] by (elim exE conjE) (rule that)
  have n: "cells m p = Some (cell s g Red a (addr u1))" "addr u1 \<noteq> a"
  proof -
    show "cells m p = Some (cell s g Red a (addr u1))"
      using holds_node(1) [of m "(s, g, cg, u) # k" s ?t p Red u1] h by simp
    show "addr u1 \<noteq> a"
      using h by (cases "u1 = Leaf") (auto simp: holds_def wf_plug)
  qed
  have "bindE (insert_color_body s a p g m) (\<lambda>r. Inr (snd r)) = Inr m' \<and> (\<exists>m'. insert_color_body s a p g m = Inr (a, m'))"
    using holds_node(1) [OF h0] red_at_eq [OF h1] u n m'(1)
    by (auto simp: insert_color_body_def node_at_def bindE_def split: sum.splits)
  then have "insert_color_body s a p g m = Inr (a, m')"
    by (auto simp: bindE_def)
  then show ?thesis
    using m'(2) by simp
qed

lemma body_inner:
  assumes h: "holds m (plug ((other s, p, Red, u1) # (s, g, cg, u) # k) (mk s x (a, Red) y))" and u: "root_color u = Black"
  shows "\<exists>m'. insert_color_body s a p g m = Inr (p, m')
    \<and> turns m (plug ((other s, p, Red, u1) # (s, g, cg, u) # k) (mk s x (a, Red) y))
        m' (plug ((s, a, Black, mk s y (g, Red) u) # k) (mk s u1 (p, Red) x))"
proof -
  let ?t = "mk s x (a, Red) y"
  have h0: "holds m (plug ((s, g, cg, u) # k) (mk s u1 (p, Red) ?t))"
    using h by (simp add: mk_other)
  have h1: "holds m (plug ((other s, g, cg, mk s u1 (p, Red) ?t) # k) u)"
    using h0 by (simp add: mk_other)
  obtain m1 where m1: "rb_rotate s p m = Inr m1"
    "turns m (plug ((s, g, cg, u) # k) (mk s u1 (p, Red) ?t)) m1 (plug ((s, g, cg, u) # k) (mk s (mk s u1 (p, Red) x) (a, Red) y))"
    using rotate_turns [OF h0] by blast
  have h2: "holds m1 (plug k (mk s (mk s (mk s u1 (p, Red) x) (a, Red) y) (g, cg) u))"
    using turns_holds [OF m1(2)] by simp
  obtain m' where m': "bindE (upd a rb_set_black m1) (\<lambda>m. bindE (upd g rb_set_red m) (rb_rotate (other s) g)) = Inr m'"
    "turns m1 (plug k (mk s (mk s (mk s u1 (p, Red) x) (a, Red) y) (g, cg) u))
      m' (plug k (mk s (mk s u1 (p, Red) x) (a, Black) (mk s y (g, Red) u)))"
    using black_rotate [OF h2] by (elim exE conjE) (rule that)
  have n: "cells m p = Some (cell s g Red (addr u1) a)"
    using holds_node(1) [OF h0] by simp
  have g: "cells m g = Some (cell s (top_addr k) cg p (addr u))"
    using holds_node(1) [of m k s "mk s u1 (p, Red) ?t" g cg u] h0 by simp
  have "bindE (insert_color_body s a p g m) (\<lambda>r. Inr (snd r)) = Inr m' \<and> (\<exists>m'. insert_color_body s a p g m = Inr (p, m'))"
    using g red_at_eq [OF h1] u n m1(1) m'(1)
    by (auto simp: insert_color_body_def node_at_def bindE_def split: sum.splits)
  then have "insert_color_body s a p g m = Inr (p, m')"
    by (auto simp: bindE_def)
  moreover have "turns m (plug ((s, g, cg, u) # k) (mk s u1 (p, Red) ?t)) m' (plug k (mk s (mk s u1 (p, Red) x) (a, Black) (mk s y (g, Red) u)))"
    using turns_trans [OF m1(2) [unfolded plug.simps] m'(2)] by simp
  ultimately show ?thesis
    by (simp add: mk_other)
qed

text \<open>The loop: fuel beyond the length of the path is enough.\<close>

lemma loop_tree:
  assumes "holds m (plug k t)" "t \<noteq> Leaf" "root_color t = Red" "root_black k" "length k < n"
  shows "\<exists>m'. insert_color_loop n (addr t) m = Inr m' \<and> turns m (plug k t) m' (fix_insert k t)"
  using assms
proof (induction k t arbitrary: m n rule: fix_insert_induct)
  case (red s1 p u1 s g cg u k t)
  obtain n' where n: "n = Suc n'" "length k + 1 < n'"
    using red(6) by (cases n) auto
  let ?a = "addr t" and ?x = "near s t" and ?y = "near (other s) t"
  have t: "t = mk s ?x (?a, Red) ?y"
    using tree_mk [OF red(3), of s] red(4) by simp
  have h: "holds m (plug ((s1, p, Red, u1) # (s, g, cg, u) # k) (mk s ?x (?a, Red) ?y))"
    using red(2) t by simp
  have hp: "holds m (plug ((s, g, cg, u) # k) (mk s1 t (p, Red) u1))" and hg: "holds m (plug k (mk s (mk s1 t (p, Red) u1) (g, cg) u))"
    using red(2) by simp_all
  have un: "p \<noteq> addr u"
    using hg by (cases "u = Leaf") (auto simp: holds_def wf_plug)
  have side: "(if p = rb_left (cell s (top_addr k) cg p (addr u)) then L else R) = s"
    using un by (cases s) simp_all
  have step: "insert_color_loop n ?a m = bindE (insert_color_body s ?a p g m) (\<lambda>(node, m). insert_color_loop n' node m)"
    using holds_node [OF h] holds_node [OF hp] holds_node [OF hg] side by (simp add: n node_at_def cell_color)
  show ?case
  proof (cases "root_color u = Red")
    case True
    then have u: "u = mk s (near s u) (addr u, Red) (near (other s) u)"
      using tree_mk [of u s] by (cases u) auto
    have bp: "paint Black u = mk s (near s u) (addr u, Black) (near (other s) u)"
      by (subst u) simp
    let ?t' = "mk s (mk s1 t (p, Black) u1) (g, Red) (paint Black u)"
    obtain m1 where m1: "insert_color_body s ?a p g m = Inr (g, m1)"
      "turns m (plug ((s1, p, Red, u1) # (s, g, cg, u) # k) t) m1 (plug k ?t')"
      using body_red_uncle [of m s1 p u1 s g cg "near s u" "addr u" "near (other s) u" k t ?a] red(2)
      unfolding bp u [symmetric] by blast
    have "root_black k"
      using red(5) by (cases k) auto
    then obtain m' where "insert_color_loop n' g m1 = Inr m'" "turns m1 (plug k ?t') m' (fix_insert k ?t')"
      using red(1) [OF True turns_holds [OF m1(2)], of n'] n by auto
    then show ?thesis
      using True m1 turns_trans [OF m1(2)] by (auto simp: step)
  next
    case black: False
    then have b: "root_color u = Black"
      by (cases "root_color u") simp_all
    obtain n'' where n'': "n' = Suc n''"
      using n by (cases n') auto
    show ?thesis
    proof (cases "s1 = s")
      case True
      obtain m1 where m1: "insert_color_body s ?a p g m = Inr (?a, m1)"
        "turns m (plug ((s, p, Red, u1) # (s, g, cg, u) # k) t) m1 (plug ((s, p, Black, mk s u1 (g, Red) u) # k) t)"
        using body_outer [of m s p u1 g cg u k ?x ?a Red ?y] h b unfolding True t [symmetric] by blast
      have "insert_color_loop n' ?a m1 = Inr m1"
        unfolding n'' using turns_holds [OF m1(2)] t by (intro loop_stops(2) [of _ s p _ k s ?x _ Red ?y]) simp
      then show ?thesis
        using True black m1 by (auto simp: step)
    next
      case False
      then have s1: "s1 = other s"
        by (cases s; cases s1) simp_all
      obtain m1 where m1: "insert_color_body s ?a p g m = Inr (p, m1)"
        "turns m (plug ((s1, p, Red, u1) # (s, g, cg, u) # k) t) m1 (plug ((s, ?a, Black, mk s ?y (g, Red) u) # k) (mk s u1 (p, Red) ?x))"
        using body_inner [of m s p u1 g cg u k ?x ?a ?y] h b unfolding s1 t [symmetric] by blast
      have "insert_color_loop n' p m1 = Inr m1"
        unfolding n'' using turns_holds [OF m1(2)] by (rule loop_stops(2))
      then show ?thesis
        using False black m1 by (auto simp: step)
    qed
  qed
next
  case (root t)
  then show ?case
    using tree_mk [of t L] loop_stops(1) [of m L "near L t" "addr t" Red "near R t"] turns_refl by (cases n) auto
next
  case (black s1 p u1 k t)
  then show ?case
    using tree_mk [of t L] loop_stops(2) [of m s1 p u1 k L "near L t" "addr t" Red "near R t"] turns_refl by (cases n) auto
next
  case (lone f t)
  obtain s1 p c u1 where f: "f = (s1, p, c, u1)"
    by (cases f)
  then have "f = (s1, p, Black, u1)"
    using lone(4) by simp
  then show ?case
    using lone tree_mk [of t L] loop_stops(2) [of m s1 p u1 "[]" L "near L t" "addr t" Red "near R t"] turns_refl
    by (cases n) auto
qed


section \<open>Red-black trees\<close>

text \<open>The addresses in symmetric order, and the invariant: \<open>n\<close> black nodes on every way down, no
  red node below a red one, and a black root.\<close>

definition keys :: "rbt \<Rightarrow> u64 list" where
  "keys t = map fst (inorder t)"

lemma keys_Leaf [simp]: "keys Leaf = []"
  by (simp add: keys_def)

fun rb_height :: "nat \<Rightarrow> rbt \<Rightarrow> bool" where
  "rb_height n Leaf \<longleftrightarrow> n = 0"
| "rb_height n (Node l (a, Red) r) \<longleftrightarrow> rb_height n l \<and> rb_height n r \<and> root_color l = Black \<and> root_color r = Black"
| "rb_height n (Node l (a, Black) r) \<longleftrightarrow> 0 < n \<and> rb_height (n - 1) l \<and> rb_height (n - 1) r"

fun blacks :: "rbt \<Rightarrow> nat" where
  "blacks Leaf = 0"
| "blacks (Node l (a, c) r) = (if c = Black then 1 else 0) + blacks l"

definition rb_ok :: "rbt \<Rightarrow> bool" where
  "rb_ok t \<longleftrightarrow> root_color t = Black \<and> rb_height (blacks t) t"

lemma color_cases [simp]: "c \<noteq> Red \<longleftrightarrow> c = Black" "c \<noteq> Black \<longleftrightarrow> c = Red"
  by (cases c; simp)+

lemma blacks_eq: "rb_height n t \<Longrightarrow> blacks t = n"
  by (induction n t rule: rb_height.induct) auto

lemma rb_ok_iff: "rb_ok t \<longleftrightarrow> root_color t = Black \<and> (\<exists>n. rb_height n t)"
  using blacks_eq by (auto simp: rb_ok_def)

lemma height_mk [simp]:
  "rb_height n (mk s x (a, Red) y) \<longleftrightarrow> rb_height n x \<and> rb_height n y \<and> root_color x = Black \<and> root_color y = Black"
  "rb_height n (mk s x (a, Black) y) \<longleftrightarrow> 0 < n \<and> rb_height (n - 1) x \<and> rb_height (n - 1) y"
  by (cases s; auto simp: mk_def)+

lemma height_paint: "rb_height n t \<Longrightarrow> root_color t = Red \<Longrightarrow> rb_height (Suc n) (paint Black t)"
  by (cases t rule: addr.cases) auto

lemma paint_simps [simp]: "keys (paint c t) = keys t" "addrs (paint c t) = addrs t" "addr (paint c t) = addr t"
  "paint c t = Leaf \<longleftrightarrow> t = Leaf"
  by (cases t rule: addr.cases; simp add: keys_def)+

lemma paint_same: "root_color t = Black \<Longrightarrow> paint Black t = t"
  by (cases t rule: addr.cases) auto

fun before :: "frame list \<Rightarrow> u64 list" where
  "before [] = []"
| "before ((s, a, c, u) # k) = before k @ (case s of L \<Rightarrow> [] | R \<Rightarrow> keys u @ [a])"

fun after :: "frame list \<Rightarrow> u64 list" where
  "after [] = []"
| "after ((s, a, c, u) # k) = (case s of L \<Rightarrow> a # keys u | R \<Rightarrow> []) @ after k"

lemma keys_mk: "keys (mk s x (a, c) y) = (case s of L \<Rightarrow> keys x @ a # keys y | R \<Rightarrow> keys y @ a # keys x)"
  by (simp add: mk_def keys_def split: side.split)

lemma keys_plug: "keys (plug k t) = before k @ keys t @ after k"
  by (induction k t rule: plug.induct) (simp_all add: keys_mk split: side.split)

lemma keys_parts: "t \<noteq> Leaf \<Longrightarrow>
  keys t = (case s of L \<Rightarrow> keys (near s t) @ addr t # keys (near (other s) t) | R \<Rightarrow> keys (near (other s) t) @ addr t # keys (near s t))"
  using keys_mk [of s "near s t" "addr t" "root_color t" "near (other s) t"] tree_mk [of t s] by simp

text \<open>A path leads to a hole of black height \<open>n\<close>.\<close>

fun red_top :: "frame list \<Rightarrow> bool" where
  "red_top ((s, a, Red, u) # k) \<longleftrightarrow> True"
| "red_top k \<longleftrightarrow> False"

fun path_ok :: "nat \<Rightarrow> frame list \<Rightarrow> bool" where
  "path_ok n [] \<longleftrightarrow> True"
| "path_ok n ((s, a, Red, u) # k) \<longleftrightarrow> rb_height n u \<and> root_color u = Black \<and> path_ok n k \<and> k \<noteq> [] \<and> \<not> red_top k"
| "path_ok n ((s, a, Black, u) # k) \<longleftrightarrow> rb_height n u \<and> path_ok (Suc n) k"

lemma plug_ok: "rb_ok (plug k t) \<longleftrightarrow>
  (\<exists>n. rb_height n t \<and> path_ok n k \<and> (root_color t = Red \<longrightarrow> k \<noteq> [] \<and> \<not> red_top k))"
proof (induction k arbitrary: t)
  case Nil
  then show ?case
    by (cases "root_color t") (auto simp: rb_ok_iff)
next
  case (Cons f k)
  obtain s a c u where "f = (s, a, c, u)"
    by (cases f)
  then show ?case
    using Cons.IH [of "mk s t (a, c) u"] by (cases c) (auto simp: gr0_conv_Suc)
qed

lemma path_ok_root: "path_ok n k \<Longrightarrow> root_black k"
  by (induction n k rule: path_ok.induct) (auto elim: root_black.elims split: list.splits intro: root_black.cases)


section \<open>What insertion does\<close>

lemma keys_fix_insert: "t \<noteq> Leaf \<Longrightarrow> keys (fix_insert k t) = keys (plug k t)"
proof (induction k t rule: fix_insert_induct)
  case (red s1 p u1 s g cg u k t)
  then show ?case
    using keys_parts [of t s] by (cases s; cases s1) (auto simp: keys_plug keys_mk)
qed simp_all

lemma fix_insert_ok:
  assumes "rb_height n t" "root_color t = Red" "path_ok n k"
  shows "rb_ok (paint Black (fix_insert k t))"
  using assms
proof (induction k t arbitrary: n rule: fix_insert_induct)
  case (red s1 p u1 s g cg u k t)
  have path: "rb_height n u1" "root_color u1 = Black" "cg = Black" "rb_height n u" "path_ok (Suc n) k"
    using red(4) by (cases cg; simp)+
  show ?case
  proof (cases "root_color u = Red")
    case True
    have "rb_height (Suc n) (mk s (mk s1 t (p, Black) u1) (g, Red) (paint Black u))"
      using red(2) path True height_paint [OF path(4)] by (cases u rule: addr.cases) auto
    then show ?thesis
      using True path red(1) [of "Suc n"] by simp
  next
    case False
    have t: "rb_height n (near s t)" "rb_height n (near (other s) t)" "root_color (near s t) = Black" "root_color (near (other s) t) = Black"
      using red(2,3) tree_mk [of t s] height_mk(1) [of n s "near s t" "addr t" "near (other s) t"] by (cases "t = Leaf"; simp)+
    have "rb_ok (plug k (mk s t (p, Black) (mk s u1 (g, Red) u)))"
      using red(2) path False by (auto simp: plug_ok intro!: exI [of _ "Suc n"])
    moreover have "rb_ok (plug k (mk s (mk s u1 (p, Red) (near s t)) (addr t, Black) (mk s (near (other s) t) (g, Red) u)))"
      using t path False by (auto simp: plug_ok intro!: exI [of _ "Suc n"])
    ultimately show ?thesis
      using False by (auto simp: rb_ok_iff paint_same)
  qed
next
  case (root t)
  then show ?case
    using height_paint [of n t] by (cases t rule: addr.cases) (auto simp: rb_ok_iff)
next
  case (black s1 p u1 k t)
  then have "rb_ok (plug ((s1, p, Black, u1) # k) t)"
    unfolding plug_ok by auto
  then show ?case
    by (simp add: rb_ok_def paint_same)
next
  case (lone f t)
  then have "rb_ok (plug [f] t)"
    unfolding plug_ok by (cases "fst (snd (snd f))"; cases f) auto
  then show ?case
    by (simp add: rb_ok_def paint_same)
qed

lemma insert_color_ok:
  assumes h: "holds m (plug k t)" and t: "rb_height n t" "root_color t = Red" "path_ok n k" and fuel: "length k < N"
  shows "\<exists>m'. rb_insert_color N (addr t) m = Inr m' \<and> turns m (plug k t) m' (paint Black (fix_insert k t))
    \<and> rb_ok (paint Black (fix_insert k t)) \<and> keys (paint Black (fix_insert k t)) = keys (plug k t)"
proof -
  let ?t = "fix_insert k t"
  have ne: "t \<noteq> Leaf"
    using t(2) by auto
  obtain m1 where m1: "insert_color_loop N (addr t) m = Inr m1" "turns m (plug k t) m1 ?t"
    using loop_tree [OF h ne t(2) path_ok_root [OF t(3)] fuel] by blast
  have "?t \<noteq> Leaf"
    using keys_fix_insert [OF ne, of k] keys_plug [of k t] keys_parts [OF ne, of L] by (auto simp: keys_def)
  note mk = tree_mk [OF this, of L]
  have h1: "holds m1 (plug [] (mk L (near L ?t) (addr ?t, root_color ?t) (near R ?t)))"
    using turns_holds [OF m1(2)] mk by simp
  have p: "plug [] (mk L (near L ?t) (addr ?t, Black) (near R ?t)) = paint Black ?t"
    by (subst (4) mk) simp
  obtain m2 where m2: "upd (addr ?t) rb_set_black m1 = Inr m2" "turns m1 ?t m2 (paint Black ?t)"
    using recolor [OF h1, of rb_set_black Black] mk unfolding p by (auto simp: cell_color)
  have "rb_insert_color N (addr t) m = Inr m2"
    using m1(1) m2(1) turns_holds [OF m1(2)] by (simp add: rb_insert_color_def holds_def)
  then show ?thesis
    using turns_trans [OF m1(2) m2(2)] fix_insert_ok [OF t] keys_fix_insert [OF ne, of k] by auto
qed

text \<open>Linking a new node into a hole of the tree.\<close>

fun hole_side :: "frame list \<Rightarrow> side" where
  "hole_side [] = L"
| "hole_side ((s, a, c, u) # k) = s"

lemma link_node_holds:
  assumes h: "holds m (plug k Leaf)" and a: "cells m a \<noteq> None" "a \<noteq> 0" "aligned a" "a \<notin> path_addrs k"
  shows "\<exists>m'. rb_link_node a (top_addr k) (hole_side k) m = Inr m' \<and> holds m' (plug k (Node Leaf (a, Red) Leaf))
    \<and> (\<forall>b. b \<notin> insert a (path_addrs k) \<longrightarrow> cells m' b = cells m b)"
proof -
  obtain n where n: "cells m a = Some n"
    using a(1) by blast
  let ?n = "cell L (top_addr k) Red 0 0"
  have new: "n\<lparr>rb_parent_color := top_addr k, rb_left := 0, rb_right := 0\<rparr> = ?n"
    by (simp add: cell_def RB_RED_def)
  have w: "wf_path k" "rep_path (cells m) 0 k"
    using h by (simp_all add: holds_def wf_plug rep_plug)
  show ?thesis
  proof (cases k rule: top_addr.cases)
    case 1
    then show ?thesis
      using a n new by (simp add: rb_link_node_def upd_eq holds_def)
  next
    case (2 s p c u k')
    have p: "cells m p = Some (cell s (top_addr k') c 0 (addr u))" "p \<noteq> 0" "p \<noteq> a"
      using w a by (auto simp: 2)
    have r: "rb_root m = addr (plug k (Node Leaf (a, Red) Leaf))"
      using h addr_plug [of k "Node Leaf (a, Red) Leaf"] by (simp add: holds_def 2)
    have "rb_link_node a p s m = Inr (m\<lparr>cells := (cells m)(a \<mapsto> ?n, p \<mapsto> cell s (top_addr k') c a (addr u))\<rparr>)"
      using n new p by (simp add: rb_link_node_def upd_eq 2)
    moreover have "holds (m\<lparr>cells := (cells m)(a \<mapsto> ?n, p \<mapsto> cell s (top_addr k') c a (addr u))\<rparr>) (plug k (Node Leaf (a, Red) Leaf))"
      using w a p r unfolding holds_def wf_plug rep_plug by (simp add: 2)
    ultimately show ?thesis
      using p by (auto simp: 2)
  qed
qed


section \<open>Ways down are short\<close>

fun black_frames :: "frame list \<Rightarrow> nat" where
  "black_frames [] = 0"
| "black_frames ((s, a, c, u) # k) = (if c = Black then 1 else 0) + black_frames k"

lemma length_path: "path_ok n k \<Longrightarrow> length k + (if red_top k \<or> k = [] then 0 else 1) \<le> 2 * black_frames k"
  by (induction n k rule: path_ok.induct) (auto split: if_splits)

lemma height_plug: "rb_height n t \<Longrightarrow> path_ok n k \<Longrightarrow> root_color t = Red \<longrightarrow> k \<noteq> [] \<and> \<not> red_top k
  \<Longrightarrow> rb_height (n + black_frames k) (plug k t)"
proof (induction k arbitrary: n t)
  case (Cons f k)
  obtain s a c u where f: "f = (s, a, c, u)"
    by (cases f)
  show ?case
  proof (cases c)
    case Red
    then show ?thesis
      using Cons.prems Cons.IH [of n "mk s t (a, c) u"] by (cases "root_color t") (auto simp: f)
  next
    case Black
    then show ?thesis
      using Cons.prems Cons.IH [of "Suc n" "mk s t (a, c) u"] by (auto simp: f)
  qed
qed simp

lemma height_size: "rb_height n t \<Longrightarrow> 2 ^ n \<le> size t + 1"
proof (induction n t rule: rb_height.induct)
  case (3 n l a r)
  then show ?case
    by (cases n) auto
qed auto

lemma finite_addrs: "finite (addrs t)" "wf_tree t \<Longrightarrow> card (addrs t) = size t"
  by (induction t rule: addrs.induct) (auto simp: card_Un_disjoint)

lemma size_bound:
  assumes "wf_tree t"
  shows "size t < 2 ^ 64"
proof -
  have "0 \<notin> addrs t"
    using addrs_nonzero [OF assms] by blast
  then have "card (addrs t) < card (UNIV :: u64 set)"
    by (intro psubset_card_mono) auto
  then show ?thesis
    using assms by (simp add: finite_addrs card_word)
qed

lemma path_short:
  assumes "wf_tree (plug k t)" "rb_ok (plug k t)"
  shows "length k \<le> 128"
proof -
  obtain n where n: "rb_height n t" "path_ok n k" "root_color t = Red \<longrightarrow> k \<noteq> [] \<and> \<not> red_top k"
    using assms(2) unfolding plug_ok by blast
  have "2 ^ black_frames k \<le> (2 :: nat) ^ (n + black_frames k)"
    by simp
  also have "\<dots> \<le> size (plug k t) + 1"
    by (rule height_size [OF height_plug [OF n]])
  also have "\<dots> \<le> 2 ^ 64"
    using size_bound [OF assms(1)] by simp
  finally have "black_frames k \<le> 64"
    by (rule power_le_imp_le_exp [of 2, rotated]) simp
  then show ?thesis
    using length_path [OF n(2)] by (simp split: if_splits)
qed

section \<open>Insertion\<close>

text \<open>The tree after an insertion of the node \<open>a\<close>.\<close>

definition inserted_tree :: "frame list \<Rightarrow> u64 \<Rightarrow> rbt" where
  "inserted_tree k a = paint Black (fix_insert k (Node Leaf (a, Red) Leaf))"

lemma rb_insert_tree:
  assumes "holds m (plug k Leaf)" "rb_ok (plug k Leaf)"
    and "cells m a \<noteq> None" "a \<noteq> 0" "aligned a" "a \<notin> path_addrs k" and fuel: "129 \<le> N"
  shows "\<exists>m'. bindE (rb_link_node a (top_addr k) (hole_side k) m) (rb_insert_color N a) = Inr m'
    \<and> holds m' (inserted_tree k a) \<and> rb_ok (inserted_tree k a) \<and> keys (inserted_tree k a) = before k @ a # after k
    \<and> addrs (inserted_tree k a) = insert a (path_addrs k)
    \<and> (\<forall>b. b \<notin> insert a (path_addrs k) \<longrightarrow> cells m' b = cells m b)"
proof -
  let ?t = "Node Leaf (a, Red) Leaf"
  obtain m1 where m1: "rb_link_node a (top_addr k) (hole_side k) m = Inr m1" "holds m1 (plug k ?t)"
    "\<forall>b. b \<notin> insert a (path_addrs k) \<longrightarrow> cells m1 b = cells m b"
    using link_node_holds [OF assms(1,3-6)] by blast
  have len: "length k < N"
    using path_short [of k Leaf] assms(1,2) fuel by (simp add: holds_def)
  obtain n where n: "rb_height n Leaf" "path_ok n k"
    using assms(2) unfolding plug_ok by blast
  then have "rb_height n ?t" "root_color ?t = Red"
    by simp_all
  from insert_color_ok [OF m1(2) this n(2) len]
  obtain m' where "rb_insert_color N a m1 = Inr m'" "turns m1 (plug k ?t) m' (inserted_tree k a)" "rb_ok (inserted_tree k a)"
    "keys (inserted_tree k a) = keys (plug k ?t)"
    by (auto simp: inserted_tree_def)
  moreover have "keys ?t = [a]"
    by (simp add: keys_def)
  ultimately show ?thesis
    using m1 by (intro exI [of _ m']) (simp add: turns_def keys_plug addrs_plug)
qed

text \<open>
  C10: Inserting into a red-black tree. The memory holds a tree whose every way down passes the
  same number of black nodes and whose red nodes have no red child; a new node is linked
  into any hole of it (the path \<open>k\<close>) and \<open>rb_insert_color\<close> runs. The loop ends, whatever the
  size of the tree, within 129 rounds, no \<open>NULL\<close> is dereferenced, and the memory holds a
  red-black tree again, with the old nodes in the old order and the new one at its place;
  no other cell changes.
\<close>
theorem rb_insert_correct:
  assumes "holds m (plug k Leaf)" "rb_ok (plug k Leaf)"
    and "cells m a \<noteq> None" "a \<noteq> 0" "aligned a" "a \<notin> path_addrs k" and fuel: "129 \<le> N"
  shows "\<exists>m' t'. bindE (rb_link_node a (top_addr k) (hole_side k) m) (rb_insert_color N a) = Inr m'
    \<and> holds m' t' \<and> rb_ok t' \<and> keys t' = before k @ a # after k
    \<and> (\<forall>b. b \<notin> insert a (path_addrs k) \<longrightarrow> cells m' b = cells m b)"
  using rb_insert_tree [OF assms] by (elim exE conjE) (intro exI conjI; assumption)

text \<open>A concrete memory: the black root 16 with the red child 8 on the left, and the fresh node 24.\<close>

definition rb_sample :: rb_mem where
  "rb_sample = \<lparr>cells = [16 \<mapsto> \<lparr>rb_parent_color = 1, rb_right = 0, rb_left = 8\<rparr>,
     8 \<mapsto> \<lparr>rb_parent_color = 16, rb_right = 0, rb_left = 0\<rparr>, 24 \<mapsto> \<lparr>rb_parent_color = 0, rb_right = 0, rb_left = 0\<rparr>],
     rb_root = 16\<rparr>"

lemma rb_sample_holds: "holds rb_sample (plug [(L, 8, Red, Leaf), (L, 16, Black, Leaf)] Leaf)"
  by (simp add: holds_def rb_sample_def cell_def mk_def aligned_def RB_RED_def RB_BLACK_def)

lemma rb_insert_correct_witness:
  "\<exists>m' t'. bindE (rb_link_node 24 8 L rb_sample) (rb_insert_color 129 24) = Inr m'
    \<and> holds m' t' \<and> rb_ok t' \<and> keys t' = [24, 8, 16]"
proof -
  let ?k = "[(L, 8, Red, Leaf), (L, 16, Black, Leaf)] :: frame list"
  have "rb_ok (plug ?k Leaf)"
    by (simp add: mk_def rb_ok_def)
  moreover have "cells rb_sample 24 \<noteq> None" "(24 :: u64) \<noteq> 0" "aligned 24" "24 \<notin> path_addrs ?k"
    by (simp_all add: rb_sample_def aligned_def)
  ultimately show ?thesis
    using rb_insert_correct [OF rb_sample_holds, of 24 129] by auto
qed

end
