(* ===== verification/Rb_values.thy ===== *)
theory Rb_values
  imports Rb_insert
begin

text \<open>
  Predicates on trees that pass to subtrees and do not look at colours, such as the one that
  the values a user keeps in the nodes fit together. This theory says what a rebalancing may
  do to a tree for which such a predicate holds, so that a walk from its deepest node up,
  which looks at every node on its way and at the sibling of that node, restores it.
\<close>

section \<open>Predicates that pass to subtrees\<close>

definition hereditary :: "(rbt \<Rightarrow> bool) \<Rightarrow> bool" where
  "hereditary P \<longleftrightarrow> (\<forall>s x a c y. P (mk s x (a, c) y) \<longrightarrow> P x \<and> P y)
     \<and> (\<forall>s x a c d y. P (mk s x (a, c) y) \<longrightarrow> P (mk s x (a, d) y)) \<and> P Leaf"

text \<open>The predicate holds below the root of a tree.\<close>

definition kids :: "(rbt \<Rightarrow> bool) \<Rightarrow> rbt \<Rightarrow> bool" where
  "kids P t \<longleftrightarrow> P (near L t) \<and> P (near R t)"

definition path_all :: "(rbt \<Rightarrow> bool) \<Rightarrow> frame list \<Rightarrow> bool" where
  "path_all P k \<longleftrightarrow> (\<forall>(s, a, c, u) \<in> set k. P u)"

text \<open>What a rebalancing leaves of the trees beside the path: the one next to the hole is
  intact, of the others what is below the root.\<close>

fun loose :: "(rbt \<Rightarrow> bool) \<Rightarrow> frame list \<Rightarrow> bool" where
  "loose P [] \<longleftrightarrow> True"
| "loose P ((s, a, c, u) # k) \<longleftrightarrow> P u \<and> path_all (kids P) k"

lemma hereditaryD:
  assumes "hereditary P"
  shows "P (mk s x (a, c) y) \<Longrightarrow> P x" "P (mk s x (a, c) y) \<Longrightarrow> P y" "P (mk s x (a, c) y) \<Longrightarrow> P (mk s x (a, d) y)" "P Leaf"
  using assms unfolding hereditary_def by blast+

lemma hereditary_paint [simp]: "hereditary P \<Longrightarrow> P (paint c t) = P t"
proof (cases t rule: addr.cases)
  case (2 l a d r)
  assume "hereditary P"
  then show ?thesis
    using hereditaryD(3) [of P L l a c r d] hereditaryD(3) [of P L l a d r c] 2 by (auto simp: mk_def)
qed simp

lemma hereditary_near: "hereditary P \<Longrightarrow> P t \<Longrightarrow> P (near s t)"
  by (cases t rule: addr.cases; cases s) (auto simp: mk_def dest: hereditaryD(1,2) [of P L] hereditaryD(4))

lemma hereditary_kids: "hereditary P \<Longrightarrow> P t \<Longrightarrow> kids P t"
  by (simp add: kids_def hereditary_near)

lemma kids_mk [simp]: "kids P (mk s x n y) \<longleftrightarrow> P x \<and> P y"
  by (cases s) (auto simp: kids_def mk_def)

lemma path_all_simps [simp]:
  "path_all P []" "path_all P ((s, a, c, u) # k) \<longleftrightarrow> P u \<and> path_all P k" "path_all P (k1 @ k2) \<longleftrightarrow> path_all P k1 \<and> path_all P k2"
  by (simp_all add: path_all_def ball_Un)

lemma path_all_kids: "hereditary P \<Longrightarrow> path_all P k \<Longrightarrow> path_all (kids P) k"
  by (auto simp: path_all_def dest: hereditary_kids)

lemma path_all_loose: "hereditary P \<Longrightarrow> path_all P k \<Longrightarrow> loose P k"
  by (cases k rule: top_addr.cases) (auto simp: path_all_kids)

lemma loose_kids: "hereditary P \<Longrightarrow> loose P k \<Longrightarrow> path_all (kids P) k"
  by (cases k rule: top_addr.cases) (auto simp: hereditary_kids)

lemma loose_append: "hereditary P \<Longrightarrow> loose P (j @ k) \<longleftrightarrow> (if j = [] then loose P k else loose P j \<and> path_all (kids P) k)"
  by (cases j rule: top_addr.cases) auto

lemma plug_all: "hereditary P \<Longrightarrow> P (plug k t) \<Longrightarrow> path_all P k \<and> P t"
proof (induction k arbitrary: t)
  case (Cons f k)
  obtain s a c u where "f = (s, a, c, u)"
    by (cases f)
  then show ?case
    using Cons hereditaryD(1,2) [OF Cons.prems(1), of s t a c u] by auto
qed simp

section \<open>Trees after a rebalancing\<close>

text \<open>The subtree \<open>x\<close> is where it was, up to the colour of its root, below the node \<open>q\<close> or, when
  \<open>q\<close> is \<open>NULL\<close>, at the root, and beside the way up to it the predicate holds.\<close>

definition kept :: "(rbt \<Rightarrow> bool) \<Rightarrow> rbt \<Rightarrow> u64 \<Rightarrow> rbt \<Rightarrow> bool" where
  "kept P x q t \<longleftrightarrow> (\<exists>k c. t = plug k (paint c x) \<and> loose P k \<and> top_addr k = q)"

text \<open>The same in the middle of it: the rest of the path is still as it was.\<close>

definition keeps :: "(rbt \<Rightarrow> bool) \<Rightarrow> rbt \<Rightarrow> u64 \<Rightarrow> frame list \<Rightarrow> rbt \<Rightarrow> bool" where
  "keeps P x q k t \<longleftrightarrow> path_all P k \<and> (\<exists>j c. t = plug j (paint c x) \<and> loose P j \<and> top_addr (j @ k) = q)"

lemma paint_eq: "\<exists>c. t = paint c t"
  by (cases t rule: addr.cases) auto

lemma keeps_start:
  assumes "path_all P k"
  shows "keeps P x (top_addr k) k x"
proof -
  obtain c where "x = paint c x"
    using paint_eq [of x] by blast
  then show ?thesis
    using assms unfolding keeps_def by (intro conjI exI [of _ "[]"] exI [of _ c]) simp_all
qed

lemma keeps_kept:
  assumes "hereditary P" "keeps P x q k t"
  shows "kept P x q (plug k t)"
proof -
  obtain j c where "path_all P k" "t = plug j (paint c x)" "loose P j" "top_addr (j @ k) = q"
    using assms(2) unfolding keeps_def by blast
  then show ?thesis
    using assms(1) unfolding kept_def
    by (intro exI [of _ "j @ k"] exI [of _ c]) (simp add: plug_append loose_append path_all_loose path_all_kids)
qed

text \<open>A new frame over the hole, with an intact tree beside it; and two, after a rotation.\<close>

lemma keeps_frame:
  assumes "keeps P x q ((s, p, cp, u) # k) t" "P v" "path_all P k1" "hereditary P"
  shows "keeps P x q k1 (mk s t (p, d) v)"
proof -
  obtain j c where j: "t = plug j (paint c x)" "loose P j" "top_addr (j @ (s, p, cp, u) # k) = q"
    using assms(1) unfolding keeps_def by blast
  then have "top_addr ((j @ [(s, p, d, v)]) @ k1) = q"
    by (cases j rule: top_addr.cases) simp_all
  then show ?thesis
    using j(1,2) assms(2-4) unfolding keeps_def
    by (intro conjI exI [of _ "j @ [(s, p, d, v)]"] exI [of _ c]) (simp_all add: plug_append loose_append hereditary_kids)
qed

lemma keeps_rotated:
  assumes "keeps P x q ((s, p, cp, u) # k) t" "P v" "kids P w" "path_all P k1" "hereditary P"
  shows "kept P x q (plug k1 (mk s (mk s t (p, d) v) (y, e) w))"
proof -
  obtain j c where j: "t = plug j (paint c x)" "loose P j" "top_addr (j @ (s, p, cp, u) # k) = q"
    using assms(1) unfolding keeps_def by blast
  let ?k = "j @ (s, p, d, v) # (s, y, e, w) # k1"
  have "top_addr ?k = q"
    using j(3) by (cases j rule: top_addr.cases) simp_all
  then show ?thesis
    using j(1,2) assms(2-5) unfolding kept_def
    by (intro exI [of _ ?k] exI [of _ c]) (simp add: plug_append loose_append hereditary_kids path_all_kids)
qed

text \<open>Painting the root of the hole.\<close>

lemma keeps_paint:
  assumes "keeps P x q k t"
  shows "keeps P x q k (paint b t)"
proof -
  obtain j c where j: "path_all P k" "t = plug j (paint c x)" "loose P j" "top_addr (j @ k) = q"
    using assms unfolding keeps_def by blast
  show ?thesis
  proof (cases j rule: rev_cases)
    case Nil
    then show ?thesis
      using j unfolding keeps_def by (intro conjI exI [of _ "[]"] exI [of _ b]) (cases x rule: addr.cases; simp)+
  next
    case (snoc j0 f)
    obtain s a d u where f: "f = (s, a, d, u)"
      by (cases f)
    have "loose P (j0 @ [(s, a, b, u)])" "top_addr ((j0 @ [(s, a, b, u)]) @ k) = q"
      using j(3,4) unfolding snoc f by (cases j0 rule: top_addr.cases; auto)+
    then show ?thesis
      using j(1,2) unfolding keeps_def snoc f
      by (intro conjI exI [of _ "j0 @ [(s, a, b, u)]"] exI [of _ c]) (simp_all add: plug_append)
  qed
qed

lemma kept_paint: "kept P x q t \<Longrightarrow> kept P x q (paint b t)"
  using keeps_paint [of P x q "[]" t b] by (simp add: keeps_def kept_def)

section \<open>Trees after an insertion\<close>

text \<open>The predicate holds below the children of the new node, and below the trees beside its way
  to the root.\<close>

definition grown :: "(rbt \<Rightarrow> bool) \<Rightarrow> u64 \<Rightarrow> rbt \<Rightarrow> bool" where
  "grown P a t \<longleftrightarrow> (\<exists>k l r c. t = plug k (mk L l (a, c) r) \<and> kids P l \<and> kids P r \<and> path_all (kids P) k)"

lemma grown_node: "kids P x \<Longrightarrow> kids P y \<Longrightarrow> path_all (kids P) k \<Longrightarrow> grown P a (plug k (mk s x (a, c) y))"
proof -
  assume "kids P x" "kids P y" "path_all (kids P) k"
  moreover have "mk R x (a, c) y = mk L y (a, c) x"
    by (simp add: mk_def)
  ultimately show ?thesis
    unfolding grown_def by (cases s) (metis, metis)
qed

lemma grown_leaf: "hereditary P \<Longrightarrow> path_all (kids P) k \<Longrightarrow> grown P a (plug k (Node Leaf (a, c) Leaf))"
  using grown_node [of P Leaf Leaf k a L c] by (simp add: kids_def hereditaryD(4) mk_def)

lemma grown_paint:
  assumes "grown P a t"
  shows "grown P a (paint b t)"
proof -
  obtain k l r c where t: "t = plug k (mk L l (a, c) r)" "kids P l" "kids P r" "path_all (kids P) k"
    using assms unfolding grown_def by blast
  show ?thesis
  proof (cases k rule: rev_cases)
    case Nil
    then show ?thesis
      using t grown_node [of P l r "[]" a L b] by simp
  next
    case (snoc k0 f)
    obtain s p d u where f: "f = (s, p, d, u)"
      by (cases f)
    show ?thesis
      using t grown_node [of P l r "k0 @ [(s, p, b, u)]" a L c] unfolding snoc f by (simp add: plug_append)
  qed
qed

lemma grown_inner:
  assumes t: "t = plug j (Node Leaf (a, Red) Leaf)" "path_all P j" and P: "hereditary P" "P u1" "P u" "path_all P k"
  shows "grown P a (plug k (mk s (mk s u1 (p, Red) (near s t)) (addr t, Black) (mk s (near (other s) t) (g, Red) u)))"
proof (cases j rule: rev_cases)
  case Nil
  then show ?thesis
    using t P grown_node [of P "mk s u1 (p, Red) Leaf" "mk s Leaf (g, Red) u" k a s Black]
    by (cases s) (simp_all add: hereditaryD(4) path_all_kids)
next
  case (snoc j0 f)
  obtain s2 q c2 u2 where f: "f = (s2, q, c2, u2)"
    by (cases f)
  let ?x = "plug j0 (Node Leaf (a, Red) Leaf)"
  have tt: "t = mk s2 ?x (q, c2) u2" and u2: "path_all (kids P) j0" "P u2"
    using t P(1) unfolding snoc f by (simp_all add: plug_append path_all_kids)
  consider "s2 = s" | "s2 = other s"
    by (cases s; cases s2) simp_all
  then show ?thesis
  proof cases
    case 1
    have "mk s (mk s u1 (p, Red) ?x) (q, Black) (mk s u2 (g, Red) u)
      = plug (j0 @ [(other s, p, Red, u1), (s, q, Black, mk s u2 (g, Red) u)]) (Node Leaf (a, Red) Leaf)"
      by (simp add: plug_append mk_other)
    then show ?thesis
      using grown_leaf [of P "(j0 @ [(other s, p, Red, u1), (s, q, Black, mk s u2 (g, Red) u)]) @ k" a Red] u2 P
      unfolding tt 1 by (simp add: plug_append path_all_kids hereditary_kids)
  next
    case 2
    have "mk s (mk s u1 (p, Red) u2) (q, Black) (mk s ?x (g, Red) u)
      = plug (j0 @ [(s, g, Red, u), (other s, q, Black, mk s u1 (p, Red) u2)]) (Node Leaf (a, Red) Leaf)"
      by (simp add: plug_append mk_other)
    moreover have "near s t = u2" "near (other s) t = ?x"
      unfolding tt 2 mk_other by simp_all
    ultimately show ?thesis
      using grown_leaf [of P "(j0 @ [(s, g, Red, u), (other s, q, Black, mk s u1 (p, Red) u2)]) @ k" a Red] u2 P
      unfolding tt by (simp add: plug_append path_all_kids hereditary_kids)
  qed
qed

lemma fix_insert_grown:
  assumes "hereditary P" "path_all P k" "\<exists>j. t = plug j (Node Leaf (a, Red) Leaf) \<and> path_all P j"
  shows "grown P a (fix_insert k t)"
  using assms(2,3)
proof (induction k t rule: fix_insert_induct)
  case (red s1 p u1 s g cg u k t)
  obtain j where j: "t = plug j (Node Leaf (a, Red) Leaf)" "path_all P j"
    using red.prems(2) by blast
  have P: "P u1" "P u" "path_all P k"
    using red.prems(1) by simp_all
  have "mk s (mk s1 t (p, Black) u1) (g, Red) (paint Black u)
      = plug (j @ [(s1, p, Black, u1), (s, g, Red, paint Black u)]) (Node Leaf (a, Red) Leaf)"
    by (simp add: plug_append j(1))
  moreover have "path_all P (j @ [(s1, p, Black, u1), (s, g, Red, paint Black u)])"
    using j(2) P assms(1) by simp
  ultimately have "root_color u = Red \<Longrightarrow> grown P a (fix_insert k (mk s (mk s1 t (p, Black) u1) (g, Red) (paint Black u)))"
    using red.IH P(3) by blast
  moreover have "grown P a (plug k (mk s t (p, Black) (mk s u1 (g, Red) u)))"
    using grown_leaf [of P "(j @ [(s, p, Black, mk s u1 (g, Red) u)]) @ k" a Red] j P assms(1)
    by (simp add: plug_append path_all_kids)
  ultimately show ?case
    using grown_inner [OF j assms(1) P] by simp
next
  case (root t)
  then show ?case
    using assms(1) grown_leaf [of P _ a Red] by (auto simp: path_all_kids)
next
  case (black s1 p u1 k t)
  then obtain j where "t = plug j (Node Leaf (a, Red) Leaf)" "path_all P j"
    by blast
  then show ?case
    using black.prems(1) assms(1) grown_leaf [of P "j @ (s1, p, Black, u1) # k" a Red]
    by (simp add: plug_append path_all_kids hereditary_kids)
next
  case (lone f t)
  then obtain j where "t = plug j (Node Leaf (a, Red) Leaf)" "path_all P j"
    by blast
  then show ?case
    using lone.prems(1) assms(1) grown_leaf [of P "j @ [f]" a Red] by (cases f) (simp add: plug_append path_all_kids hereditary_kids)
qed

lemma inserted_grown:
  assumes "hereditary P" "path_all P k"
  shows "grown P a (inserted_tree k a)"
proof -
  have "grown P a (fix_insert k (Node Leaf (a, Red) Leaf))"
    using assms by (intro fix_insert_grown exI [of _ "[]"]) simp_all
  then show ?thesis
    unfolding inserted_tree_def by (rule grown_paint)
qed

end
