(* ===== verification/Rb_erase.thy ===== *)
theory Rb_erase
  imports Rb_values
begin

text \<open>
  Removal from the trees of \<open>src/rb_tree.c\<close>: \<open>rb_erase\<close> splices a node out, the successor
  taking its place when it has two children, and \<open>__rb_erase_color\<close> repairs the black
  heights. The lemmas follow the loop up the path and give the tree that \<open>rb_erase\<close> leaves.
\<close>

section \<open>Repairing the black heights\<close>

text \<open>\<open>!p || rb_is_black(p)\<close>.\<close>

definition black_at :: "u64 \<Rightarrow> rb_mem \<Rightarrow> bool outcome" where
  "black_at p m = (if p = 0 then Inr True else bindE (node_at m p) (\<lambda>n. Inr (rb_is_black n)))"

text \<open>The node \<open>node\<close> is the child of \<open>parent\<close> on side \<open>s\<close>. A red sibling is rotated up; the result
  is the sibling after that.\<close>

definition erase_red_sibling :: "side \<Rightarrow> u64 \<Rightarrow> rb_mem \<Rightarrow> (u64 \<times> rb_mem) outcome" where
  "erase_red_sibling s parent m =
     bindE (node_at m parent) (\<lambda>p. let sib = child (other s) p in
     bindE (node_at m sib) (\<lambda>o1.
       if rb_is_red o1 then
         bindE (upd sib rb_set_black m) (\<lambda>m.
         bindE (upd parent rb_set_red m) (\<lambda>m.
         bindE (rb_rotate s parent m) (\<lambda>m.
         bindE (node_at m parent) (\<lambda>p. Inr (child (other s) p, m)))))
       else Inr (sib, m)))"

definition black_children :: "u64 \<Rightarrow> rb_mem \<Rightarrow> bool outcome" where
  "black_children sib m =
     bindE (node_at m sib) (\<lambda>o1.
     bindE (black_at (rb_left o1) m) (\<lambda>b. if \<not> b then Inr False else black_at (rb_right o1) m))"

text \<open>A black far child of the sibling: its red near child is rotated up.\<close>

definition erase_near_red :: "side \<Rightarrow> u64 \<Rightarrow> u64 \<Rightarrow> rb_mem \<Rightarrow> (u64 \<times> rb_mem) outcome" where
  "erase_near_red s sib parent m =
     bindE (node_at m sib) (\<lambda>o1.
     bindE (black_at (child (other s) o1) m) (\<lambda>b.
       if b then
         bindE (upd (child s o1) rb_set_black m) (\<lambda>m.
         bindE (upd sib rb_set_red m) (\<lambda>m.
         bindE (rb_rotate (other s) sib m) (\<lambda>m.
         bindE (node_at m parent) (\<lambda>p. Inr (child (other s) p, m)))))
       else Inr (sib, m)))"

definition erase_far_red :: "side \<Rightarrow> u64 \<Rightarrow> u64 \<Rightarrow> rb_mem \<Rightarrow> rb_mem outcome" where
  "erase_far_red s sib parent m =
     bindE (node_at m parent) (\<lambda>p.
     bindE (upd sib (rb_set_color (rb_color p)) m) (\<lambda>m.
     bindE (upd parent rb_set_black m) (\<lambda>m.
     bindE (node_at m sib) (\<lambda>o1.
     bindE (upd (child (other s) o1) rb_set_black m) (\<lambda>m.
     rb_rotate s parent m)))))"

text \<open>One round: the next \<open>node\<close> and \<open>parent\<close>, or \<open>None\<close> when the loop breaks.\<close>

definition erase_color_body :: "side \<Rightarrow> u64 \<Rightarrow> rb_mem \<Rightarrow> ((u64 \<times> u64) option \<times> rb_mem) outcome" where
  "erase_color_body s parent m =
     bindE (erase_red_sibling s parent m) (\<lambda>(sib, m).
     bindE (black_children sib m) (\<lambda>b.
       if b then
         bindE (upd sib rb_set_red m) (\<lambda>m.
         bindE (node_at m parent) (\<lambda>p. Inr (Some (parent, rb_parent p), m)))
       else
         bindE (erase_near_red s sib parent m) (\<lambda>(sib, m).
         bindE (erase_far_red s sib parent m) (\<lambda>m. Inr (None, m)))))"

fun erase_color_loop :: "nat \<Rightarrow> u64 \<Rightarrow> u64 \<Rightarrow> rb_mem \<Rightarrow> (u64 \<times> rb_mem) outcome" where
  "erase_color_loop 0 node parent m = Inl Blocked"
| "erase_color_loop (Suc n) node parent m =
     bindE (black_at node m) (\<lambda>b.
       if \<not> (b \<and> node \<noteq> rb_root m) then Inr (node, m)
       else bindE (node_at m parent) (\<lambda>p.
         bindE (erase_color_body (if rb_left p = node then L else R) parent m) (\<lambda>(next, m).
           case next of None \<Rightarrow> Inr (rb_root m, m) | Some (node, parent) \<Rightarrow> erase_color_loop n node parent m)))"

definition rb_erase_color :: "nat \<Rightarrow> u64 \<Rightarrow> u64 \<Rightarrow> rb_mem \<Rightarrow> rb_mem outcome" where
  "rb_erase_color n node parent m =
     bindE (erase_color_loop n node parent m) (\<lambda>(node, m). if node \<noteq> 0 then upd node rb_set_black m else Inr m)"

section \<open>Splicing a node out\<close>

text \<open>The walk \<open>while (n->rb_left) n = n->rb_left\<close>, or to the right.\<close>

fun rb_walk :: "side \<Rightarrow> nat \<Rightarrow> u64 \<Rightarrow> rb_mem \<Rightarrow> u64 outcome" where
  "rb_walk s 0 n m = Inl Blocked"
| "rb_walk s (Suc f) n m =
     bindE (node_at m n) (\<lambda>nd. if child s nd \<noteq> 0 then rb_walk s f (child s nd) m else Inr n)"

definition erase_unlink :: "nat \<Rightarrow> u64 \<Rightarrow> u64 \<Rightarrow> rb_mem \<Rightarrow> rb_mem outcome" where
  "erase_unlink n ch node m =
     bindE (node_at m node) (\<lambda>nd. let parent = rb_parent nd; color = rb_color nd in
     bindE (if ch \<noteq> 0 then upd ch (rb_set_parent parent) m else Inr m) (\<lambda>m.
     bindE (relink L node ch parent m) (\<lambda>m.
       if color = RB_BLACK then rb_erase_color n ch parent m else Inr m)))"

text \<open>The successor \<open>node\<close> gives up its place and takes over the right, then the left subtree of
  \<open>old\<close>.\<close>

definition erase_take_right :: "u64 \<Rightarrow> u64 \<Rightarrow> rb_mem \<Rightarrow> (u64 \<times> rb_mem) outcome" where
  "erase_take_right old node m =
     bindE (node_at m node) (\<lambda>nd. let ch = rb_right nd; parent = rb_parent nd in
       if parent = old then Inr (node, m)
       else
         bindE (if ch \<noteq> 0 then upd ch (rb_set_parent parent) m else Inr m) (\<lambda>m.
         bindE (upd parent (\<lambda>p. p\<lparr>rb_left := ch\<rparr>) m) (\<lambda>m.
         bindE (node_at m old) (\<lambda>ol.
         bindE (upd node (\<lambda>nd. nd\<lparr>rb_right := rb_right ol\<rparr>) m) (\<lambda>m.
         bindE (upd (rb_right ol) (rb_set_parent node) m) (\<lambda>m. Inr (parent, m)))))))"

definition erase_take_place :: "u64 \<Rightarrow> u64 \<Rightarrow> rb_mem \<Rightarrow> rb_mem outcome" where
  "erase_take_place old node m =
     bindE (node_at m old) (\<lambda>ol.
     bindE (upd node (\<lambda>nd. nd\<lparr>rb_parent_color := rb_parent_color ol\<rparr>) m) (\<lambda>m.
     bindE (upd node (\<lambda>nd. nd\<lparr>rb_left := rb_left ol\<rparr>) m) (\<lambda>m.
     upd (rb_left ol) (rb_set_parent node) m)))"

definition erase_splice :: "nat \<Rightarrow> u64 \<Rightarrow> rb_mem \<Rightarrow> rb_mem outcome" where
  "erase_splice n old m =
     bindE (node_at m old) (\<lambda>ol.
     bindE (rb_walk L n (rb_right ol) m) (\<lambda>node.
     bindE (relink L old node (rb_parent ol) m) (\<lambda>m.
     bindE (node_at m node) (\<lambda>nd. let ch = rb_right nd; color = rb_color nd in
     bindE (erase_take_right old node m) (\<lambda>(parent, m).
     bindE (erase_take_place old node m) (\<lambda>m.
       if color = RB_BLACK then rb_erase_color n ch parent m else Inr m))))))"

definition rb_erase :: "nat \<Rightarrow> u64 \<Rightarrow> rb_mem \<Rightarrow> rb_mem outcome" where
  "rb_erase n node m =
     bindE (node_at m node) (\<lambda>nd.
       if rb_left nd = 0 then erase_unlink n (rb_right nd) node m
       else if rb_right nd = 0 then erase_unlink n (rb_left nd) node m
       else erase_splice n node m)"

section \<open>The loop on trees\<close>

lemma black_at_eq: "holds m (plug k t) \<Longrightarrow> black_at (addr t) m = Inr (root_color t = Black)"
  by (cases t rule: addr.cases) (auto simp: black_at_def holds_def rep_plug wf_plug node_at_def cell_color)

lemma recolor_far:
  assumes "holds m (plug k (mk s x (g, cg) (mk s l (u, c) r)))"
    and "\<And>par u v. aligned par \<Longrightarrow> f (cell s par c u v) = cell s par d u v"
  shows "\<exists>m'. upd u f m = Inr m' \<and> turns m (plug k (mk s x (g, cg) (mk s l (u, c) r))) m' (plug k (mk s x (g, cg) (mk s l (u, d) r)))"
  using recolor [of m "(other s, g, cg, x) # k" s l u c r f d] assms by (simp add: mk_other)

lemma recolor_near:
  assumes "holds m (plug k (mk s (mk s l (u, c) r) (g, cg) x))"
    and "\<And>par u v. aligned par \<Longrightarrow> f (cell s par c u v) = cell s par d u v"
  shows "\<exists>m'. upd u f m = Inr m' \<and> turns m (plug k (mk s (mk s l (u, c) r) (g, cg) x)) m' (plug k (mk s (mk s l (u, d) r) (g, cg) x))"
  using recolor [of m "(s, g, cg, x) # k" s l u c r f d] assms by simp

text \<open>A red sibling becomes the grandparent.\<close>

lemma red_sibling_turns:
  assumes h: "holds m (plug k (mk s t (p, Black) (mk s ul (u, Red) ur)))"
  shows "\<exists>m'. erase_red_sibling s p m = Inr (addr ul, m')
    \<and> turns m (plug k (mk s t (p, Black) (mk s ul (u, Red) ur))) m' (plug k (mk s (mk s t (p, Red) ul) (u, Black) ur))"
proof -
  obtain m1 where m1: "upd u rb_set_black m = Inr m1"
    "turns m (plug k (mk s t (p, Black) (mk s ul (u, Red) ur))) m1 (plug k (mk s t (p, Black) (mk s ul (u, Black) ur)))"
    using recolor_far [OF h, of rb_set_black Black] by (auto simp: cell_color)
  obtain m2 where m2: "upd p rb_set_red m1 = Inr m2"
    "turns m1 (plug k (mk s t (p, Black) (mk s ul (u, Black) ur))) m2 (plug k (mk s t (p, Red) (mk s ul (u, Black) ur)))"
    using recolor [OF turns_holds [OF m1(2)], of rb_set_red Red] by (auto simp: cell_color)
  obtain m3 where m3: "rb_rotate s p m2 = Inr m3"
    "turns m2 (plug k (mk s t (p, Red) (mk s ul (u, Black) ur))) m3 (plug k (mk s (mk s t (p, Red) ul) (u, Black) ur))"
    using rotate_turns [OF turns_holds [OF m2(2)]] by (elim exE conjE) (rule that)
  have p: "cells m3 p = Some (cell s u Red (addr t) (addr ul))"
    using holds_node(1) [of m3 "(s, u, Black, ur) # k" s t p Red ul] turns_holds [OF m3(2)] by simp
  have u: "cells m u = Some (cell s p Red (addr ul) (addr ur))" "aligned p"
    using holds_node(1,2) [of m "(other s, p, Black, t) # k" s ul u Red ur] h by (simp_all add: mk_other)
  have "erase_red_sibling s p m = Inr (addr ul, m3)"
    using holds_node(1) [OF h] u m1(1) m2(1) m3(1) p by (simp add: erase_red_sibling_def node_at_def cell_color)
  then show ?thesis
    using turns_trans [OF turns_trans [OF m1(2) m2(2)] m3(2)] by blast
qed

lemma black_sibling:
  assumes h: "holds m (plug k (mk s t (p, cp) (mk s ul (u, Black) ur)))"
  shows "erase_red_sibling s p m = Inr (u, m)"
proof -
  have "cells m u = Some (cell s p Black (addr ul) (addr ur))" "aligned p"
    using holds_node(1,2) [of m "(other s, p, cp, t) # k" s ul u Black ur] h by (simp_all add: mk_other)
  then show ?thesis
    using holds_node(1) [OF h] by (simp add: erase_red_sibling_def node_at_def cell_color)
qed

lemma black_children_eq:
  assumes h: "holds m (plug k (mk s ul (u, c) ur))"
  shows "black_children u m = Inr (root_color ul = Black \<and> root_color ur = Black)"
proof -
  have "black_at (addr ul) m = Inr (root_color ul = Black)"
    using black_at_eq [of m "(s, u, c, ur) # k" ul] h by simp
  moreover have "black_at (addr ur) m = Inr (root_color ur = Black)"
    using black_at_eq [of m "(other s, u, c, ul) # k" ur] h by (simp add: mk_other)
  ultimately show ?thesis
    using holds_node(1) [OF h] by (cases s) (auto simp: black_children_def node_at_def)
qed


text \<open>The red near child of the sibling takes the sibling's place.\<close>

lemma near_red_turns:
  assumes h: "holds m (plug k (mk s t (p, cp) (mk s (mk s al (a, Red) ar) (u, Black) ur)))" and ur: "root_color ur = Black"
  shows "\<exists>m'. erase_near_red s u p m = Inr (a, m')
    \<and> turns m (plug k (mk s t (p, cp) (mk s (mk s al (a, Red) ar) (u, Black) ur)))
        m' (plug k (mk s t (p, cp) (mk s al (a, Black) (mk s ar (u, Red) ur))))"
proof -
  let ?k = "(other s, p, cp, t) # k"
  have k: "plug ?k x = plug k (mk s t (p, cp) x)" for x
    by (simp add: mk_other)
  have h0: "holds m (plug ?k (mk s (mk s al (a, Red) ar) (u, Black) ur))"
    using h unfolding k .
  obtain m1 where m1: "upd a rb_set_black m = Inr m1"
    "turns m (plug ?k (mk s (mk s al (a, Red) ar) (u, Black) ur)) m1 (plug ?k (mk s (mk s al (a, Black) ar) (u, Black) ur))"
    using recolor_near [OF h0, of rb_set_black Black] by (auto simp: cell_color)
  obtain m2 where m2: "upd u rb_set_red m1 = Inr m2"
    "turns m1 (plug ?k (mk s (mk s al (a, Black) ar) (u, Black) ur)) m2 (plug ?k (mk s (mk s al (a, Black) ar) (u, Red) ur))"
    using recolor [OF turns_holds [OF m1(2)], of rb_set_red Red] by (auto simp: cell_color)
  have eq: "mk (other s) ur (u, Red) (mk (other s) ar (a, Black) al) = mk s (mk s al (a, Black) ar) (u, Red) ur"
    "mk (other s) (mk (other s) ur (u, Red) ar) (a, Black) al = mk s al (a, Black) (mk s ar (u, Red) ur)"
    by (simp_all add: mk_other)
  obtain m3 where m3: "rb_rotate (other s) u m2 = Inr m3"
    "turns m2 (plug ?k (mk s (mk s al (a, Black) ar) (u, Red) ur)) m3 (plug ?k (mk s al (a, Black) (mk s ar (u, Red) ur)))"
    using rotate_turns [of m2 ?k "other s" ur u Red ar a Black al, unfolded eq, OF turns_holds [OF m2(2)]]
    by (elim exE conjE) (rule that)
  have p: "cells m3 p = Some (cell s (top_addr k) cp (addr t) a)"
    using holds_node(1) [OF turns_holds [OF m3(2), unfolded k]] by simp
  have far: "black_at (addr ur) m = Inr True"
    using black_at_eq [of m "(other s, u, Black, mk s al (a, Red) ar) # ?k" ur] h0 ur by (simp add: mk_other)
  have "erase_near_red s u p m = Inr (a, m3)"
    using holds_node(1) [OF h0] far m1(1) m2(1) m3(1) p by (simp add: erase_near_red_def node_at_def)
  then show ?thesis
    using turns_trans [OF turns_trans [OF m1(2) m2(2)] m3(2)] unfolding k by blast
qed

text \<open>A red far child: it pays for the missing black node.\<close>

lemma far_red_turns:
  assumes h: "holds m (plug k (mk s t (p, cp) (mk s ul (u, c) (mk s vl (v, cv) vr))))"
  shows "\<exists>m'. erase_far_red s u p m = Inr m'
    \<and> turns m (plug k (mk s t (p, cp) (mk s ul (u, c) (mk s vl (v, cv) vr))))
        m' (plug k (mk s (mk s t (p, Black) ul) (u, cp) (mk s vl (v, Black) vr)))"
proof -
  let ?T = "\<lambda>cp' c cv. mk s t (p, cp') (mk s ul (u, c) (mk s vl (v, cv) vr))"
  obtain m1 where m1: "upd u (rb_set_color (color_code cp)) m = Inr m1" "turns m (plug k (?T cp c cv)) m1 (plug k (?T cp cp cv))"
    using recolor_far [OF h, of "rb_set_color (color_code cp)" cp] by (auto simp: cell_color)
  obtain m2 where m2: "upd p rb_set_black m1 = Inr m2" "turns m1 (plug k (?T cp cp cv)) m2 (plug k (?T Black cp cv))"
    using recolor [OF turns_holds [OF m1(2)], of rb_set_black Black] by (auto simp: cell_color)
  have k: "plug ((other s, p, Black, t) # k) x = plug k (mk s t (p, Black) x)" for x
    by (simp add: mk_other)
  have h2: "holds m2 (plug ((other s, p, Black, t) # k) (mk s ul (u, cp) (mk s vl (v, cv) vr)))"
    using turns_holds [OF m2(2)] unfolding k .
  obtain m3 where m3: "upd v rb_set_black m2 = Inr m3" "turns m2 (plug k (?T Black cp cv)) m3 (plug k (?T Black cp Black))"
    using recolor_far [OF h2, of rb_set_black Black] unfolding k by (auto simp: cell_color)
  obtain m4 where m4: "rb_rotate s p m3 = Inr m4"
    "turns m3 (plug k (?T Black cp Black)) m4 (plug k (mk s (mk s t (p, Black) ul) (u, cp) (mk s vl (v, Black) vr)))"
    using rotate_turns [OF turns_holds [OF m3(2)]] by (elim exE conjE) (rule that)
  have "erase_far_red s u p m = Inr m4"
    using holds_node(1,2) [OF h] holds_node(1) [OF h2] m1(1) m2(1) m3(1) m4(1)
    by (simp add: erase_far_red_def node_at_def cell_color)
  then show ?thesis
    using turns_trans [OF turns_trans [OF turns_trans [OF m1(2) m2(2)] m3(2)] m4(2)] by blast
qed

text \<open>The two ends of a round with a black sibling: both its children black, or not.\<close>

lemma round_black:
  assumes h: "holds m (plug k (mk s t (p, cp) (mk s ul (u, Black) ur)))" and b: "root_color ul = Black" "root_color ur = Black"
  shows "\<exists>m'. bindE (black_children u m) (\<lambda>b. if b
        then bindE (upd u rb_set_red m) (\<lambda>m. bindE (node_at m p) (\<lambda>n. Inr (Some (p, rb_parent n), m)))
        else bindE (erase_near_red s u p m) (\<lambda>(sib, m). bindE (erase_far_red s sib p m) (\<lambda>m. Inr (None, m))))
      = Inr (Some (p, top_addr k), m')
    \<and> turns m (plug k (mk s t (p, cp) (mk s ul (u, Black) ur))) m' (plug k (mk s t (p, cp) (mk s ul (u, Red) ur)))"
proof -
  obtain m1 where m1: "upd u rb_set_red m = Inr m1"
    "turns m (plug k (mk s t (p, cp) (mk s ul (u, Black) ur))) m1 (plug k (mk s t (p, cp) (mk s ul (u, Red) ur)))"
    using recolor_far [OF h, of rb_set_red Red] by (auto simp: cell_color)
  have "black_children u m = Inr True"
    using black_children_eq [of m "(other s, p, cp, t) # k" s ul u Black ur] h b by (simp add: mk_other)
  then show ?thesis
    using m1 holds_node(1,2) [OF turns_holds [OF m1(2)]] by (simp add: node_at_def cell_color)
qed

lemma round_red:
  assumes h: "holds m (plug k (mk s t (p, cp) (mk s ul (u, Black) ur)))" and r: "root_color ul = Red \<or> root_color ur = Red"
    and heights: "rb_height n t" "root_color t = Black" "rb_height n ul" "rb_height n ur"
  shows "\<exists>m' t'. bindE (black_children u m) (\<lambda>b. if b
        then bindE (upd u rb_set_red m) (\<lambda>m. bindE (node_at m p) (\<lambda>n. Inr (Some (p, rb_parent n), m)))
        else bindE (erase_near_red s u p m) (\<lambda>(sib, m). bindE (erase_far_red s sib p m) (\<lambda>m. Inr (None, m))))
      = Inr (None, m')
    \<and> turns m (plug k (mk s t (p, cp) (mk s ul (u, Black) ur))) m' (plug k t')
    \<and> rb_height (if cp = Red then Suc n else Suc (Suc n)) t' \<and> root_color t' = cp \<and> keys t' = keys (mk s t (p, cp) (mk s ul (u, Black) ur))
    \<and> (\<exists>v y w. t' = mk s (mk s t (p, Black) v) (y, cp) w \<and> (\<forall>P. hereditary P \<longrightarrow> P ul \<longrightarrow> P ur \<longrightarrow> P v \<and> kids P w))"
proof -
  let ?T = "mk s t (p, cp) (mk s ul (u, Black) ur)"
  have ch: "black_children u m = Inr False"
    using black_children_eq [of m "(other s, p, cp, t) # k" s ul u Black ur] h r by (auto simp: mk_other)
  have "\<exists>sib m1 xl v vl vr. erase_near_red s u p m = Inr (sib, m1)
      \<and> turns m (plug k ?T) m1 (plug k (mk s t (p, cp) (mk s xl (sib, Black) (mk s vl (v, Red) vr))))
      \<and> rb_height n xl \<and> rb_height n (mk s vl (v, Red) vr) \<and> keys (mk s xl (sib, Black) (mk s vl (v, Red) vr)) = keys (mk s ul (u, Black) ur)
      \<and> (\<forall>P. hereditary P \<longrightarrow> P ul \<longrightarrow> P ur \<longrightarrow> P xl \<and> P vl \<and> P vr)"
  proof (cases "root_color ur = Red")
    case True
    have ur: "ur = mk s (near s ur) (addr ur, Red) (near (other s) ur)"
      using tree_mk [of ur s] True by (cases "ur = Leaf") auto
    have "black_at (addr ur) m = Inr False"
      using black_at_eq [of m "(other s, u, Black, ul) # (other s, p, cp, t) # k" ur] h True by (simp add: mk_other)
    then have "erase_near_red s u p m = Inr (u, m)"
      using holds_node(1) [of m "(other s, p, cp, t) # k" s ul u Black ur] h
      by (simp add: erase_near_red_def node_at_def mk_other)
    then show ?thesis
      using ur heights turns_refl [OF h] by (intro exI [of _ u] exI [of _ m] exI [of _ ul] exI [of _ "addr ur"]
        exI [of _ "near s ur"] exI [of _ "near (other s) ur"]) (simp add: hereditary_near)
  next
    case False
    then have b: "root_color ur = Black"
      by simp
    have "ul \<noteq> Leaf" "root_color ul = Red"
      using r False by auto
    then obtain al a ar where ul: "ul = mk s al (a, Red) ar"
      using tree_mk [of ul s] by metis
    obtain m1 where m1: "erase_near_red s u p m = Inr (a, m1)"
      "turns m (plug k ?T) m1 (plug k (mk s t (p, cp) (mk s al (a, Black) (mk s ar (u, Red) ur))))"
      using near_red_turns [of m k s t p cp al a ar u ur] h b unfolding ul by blast
    have "\<forall>P. hereditary P \<longrightarrow> P ul \<longrightarrow> P ur \<longrightarrow> P al \<and> P ar \<and> P ur"
      unfolding ul using hereditaryD(1,2) by blast
    then show ?thesis
      using m1 heights b by (intro exI [of _ a] exI [of _ m1] exI [of _ al] exI [of _ u] exI [of _ ar] exI [of _ ur])
        (auto simp: ul keys_mk split: side.split)
  qed
  then obtain sib m1 xl v vl vr where near: "erase_near_red s u p m = Inr (sib, m1)"
    "turns m (plug k ?T) m1 (plug k (mk s t (p, cp) (mk s xl (sib, Black) (mk s vl (v, Red) vr))))"
    "rb_height n xl" "rb_height n (mk s vl (v, Red) vr)" "keys (mk s xl (sib, Black) (mk s vl (v, Red) vr)) = keys (mk s ul (u, Black) ur)"
    "\<forall>P. hereditary P \<longrightarrow> P ul \<longrightarrow> P ur \<longrightarrow> P xl \<and> P vl \<and> P vr"
    by blast
  obtain m2 where m2: "erase_far_red s sib p m1 = Inr m2"
    "turns m1 (plug k (mk s t (p, cp) (mk s xl (sib, Black) (mk s vl (v, Red) vr)))) m2
      (plug k (mk s (mk s t (p, Black) xl) (sib, cp) (mk s vl (v, Black) vr)))"
    using far_red_turns [OF turns_holds [OF near(2)]] by blast
  have "rb_height (if cp = Red then Suc n else Suc (Suc n)) (mk s (mk s t (p, Black) xl) (sib, cp) (mk s vl (v, Black) vr))"
    using near heights by (cases cp) auto
  moreover have "keys (mk s (mk s t (p, Black) xl) (sib, cp) (mk s vl (v, Black) vr)) = keys ?T"
    using near(5) by (cases s) (auto simp: keys_mk)
  moreover have "\<exists>z y w. mk s (mk s t (p, Black) xl) (sib, cp) (mk s vl (v, Black) vr) = mk s (mk s t (p, Black) z) (y, cp) w
      \<and> (\<forall>P. hereditary P \<longrightarrow> P ul \<longrightarrow> P ur \<longrightarrow> P z \<and> kids P w)"
    by (rule exI [of _ xl], rule exI [of _ sib], rule exI [of _ "mk s vl (v, Black) vr"]) (simp add: near(6))
  ultimately show ?thesis
    using ch near(1) m2(1) turns_trans [OF near(2) m2(2)]
    by (intro exI [of _ m2] exI [of _ "mk s (mk s t (p, Black) xl) (sib, cp) (mk s vl (v, Black) vr)"]) simp
qed


text \<open>A round: with a red sibling the hole moves one level down, below the rotated parent.\<close>

lemma erase_round:
  assumes h: "holds m (plug ((s, p, cp, u) # k) t)" and t: "rb_height n t" "root_color t = Black"
    and path: "path_ok (Suc n) ((s, p, cp, u) # k)"
  shows "\<exists>next m' k' t'. erase_color_body s p m = Inr (next, m')
    \<and> turns m (plug ((s, p, cp, u) # k) t) m' (plug k' t') \<and> keys (plug k' t') = keys (plug ((s, p, cp, u) # k) t)
    \<and> (case next of None \<Rightarrow> rb_ok (plug k' t')
       | Some (node, par) \<Rightarrow> node = addr t' \<and> par = top_addr k' \<and> t' \<noteq> Leaf \<and> length k' \<le> Suc (length k)
          \<and> (if root_color t' = Red then rb_height (Suc n) (paint Black t') \<and> path_ok (Suc n) k'
             else length k' \<le> length k \<and> rb_height (Suc n) t' \<and> path_ok (Suc (Suc n)) k'))
    \<and> (\<forall>P x q. hereditary P \<longrightarrow> keeps P x q ((s, p, cp, u) # k) t \<longrightarrow>
         (if next = None then kept P x q (plug k' t') else keeps P x q k' t'))"
proof -
  have done1: ?thesis
    if prep: "erase_red_sibling s p m = Inr (w, m1)" "turns m (plug ((s, p, cp, u) # k) t) m1 (plug k1 (mk s t (p, c1) (mk s wl (w, Black) wr)))"
      "keys (plug k1 (mk s t (p, c1) (mk s wl (w, Black) wr))) = keys (plug ((s, p, cp, u) # k) t)"
      and w: "rb_height n wl" "rb_height n wr" and k1: "length k1 \<le> Suc (length k)" "c1 = Black \<Longrightarrow> length k1 \<le> length k"
        "if c1 = Red then path_ok (Suc n) k1 \<and> k1 \<noteq> [] \<and> \<not> red_top k1 else path_ok (Suc (Suc n)) k1"
      and pres: "\<And>P. hereditary P \<Longrightarrow> P u \<Longrightarrow> path_all P k \<Longrightarrow> path_all P k1 \<and> P (mk s wl (w, Red) wr)"
    for w m1 k1 c1 wl wr
  proof (cases "root_color wl = Black \<and> root_color wr = Black")
    case True
    obtain m' where m': "erase_color_body s p m = Inr (Some (p, top_addr k1), m')"
      "turns m1 (plug k1 (mk s t (p, c1) (mk s wl (w, Black) wr))) m' (plug k1 (mk s t (p, c1) (mk s wl (w, Red) wr)))"
      using round_black [OF turns_holds [OF prep(2)]] True prep(1) by (auto simp: erase_color_body_def)
    have "keys (plug k1 (mk s t (p, c1) (mk s wl (w, Red) wr))) = keys (plug ((s, p, cp, u) # k) t)"
      unfolding prep(3) [symmetric] by (cases s) (simp_all add: keys_plug keys_mk)
    moreover have "\<forall>P x q. hereditary P \<longrightarrow> keeps P x q ((s, p, cp, u) # k) t \<longrightarrow> keeps P x q k1 (mk s t (p, c1) (mk s wl (w, Red) wr))"
      using pres keeps_frame [of _ _ _ s p cp u k t _ k1] unfolding keeps_def [of _ _ _ "_ # _"] by (metis path_all_simps(2))
    ultimately show ?thesis
      using m' turns_trans [OF prep(2) m'(2)] w t k1 True
      by (intro exI [of _ "Some (p, top_addr k1)"] exI [of _ m'] exI [of _ k1] exI [of _ "mk s t (p, c1) (mk s wl (w, Red) wr)"])
        (cases c1; simp)
  next
    case False
    then have r: "root_color wl = Red \<or> root_color wr = Red"
      by auto
    have "\<exists>m' t'. erase_color_body s p m = Inr (None, m')
      \<and> turns m1 (plug k1 (mk s t (p, c1) (mk s wl (w, Black) wr))) m' (plug k1 t')
      \<and> rb_height (if c1 = Red then Suc n else Suc (Suc n)) t' \<and> root_color t' = c1
      \<and> keys t' = keys (mk s t (p, c1) (mk s wl (w, Black) wr))
      \<and> (\<exists>v y z. t' = mk s (mk s t (p, Black) v) (y, c1) z \<and> (\<forall>P. hereditary P \<longrightarrow> P wl \<longrightarrow> P wr \<longrightarrow> P v \<and> kids P z))"
      using round_red [OF turns_holds [OF prep(2)] r t w] prep(1) by (simp add: erase_color_body_def)
    then obtain m' t' where m': "erase_color_body s p m = Inr (None, m')"
      "turns m1 (plug k1 (mk s t (p, c1) (mk s wl (w, Black) wr))) m' (plug k1 t')"
      "rb_height (if c1 = Red then Suc n else Suc (Suc n)) t'" "root_color t' = c1"
      "keys t' = keys (mk s t (p, c1) (mk s wl (w, Black) wr))"
      "\<exists>v y z. t' = mk s (mk s t (p, Black) v) (y, c1) z \<and> (\<forall>P. hereditary P \<longrightarrow> P wl \<longrightarrow> P wr \<longrightarrow> P v \<and> kids P z)"
      by blast
    have "rb_ok (plug k1 t')"
      using m'(3,4) k1(3) unfolding plug_ok by (cases c1) auto
    moreover have "keys (plug k1 t') = keys (plug ((s, p, cp, u) # k) t)"
      unfolding prep(3) [symmetric] by (simp add: keys_plug m'(5))
    moreover have "kept P x q (plug k1 t')" if P: "hereditary P" "keeps P x q ((s, p, cp, u) # k) t" for P x q
    proof -
      have "path_all P k1" "P wl" "P wr"
        using pres [OF P(1)] P hereditaryD(1,2) [OF P(1), of s wl w Red wr] by (auto simp: keeps_def)
      then show ?thesis
        using m'(6) P keeps_rotated [OF P(2)] by blast
    qed
    ultimately show ?thesis
      using m'(1) turns_trans [OF prep(2) m'(2)] by (intro exI [of _ None] exI [of _ m'] exI [of _ k1] exI [of _ t']) simp
  qed
  have hu: "rb_height (Suc n) u"
    using path by (cases cp) simp_all
  then have "u \<noteq> Leaf"
    by auto
  note u = tree_mk [OF this, of s]
  let ?ul = "near s u" and ?a = "addr u" and ?ur = "near (other s) u"
  have h0: "holds m (plug k (mk s t (p, cp) u))"
    using h by simp
  show ?thesis
  proof (cases "root_color u = Red")
    case True
    then have cp: "cp = Black"
      using path by (cases cp) auto
    have uR: "u = mk s ?ul (?a, Red) ?ur"
      using u True by simp
    have hs: "rb_height (Suc n) ?ul" "rb_height (Suc n) ?ur" "root_color ?ul = Black" "root_color ?ur = Black"
      using hu height_mk(1) [of "Suc n" s ?ul ?a ?ur] uR by simp_all
    then have "?ul \<noteq> Leaf"
      by auto
    note ul = tree_mk [OF this, of s]
    let ?w = "addr ?ul" and ?wl = "near s ?ul" and ?wr = "near (other s) ?ul"
    have ul': "?ul = mk s ?wl (?w, Black) ?wr"
      using ul hs(3) by simp
    have w: "rb_height n ?wl" "rb_height n ?wr"
      using hs(1) height_mk(2) [of "Suc n" s ?wl ?w ?wr] ul' by simp_all
    obtain m1 where m1: "erase_red_sibling s p m = Inr (?w, m1)"
      "turns m (plug k (mk s t (p, Black) u)) m1 (plug k (mk s (mk s t (p, Red) ?ul) (?a, Black) ?ur))"
      using red_sibling_turns [of m k s t p ?ul ?a ?ur] h0 cp unfolding uR [symmetric] by blast
    show ?thesis
    proof (rule done1 [of ?w m1 "(s, ?a, Black, ?ur) # k" Red ?wl ?wr])
      show "turns m (plug ((s, p, cp, u) # k) t) m1 (plug ((s, ?a, Black, ?ur) # k) (mk s t (p, Red) (mk s ?wl (?w, Black) ?wr)))"
        using m1(2) by (simp add: cp ul' [symmetric])
      have "keys u = (case s of L \<Rightarrow> keys ?ul @ ?a # keys ?ur | R \<Rightarrow> keys ?ur @ ?a # keys ?ul)"
        using keys_mk [of s ?ul ?a Red ?ur] uR by simp
      then show "keys (plug ((s, ?a, Black, ?ur) # k) (mk s t (p, Red) (mk s ?wl (?w, Black) ?wr))) = keys (plug ((s, p, cp, u) # k) t)"
        unfolding ul' [symmetric] by (cases s) (simp_all add: keys_plug keys_mk)
      show "if Red = Red then path_ok (Suc n) ((s, ?a, Black, ?ur) # k) \<and> (s, ?a, Black, ?ur) # k \<noteq> [] \<and> \<not> red_top ((s, ?a, Black, ?ur) # k)
        else path_ok (Suc (Suc n)) ((s, ?a, Black, ?ur) # k)"
        using path hs(2) cp by simp
      show "path_all P ((s, ?a, Black, ?ur) # k) \<and> P (mk s ?wl (?w, Red) ?wr)" if P: "hereditary P" "P u" "path_all P k" for P
        using P hereditary_near [OF P(1,2)] hereditaryD(3) [OF P(1), of s ?wl ?w Black ?wr Red] ul' by simp
    qed (use m1 w in simp_all)
  next
    case False
    then have uB: "u = mk s ?ul (?a, Black) ?ur"
      using u by simp
    have w: "rb_height n ?ul" "rb_height n ?ur"
      using hu height_mk(2) [of "Suc n" s ?ul ?a ?ur] uB by simp_all
    show ?thesis
    proof (rule done1 [of ?a m k cp ?ul ?ur])
      show "erase_red_sibling s p m = Inr (?a, m)"
        using black_sibling [of m k s t p cp ?ul ?a ?ur] h0 unfolding uB [symmetric] by simp
      show "turns m (plug ((s, p, cp, u) # k) t) m (plug k (mk s t (p, cp) (mk s ?ul (?a, Black) ?ur)))"
        unfolding uB [symmetric] using turns_refl [OF h0] by simp
      show "if cp = Red then path_ok (Suc n) k \<and> k \<noteq> [] \<and> \<not> red_top k else path_ok (Suc (Suc n)) k"
        using path by (cases cp) simp_all
      show "path_all P k \<and> P (mk s ?ul (?a, Red) ?ur)" if P: "hereditary P" "P u" "path_all P k" for P
        using P hereditaryD(3) [OF P(1), of s ?ul ?a Black ?ur Red] uB by simp
    qed (use w uB in simp_all)
  qed
qed


lemma plug_nonleaf: "k \<noteq> [] \<Longrightarrow> plug k t \<noteq> Leaf"
proof (induction k arbitrary: t)
  case (Cons f k)
  then show ?case
    by (cases f; cases k) (auto simp: mk_def split: side.split)
qed simp

text \<open>The whole loop. The measure drops by at least one every round, since a hole that went
  down has a red parent and the next round ends.\<close>

lemma erase_loop:
  assumes "holds m (plug k t)" "path_ok (Suc n) k"
    and "if root_color t = Red then rb_height (Suc n) (paint Black t) else rb_height n t"
    and "(if root_color t = Red then 0 else length k) + 1 < N"
  shows "\<exists>m' k' t'. erase_color_loop N (addr t) (top_addr k) m = Inr (addr t', m') \<and> turns m (plug k t) m' (plug k' t')
    \<and> keys (plug k' t') = keys (plug k t) \<and> rb_ok (plug k' (paint Black t'))
    \<and> (\<forall>P x q. hereditary P \<longrightarrow> keeps P x q k t \<longrightarrow> kept P x q (plug k' (paint Black t')))"
  using assms
proof (induction N arbitrary: m k t n)
  case (Suc N)
  show ?case
  proof (cases "root_color t = Red \<or> k = []")
    case True
    have "erase_color_loop (Suc N) (addr t) (top_addr k) m = Inr (addr t, m)"
      using black_at_eq [OF Suc.prems(1)] True Suc.prems(1) by (auto simp: holds_def)
    moreover have "root_color (paint Black t) = Black"
      by (cases t rule: addr.cases) simp_all
    moreover have "rb_ok (plug k (paint Black t))"
      using Suc.prems(2,3) True paint_same [of t] calculation(2) unfolding plug_ok
      by (cases "root_color t = Red") auto
    ultimately show ?thesis
      using turns_refl [OF Suc.prems(1)] keeps_kept [OF _ keeps_paint] by blast
  next
    case False
    then obtain s p cp u k0 where k: "k = (s, p, cp, u) # k0"
      by (cases k rule: top_addr.cases) auto
    have b: "root_color t = Black" "rb_height n t"
      using False Suc.prems(3) by auto
    have h: "holds m (plug ((s, p, cp, u) # k0) t)" and pk: "path_ok (Suc n) ((s, p, cp, u) # k0)"
      using Suc.prems k by simp_all
    obtain nx m1 k1 t1 where r: "erase_color_body s p m = Inr (nx, m1)" "turns m (plug k t) m1 (plug k1 t1)"
      "keys (plug k1 t1) = keys (plug k t)"
      "case nx of None \<Rightarrow> rb_ok (plug k1 t1)
       | Some (node, par) \<Rightarrow> node = addr t1 \<and> par = top_addr k1 \<and> t1 \<noteq> Leaf \<and> length k1 \<le> Suc (length k0)
          \<and> (if root_color t1 = Red then rb_height (Suc n) (paint Black t1) \<and> path_ok (Suc n) k1
             else length k1 \<le> length k0 \<and> rb_height (Suc n) t1 \<and> path_ok (Suc (Suc n)) k1)"
      "\<forall>P x q. hereditary P \<longrightarrow> keeps P x q k t \<longrightarrow> (if nx = None then kept P x q (plug k1 t1) else keeps P x q k1 t1)"
      using erase_round [OF h b(2,1) pk] unfolding k by blast
    have "rb_height (Suc n) u"
      using pk by (cases cp) simp_all
    then have u: "u \<noteq> Leaf"
      by auto
    have hp: "holds m (plug k0 (mk s t (p, cp) u))"
      using h by simp
    have w: "wf_tree t" "wf_tree u" "p \<notin> addrs t" "wf_path k0" "addrs t \<inter> addrs u = {}" "addrs t \<inter> path_addrs k0 = {}" "p \<noteq> 0"
      and root: "rb_root m = addr (plug k0 (mk s t (p, cp) u))"
      using hp by (auto simp: holds_def wf_plug)
    have ne: "addr t \<noteq> addr u"
      using w u by (cases "t = Leaf") (metis addr.simps(1) addr_0, metis addr_in disjoint_iff)
    have side: "(if rb_left (cell s (top_addr k0) cp (addr t) (addr u)) = addr t then L else R) = s"
      using ne by (cases s) simp_all
    have "addr t \<noteq> rb_root m"
    proof (cases "k0 = []")
      case True
      then show ?thesis
        using root w by (cases "t = Leaf") (simp, metis addr_in mk_simps(1) plug.simps(1))
    next
      case False
      have "addr (plug k0 Leaf) \<in> path_addrs k0" "rb_root m = addr (plug k0 Leaf)"
        using addr_in [OF plug_nonleaf [OF False, of Leaf]] addrs_plug [of k0 Leaf] root addr_plug [of k0 "mk s t (p, cp) u"] False
        by simp_all
      moreover have "addr (plug k0 Leaf) \<noteq> 0"
        using plug_nonleaf [OF False, of Leaf] addr_0 [of "plug k0 Leaf"] w by (simp add: wf_plug)
      ultimately show ?thesis
        using w by (cases "t = Leaf") (simp, metis addr_in disjoint_iff)
    qed
    then have step: "erase_color_loop (Suc N) (addr t) (top_addr k) m
      = (case nx of None \<Rightarrow> Inr (rb_root m1, m1) | Some (node, parent) \<Rightarrow> erase_color_loop N node parent m1)"
      using black_at_eq [OF h] b holds_node(1) [OF hp] side r(1) by (simp add: k node_at_def)
    show ?thesis
    proof (cases nx)
      case None
      then have "rb_ok (plug [] (paint Black (plug k1 t1)))"
        using r(4) by (auto simp: rb_ok_def paint_same)
      then show ?thesis
        using step None r turns_holds [OF r(2)]
        by (intro exI [of _ m1] exI [of _ "[]"] exI [of _ "plug k1 t1"]) (simp add: holds_def kept_paint)
    next
      case (Some np)
      obtain node par where np: "np = (node, par)"
        by (cases np)
      have "\<exists>m' k' t'. erase_color_loop N (addr t1) (top_addr k1) m1 = Inr (addr t', m') \<and> turns m1 (plug k1 t1) m' (plug k' t')
        \<and> keys (plug k' t') = keys (plug k1 t1) \<and> rb_ok (plug k' (paint Black t'))
        \<and> (\<forall>P x q. hereditary P \<longrightarrow> keeps P x q k1 t1 \<longrightarrow> kept P x q (plug k' (paint Black t')))"
      proof (cases "root_color t1 = Red")
        case True
        then show ?thesis
          using r(4) Suc.prems(4) b k turns_holds [OF r(2)] by (intro Suc.IH [where n = n]) (auto simp: Some np)
      next
        case F: False
        then show ?thesis
          using r(4) Suc.prems(4) b k turns_holds [OF r(2)] by (intro Suc.IH [where n = "Suc n"]) (auto simp: Some np)
      qed
      then obtain m' k' t' where *: "erase_color_loop N (addr t1) (top_addr k1) m1 = Inr (addr t', m')"
        "turns m1 (plug k1 t1) m' (plug k' t')" "keys (plug k' t') = keys (plug k1 t1)" "rb_ok (plug k' (paint Black t'))"
        "\<forall>P x q. hereditary P \<longrightarrow> keeps P x q k1 t1 \<longrightarrow> kept P x q (plug k' (paint Black t'))"
        by blast
      have "erase_color_loop (Suc N) (addr t) (top_addr k) m = Inr (addr t', m')"
        unfolding step using r(4) *(1) by (simp add: Some np)
      then show ?thesis
        using *(3-5) r(3,5) turns_trans [OF r(2) *(2)] by (intro exI [of _ m'] exI [of _ k'] exI [of _ t']) (simp add: Some)
    qed
  qed
qed simp


lemma erase_color_ok:
  assumes "holds m (plug k t)" "path_ok (Suc n) k"
    and "if root_color t = Red then rb_height (Suc n) (paint Black t) else rb_height n t" and "length k + 1 < N"
  shows "\<exists>m' t'. rb_erase_color N (addr t) (top_addr k) m = Inr m' \<and> turns m (plug k t) m' t' \<and> rb_ok t' \<and> keys t' = keys (plug k t)
    \<and> (\<forall>P x q. hereditary P \<longrightarrow> keeps P x q k t \<longrightarrow> kept P x q t')"
proof -
  obtain m1 k1 t1 where l: "erase_color_loop N (addr t) (top_addr k) m = Inr (addr t1, m1)" "turns m (plug k t) m1 (plug k1 t1)"
    "keys (plug k1 t1) = keys (plug k t)" "rb_ok (plug k1 (paint Black t1))"
    "\<forall>P x q. hereditary P \<longrightarrow> keeps P x q k t \<longrightarrow> kept P x q (plug k1 (paint Black t1))"
    using erase_loop [OF assms(1-3), of N] assms(4) by (cases "root_color t = Red") auto
  show ?thesis
  proof (cases "t1 = Leaf")
    case True
    then show ?thesis
      using l by (intro exI [of _ m1] exI [of _ "plug k1 t1"]) (simp add: rb_erase_color_def)
  next
    case False
    note t1 = tree_mk [OF this, of L]
    have p: "paint Black t1 = mk L (near L t1) (addr t1, Black) (near (other L) t1)"
      by (subst t1) simp
    have "addr t1 \<noteq> 0"
      using turns_holds [OF l(2)] False by (simp add: holds_def wf_plug)
    moreover obtain m2 where "upd (addr t1) rb_set_black m1 = Inr m2" "turns m1 (plug k1 t1) m2 (plug k1 (paint Black t1))"
      using recolor [of m1 k1 L "near L t1" "addr t1" "root_color t1" "near (other L) t1" rb_set_black Black] turns_holds [OF l(2)]
      unfolding p t1 [symmetric] by (auto simp: cell_color)
    ultimately show ?thesis
      using l turns_trans [OF l(2)]
      by (intro exI [of _ m2] exI [of _ "plug k1 (paint Black t1)"]) (simp add: rb_erase_color_def keys_plug)
  qed
qed

section \<open>Splicing on trees\<close>

text \<open>A part of a path, with the address above it.\<close>

definition top_of :: "u64 \<Rightarrow> frame list \<Rightarrow> u64" where
  "top_of par k = (if k = [] then par else top_addr k)"

fun rep_seg :: "(u64 \<Rightarrow> rb_node option) \<Rightarrow> u64 \<Rightarrow> u64 \<Rightarrow> frame list \<Rightarrow> bool" where
  "rep_seg M par x [] \<longleftrightarrow> True"
| "rep_seg M par x ((s, a, c, u) # k) \<longleftrightarrow> M a = Some (cell s (top_of par k) c x (addr u)) \<and> rep M a u \<and> rep_seg M par a k"

lemma top_of_simps [simp]: "top_of par [] = par" "top_of par (f # k) = top_addr (f # k)"
  by (simp_all add: top_of_def)

lemma rep_seg_plug: "rep M par (plug k t) \<longleftrightarrow> rep M (top_of par k) t \<and> rep_seg M par (addr t) k"
  by (induction k t rule: plug.induct) auto

lemma rep_seg_frame: "\<forall>a \<in> path_addrs k. M' a = M a \<Longrightarrow> rep_seg M' par x k = rep_seg M par x k"
  by (induction k arbitrary: x rule: path_addrs.induct) (auto simp: rep_frame [of _ M' M])

lemma seg_hole:
  assumes "rep_seg M par x k" "k \<noteq> []" "wf_path k"
  shows "\<exists>n. M (top_addr k) = Some n \<and> rep_seg (M(top_addr k \<mapsto> set_child (hole_side k) y n)) par y k"
proof -
  obtain s a c u k' where k: "k = (s, a, c, u) # k'"
    using assms(2) by (cases k rule: top_addr.cases) auto
  have "rep_seg (M(a \<mapsto> v)) par a k' = rep_seg M par a k'" for v
    using assms(3) by (intro rep_seg_frame) (auto simp: k)
  then show ?thesis
    using assms by (simp add: k)
qed

lemma bottom_in: "k \<noteq> [] \<Longrightarrow> addr (plug k t) \<in> path_addrs k"
  using addr_in [OF plug_nonleaf, of k Leaf] addr_plug [of k t] by (simp add: addrs_plug)

lemma seg_bottom:
  assumes "rep_seg M par x k" "k \<noteq> []" "wf_path k" "aligned par"
  shows "\<exists>n. M (addr (plug k Leaf)) = Some n \<and> rep_seg (M(addr (plug k Leaf) \<mapsto> rb_set_parent q n)) q x k"
  using assms
proof (induction k arbitrary: x)
  case (Cons f k)
  obtain s a c u where f: "f = (s, a, c, u)"
    by (cases f)
  show ?case
  proof (cases "k = []")
    case True
    have "M a = Some (cell s par c x (addr u))" "rep (M(a \<mapsto> v)) a u" for v
      using Cons.prems True by (simp_all add: f)
    then have "M a = Some (cell s par c x (addr u)) \<and> rep_seg (M(a \<mapsto> rb_set_parent q (cell s par c x (addr u)))) q x [f]"
      using cell_color(7) [OF Cons.prems(4)] by (simp only: f rep_seg.simps fun_upd_same top_of_simps)
    then show ?thesis
      using True by (intro exI [of _ "cell s par c x (addr u)"]) (simp only: f plug.simps mk_simps)
  next
    case False
    let ?b = "addr (plug k Leaf)"
    have b: "addr (plug (f # k) Leaf) = ?b" "?b \<in> path_addrs k"
      using False addr_plug [of k "mk s Leaf (a, c) u"] bottom_in by (simp_all add: f)
    obtain n where n: "M ?b = Some n" "rep_seg (M(?b \<mapsto> rb_set_parent q n)) q a k"
      using Cons.IH [of a, OF _ False _ Cons.prems(4)] Cons.prems(1,3) unfolding f rep_seg.simps wf_path.simps by blast
    have par: "top_of q k = top_of par k"
      using False by (simp add: top_of_def)
    have "?b \<noteq> a" "?b \<notin> addrs u"
      using Cons.prems(3) b(2) by (auto simp: f)
    then have "rep_seg (M(?b \<mapsto> rb_set_parent q n)) q x (f # k)"
      using n(2) Cons.prems(1) by (simp add: f par)
    then show ?thesis
      using n(1) unfolding b(1) by blast
  qed
qed simp

text \<open>The way down one side.\<close>

definition on_side :: "side \<Rightarrow> frame list \<Rightarrow> bool" where
  "on_side s k \<longleftrightarrow> list_all (\<lambda>f. fst f = s) k"

lemma spine: "t \<noteq> Leaf \<Longrightarrow> \<exists>k a c u. t = plug k (mk s Leaf (a, c) u) \<and> on_side s k"
proof (induction "size t" arbitrary: t rule: less_induct)
  case less
  note t = tree_mk [OF less.prems, of s]
  show ?case
  proof (cases "near s t = Leaf")
    case True
    then show ?thesis
      using t by (intro exI [of _ "[]"]) (auto simp: on_side_def)
  next
    case False
    have "size (near s t) < size t"
      by (subst (2) t) (simp add: mk_def split: side.split)
    then obtain k a c u where "near s t = plug k (mk s Leaf (a, c) u)" "on_side s k"
      using less.hyps False by blast
    then have "t = plug (k @ [(s, addr t, root_color t, near (other s) t)]) (mk s Leaf (a, c) u)"
      using t by (simp add: plug_append)
    moreover have "on_side s (k @ [(s, addr t, root_color t, near (other s) t)])"
      using \<open>on_side s k\<close> by (simp add: on_side_def)
    ultimately show ?thesis
      by blast
  qed
qed

lemma walk_spine:
  assumes "rep (cells m) par (plug k (mk s Leaf (a, c) u))" "wf_tree (plug k (mk s Leaf (a, c) u))" "on_side s k" "length k < N"
  shows "rb_walk s N (addr (plug k (mk s Leaf (a, c) u))) m = Inr a"
  using assms
proof (induction k arbitrary: par N rule: rev_induct)
  case Nil
  then show ?case
    by (cases N) (auto simp: node_at_def)
next
  case (snoc f k)
  obtain b d w where f: "f = (s, b, d, w)"
    using snoc.prems(3) by (cases f) (auto simp: on_side_def)
  let ?t = "plug k (mk s Leaf (a, c) u)"
  obtain N' where N: "N = Suc N'"
    using snoc.prems(4) by (cases N) auto
  have t: "wf_tree ?t" "rep (cells m) b ?t" "cells m b = Some (cell s par d (addr ?t) (addr w))"
    using snoc.prems by (auto simp: f plug_append)
  have "?t \<noteq> Leaf"
    using addrs_plug [of k "mk s Leaf (a, c) u"] by (cases ?t) auto
  then show ?case
    using snoc.IH [OF t(2,1), of N'] snoc.prems(3,4) t by (simp add: f N plug_append node_at_def on_side_def)
qed


lemma wf_path_append: "wf_path (k1 @ k2) \<longleftrightarrow> wf_path k1 \<and> wf_path k2 \<and> path_addrs k1 \<inter> path_addrs k2 = {}"
  and path_addrs_append: "path_addrs (k1 @ k2) = path_addrs k1 \<union> path_addrs k2"
proof -
  show *: "path_addrs (k1 @ k2) = path_addrs k1 \<union> path_addrs k2" for k1 k2
    by (induction k1 rule: path_addrs.induct) auto
  show "wf_path (k1 @ k2) \<longleftrightarrow> wf_path k1 \<and> wf_path k2 \<and> path_addrs k1 \<inter> path_addrs k2 = {}"
    by (induction k1 rule: path_addrs.induct) (auto simp: *)
qed

lemma take_right:
  assumes y: "cells m y = Some (cell L (top_of old ky) cy 0 (addr ry))" "rep (cells m) y ry" "rep_seg (cells m) old y ky"
    and old: "cells m old = Some ol" "rb_right ol = addr (plug ky (mk L Leaf (y, cy) ry))" "aligned old"
    and w: "wf_tree (plug ky (mk L Leaf (y, cy) ry))" "old \<notin> addrs (plug ky (mk L Leaf (y, cy) ry))" and left: "on_side L ky"
  shows "\<exists>M q. erase_take_right old y m = Inr (top_of y ky, m\<lparr>cells := M\<rparr>)
    \<and> rep M (top_of y ky) ry \<and> rep_seg M y (addr ry) ky \<and> M y = Some (cell L q cy 0 (addr (plug ky ry)))
    \<and> (\<forall>a. a \<notin> addrs (plug ky (mk L Leaf (y, cy) ry)) \<longrightarrow> M a = cells m a)"
proof (cases "ky = []")
  case True
  have "erase_take_right old y m = Inr (y, m)"
    using y(1) old(3) True by (simp add: erase_take_right_def node_at_def cell_color)
  then show ?thesis
    using y True by (intro exI [of _ "cells m"] exI [of _ old]) simp
next
  case False
  let ?q = "top_addr ky" and ?b = "addr (plug ky Leaf)"
  have ky: "wf_path ky" "wf_tree ry" "y \<noteq> 0" "aligned y" "y \<notin> addrs ry" "y \<notin> path_addrs ky" "addrs ry \<inter> path_addrs ky = {}"
    "old \<notin> path_addrs ky" "old \<noteq> y" "old \<notin> addrs ry"
    using w by (auto simp: wf_plug addrs_plug)
  have q: "?q \<in> path_addrs ky" "aligned ?q" "top_of old ky = ?q" "top_of y ky = ?q" "?q \<noteq> old"
    using False ky(1,8) top_in [OF False] by (auto simp: top_of_def)
  have b: "?b \<in> path_addrs ky" "rb_right ol = ?b" "addr (plug ky ry) = ?b"
    using False bottom_in [OF False] old(2) addr_plug [of ky "mk L Leaf (y, cy) ry"] addr_plug [of ky ry] by simp_all
  have side: "hole_side ky = L"
    using left False by (cases ky rule: top_addr.cases) (auto simp: on_side_def)
  obtain M2 where M2: "(if addr ry \<noteq> 0 then upd (addr ry) (rb_set_parent ?q) m else Inr m) = Inr (m\<lparr>cells := M2\<rparr>)"
    "rep M2 ?q ry" "\<forall>a. a \<notin> addrs ry \<longrightarrow> M2 a = cells m a"
    using reparent_effect [OF y(2) ky(2,4), of ?q] by blast
  have "\<forall>a \<in> path_addrs ky. M2 a = cells m a"
    using M2(3) ky(7) by blast
  then have "rep_seg M2 old y ky"
    using y(3) rep_seg_frame by blast
  then obtain nq where nq: "M2 ?q = Some nq" "rep_seg (M2(?q \<mapsto> set_child L (addr ry) nq)) old (addr ry) ky"
    using seg_hole [OF _ False ky(1)] unfolding side by blast
  define M3 where "M3 = M2(?q \<mapsto> set_child L (addr ry) nq)"
  have yM: "M3 y = Some (cell L ?q cy 0 (addr ry))" and oldM: "M3 old = Some ol"
    using M2(3) ky q y(1) old(1) by (auto simp: M3_def)
  define M4 where "M4 = M3(y \<mapsto> cell L ?q cy 0 ?b)"
  have "\<forall>a \<in> path_addrs ky. M4 a = M3 a"
    using ky(6) by (auto simp: M4_def)
  then have "rep_seg M4 old (addr ry) ky"
    using nq(2) rep_seg_frame unfolding M3_def by blast
  then obtain nb where nb: "M4 ?b = Some nb" "rep_seg (M4(?b \<mapsto> rb_set_parent y nb)) y (addr ry) ky"
    using seg_bottom [OF _ False ky(1) old(3)] by blast
  define M5 where "M5 = M4(?b \<mapsto> rb_set_parent y nb)"
  have "erase_take_right old y m = bindE (if addr ry \<noteq> 0 then upd (addr ry) (rb_set_parent ?q) m else Inr m) (\<lambda>m.
    bindE (upd ?q (\<lambda>p. p\<lparr>rb_left := addr ry\<rparr>) m) (\<lambda>m. bindE (node_at m old) (\<lambda>ol.
    bindE (upd y (\<lambda>nd. nd\<lparr>rb_right := rb_right ol\<rparr>) m) (\<lambda>m. bindE (upd (rb_right ol) (rb_set_parent y) m) (\<lambda>m. Inr (?q, m))))))"
    using q y(1) by (simp add: erase_take_right_def node_at_def cell_color Let_def cong: if_cong)
  moreover have "upd ?q (\<lambda>p. p\<lparr>rb_left := addr ry\<rparr>) (m\<lparr>cells := M2\<rparr>) = Inr (m\<lparr>cells := M3\<rparr>)"
    using nq(1) by (simp add: upd_eq M3_def set_child_def)
  moreover have "node_at (m\<lparr>cells := M3\<rparr>) old = Inr ol"
    using oldM by simp
  moreover have "upd y (\<lambda>nd. nd\<lparr>rb_right := rb_right ol\<rparr>) (m\<lparr>cells := M3\<rparr>) = Inr (m\<lparr>cells := M4\<rparr>)"
    using yM b(2) by (simp add: upd_eq M4_def cell_sides)
  moreover have "upd (rb_right ol) (rb_set_parent y) (m\<lparr>cells := M4\<rparr>) = Inr (m\<lparr>cells := M5\<rparr>)"
    using nb(1) b(2) by (simp add: upd_eq M5_def)
  ultimately have "erase_take_right old y m = Inr (?q, m\<lparr>cells := M5\<rparr>)"
    by (simp only: M2(1) bindE_simps)
  moreover have "rep M5 ?q ry"
  proof -
    have "\<forall>a \<in> addrs ry. M5 a = M2 a"
      using q(1) b(1) ky(5,7) by (auto simp: M5_def M4_def M3_def)
    then show ?thesis
      using M2(2) rep_frame by blast
  qed
  moreover have "M5 y = Some (cell L ?q cy 0 ?b)"
    using b(1) ky(6) by (auto simp: M5_def M4_def)
  moreover have "\<forall>a. a \<notin> addrs (plug ky (mk L Leaf (y, cy) ry)) \<longrightarrow> M5 a = cells m a"
    using M2(3) q(1) b(1) by (auto simp: M5_def M4_def M3_def addrs_plug)
  ultimately show ?thesis
    using nb(2) q(4) b(3) unfolding M5_def by (intro exI [of _ M5] exI [of _ ?q]) (simp add: M5_def)
qed


text \<open>The memory after the splice, before the repair.\<close>

lemma unlink_effect:
  assumes h: "holds m (plug k (mk s x (z, c) Leaf))"
  shows "\<exists>m'. erase_unlink N (addr x) z m
      = (if c = Black then rb_erase_color N (addr x) (top_addr k) m' else Inr m')
    \<and> holds m' (plug k x) \<and> (\<forall>a. a \<notin> addrs (plug k x) \<longrightarrow> cells m' a = cells m a)"
proof -
  have z: "cells m z = Some (cell s (top_addr k) c (addr x) 0)" "rep (cells m) z x" "rep_path (cells m) z k"
    and w: "z \<noteq> 0" "aligned z" "wf_tree x" "wf_path k" "z \<notin> path_addrs k" "z \<notin> addrs x" "addrs x \<inter> path_addrs k = {}"
    and root: "rb_root m = addr (plug k (mk s x (z, c) Leaf))"
    using h by (auto simp: holds_def rep_plug wf_plug)
  obtain M1 where M1: "(if addr x \<noteq> 0 then upd (addr x) (rb_set_parent (top_addr k)) m else Inr m) = Inr (m\<lparr>cells := M1\<rparr>)"
    "rep M1 (top_addr k) x" "\<forall>a. a \<notin> addrs x \<longrightarrow> M1 a = cells m a"
    using reparent_effect [OF z(2) w(3,2), of "top_addr k"] by blast
  have "\<forall>a \<in> path_addrs k. M1 a = cells m a"
    using M1(3) w(7) by blast
  then have "rep_path (cells (m\<lparr>cells := M1\<rparr>)) z k"
    using z(3) rep_path_frame [of k M1 "cells m" z] by simp
  moreover have "k = [] \<Longrightarrow> rb_root (m\<lparr>cells := M1\<rparr>) = z"
    using root by simp
  ultimately obtain M g where "relink L z (addr x) (top_addr k) (m\<lparr>cells := M1\<rparr>)
      = Inr (m\<lparr>cells := M1, cells := M, rb_root := (if k = [] then addr x else rb_root (m\<lparr>cells := M1\<rparr>))\<rparr>)"
    and M: "rep_path M (addr x) k" "\<forall>a. a \<noteq> g \<longrightarrow> M a = cells (m\<lparr>cells := M1\<rparr>) a" "k \<noteq> [] \<longrightarrow> g \<in> path_addrs k"
      "k = [] \<longrightarrow> M = cells (m\<lparr>cells := M1\<rparr>)"
    using relink_effect [of "m\<lparr>cells := M1\<rparr>" z k L "addr x", OF _ w(4,1,5)] by blast
  then have link: "relink L z (addr x) (top_addr k) (m\<lparr>cells := M1\<rparr>)
      = Inr (m\<lparr>cells := M, rb_root := (if k = [] then addr x else rb_root m)\<rparr>)"
    by simp
  have off: "M a = M1 a" if "a \<notin> path_addrs k" for a
    using M(2-4) that by (cases "k = []") auto
  define m' where "m' = m\<lparr>cells := M, rb_root := (if k = [] then addr x else rb_root m)\<rparr>"
  have "erase_unlink N (addr x) z m = bindE (if addr x \<noteq> 0 then upd (addr x) (rb_set_parent (top_addr k)) m else Inr m) (\<lambda>m.
    bindE (relink L z (addr x) (top_addr k) m) (\<lambda>m. if color_code c = RB_BLACK then rb_erase_color N (addr x) (top_addr k) m else Inr m))"
    using z(1) w(4) by (simp add: erase_unlink_def node_at_def cell_color Let_def cong: if_cong)
  also have "\<dots> = (if c = Black then rb_erase_color N (addr x) (top_addr k) m' else Inr m')"
    unfolding M1(1) bindE_simps link m'_def [symmetric] by (cases c) (simp_all add: RB_RED_def RB_BLACK_def)
  finally have run: "erase_unlink N (addr x) z m = \<dots>" .
  have "\<forall>a \<in> addrs x. M a = M1 a"
    using off w(7) by blast
  then have "rep M (top_addr k) x"
    using M1(2) rep_frame by blast
  then have "holds m' (plug k x)"
    using M(1) w root addr_plug [of k x] addr_plug [of k "mk s x (z, c) Leaf"]
    by (simp add: holds_def m'_def rep_plug wf_plug)
  moreover have "\<forall>a. a \<notin> addrs (plug k x) \<longrightarrow> cells m' a = cells m a"
    using off M1(3) by (simp add: m'_def addrs_plug)
  ultimately show ?thesis
    using run by blast
qed

lemma splice_effect:
  fixes k ky :: "frame list" and l ry :: rbt and y z :: u64 and c cy :: color
  defines "r \<equiv> plug ky (mk L Leaf (y, cy) ry)"
  assumes h: "holds m (plug k (mk L l (z, c) r))" and l: "l \<noteq> Leaf" and left: "on_side L ky" and N: "length ky < N"
  shows "\<exists>m'. erase_splice N z m
      = (if cy = Black then rb_erase_color N (addr ry) (top_addr (ky @ (R, y, c, l) # k)) m' else Inr m')
    \<and> holds m' (plug (ky @ (R, y, c, l) # k) ry)
    \<and> (\<forall>a. a \<notin> addrs (plug (ky @ (R, y, c, l) # k) ry) \<longrightarrow> cells m' a = cells m a)"
proof -
  let ?K = "ky @ (R, y, c, l) # k"
  have z: "cells m z = Some (cell L (top_addr k) c (addr l) (addr r))" "rep (cells m) z l" "rep (cells m) z r" "rep_path (cells m) z k"
    and w: "z \<noteq> 0" "aligned z" "wf_tree l" "wf_tree r" "wf_path k" "z \<notin> path_addrs k" "z \<notin> addrs l" "z \<notin> addrs r"
      "addrs l \<inter> addrs r = {}" "addrs l \<inter> path_addrs k = {}" "addrs r \<inter> path_addrs k = {}"
    and root: "rb_root m = addr (plug k (mk L l (z, c) r))"
    using h by (auto simp: holds_def rep_plug wf_plug)
  have ar: "addrs r = insert y (addrs ry \<union> path_addrs ky)"
    by (auto simp: r_def addrs_plug)
  have walk: "rb_walk L N (addr r) m = Inr y"
    using walk_spine [of m z ky L y cy ry N] z(3) w(4) left N unfolding r_def by blast
  obtain M1 g where link: "relink L z y (top_addr k) m = Inr (m\<lparr>cells := M1, rb_root := (if k = [] then y else rb_root m)\<rparr>)"
    and M1: "rep_path M1 y k" "\<forall>a. a \<noteq> g \<longrightarrow> M1 a = cells m a" "k \<noteq> [] \<longrightarrow> g \<in> path_addrs k" "k = [] \<longrightarrow> M1 = cells m"
    using relink_effect [OF z(4) w(5,1,6), of L y] root by auto
  define m1 where "m1 = m\<lparr>cells := M1, rb_root := (if k = [] then y else rb_root m)\<rparr>"
  have off1: "cells m1 a = cells m a" if "a \<notin> path_addrs k" for a
    using M1(2-4) that by (cases "k = []") (auto simp: m1_def)
  have "rep (cells m1) z r" "rep (cells m1) z l" and z1: "cells m1 z = Some (cell L (top_addr k) c (addr l) (addr r))"
    using z w off1 rep_frame [of r "cells m1" "cells m" z] rep_frame [of l "cells m1" "cells m" z] by (auto simp: disjoint_iff)
  then have y: "cells m1 y = Some (cell L (top_of z ky) cy 0 (addr ry))" "rep (cells m1) y ry" "rep_seg (cells m1) z y ky" and l1: "rep (cells m1) z l"
    by (simp_all add: r_def rep_seg_plug)
  have "rb_right (cell L (top_addr k) c (addr l) (addr r)) = addr (plug ky (mk L Leaf (y, cy) ry))"
    by (simp add: r_def)
  from take_right [OF y z1 this w(2) w(4,8) [unfolded r_def] left]
  obtain M2 q where right: "erase_take_right z y m1 = Inr (top_of y ky, m1\<lparr>cells := M2\<rparr>)"
    and M2: "rep M2 (top_of y ky) ry" "rep_seg M2 y (addr ry) ky" "M2 y = Some (cell L q cy 0 (addr (plug ky ry)))"
      "\<forall>a. a \<notin> addrs r \<longrightarrow> M2 a = cells m1 a"
    unfolding r_def by blast
  define M3 where "M3 = M2(y \<mapsto> cell R (top_addr k) c (addr (plug ky ry)) (addr l))"
  have yl: "y \<notin> addrs l" "y \<notin> path_addrs k" "y \<noteq> 0" "aligned y" "y \<notin> addrs ry" "y \<notin> path_addrs ky" "z \<noteq> y"
    using w ar by (auto simp: r_def wf_plug addrs_plug)
  have "\<forall>a \<in> addrs l. M3 a = cells m1 a"
    using yl(1) M2(4) w(9) by (auto simp: M3_def disjoint_iff)
  then have "rep (cells (m1\<lparr>cells := M3\<rparr>)) z l"
    using l1 rep_frame [of l M3 "cells m1"] by simp
  from reparent_effect [OF this w(3,2), of y] l w(3)
  obtain M4 where M4: "upd (addr l) (rb_set_parent y) (m1\<lparr>cells := M3\<rparr>) = Inr (m1\<lparr>cells := M4\<rparr>)" "rep M4 y l"
    "\<forall>a. a \<notin> addrs l \<longrightarrow> M4 a = M3 a"
    by auto
  have oldz: "M2 z = Some (cell L (top_addr k) c (addr l) (addr r))"
    using M2(4) w(8) z1 by simp
  have place: "erase_take_place z y (m1\<lparr>cells := M2\<rparr>) = Inr (m1\<lparr>cells := M4\<rparr>)"
    using oldz M2(3) M4(1) by (simp add: erase_take_place_def node_at_def upd_eq cell_def M3_def)
  have top: "top_addr ?K = top_of y ky"
    by (cases ky rule: top_addr.cases) simp_all
  define m' where "m' = m1\<lparr>cells := M4\<rparr>"
  have run: "erase_splice N z m = (if cy = Black then rb_erase_color N (addr ry) (top_addr ?K) m' else Inr m')"
  proof -
    have "aligned (top_of z ky)"
      using w by (auto simp: top_of_def r_def wf_plug)
    then have "erase_splice N z m = (if color_code cy = RB_BLACK then rb_erase_color N (addr ry) (top_of y ky) m' else Inr m')"
      using z(1) w(5) walk link [folded m1_def] y(1) right place
      by (simp add: erase_splice_def node_at_def cell_color m'_def Let_def cong: if_cong)
    then show ?thesis
      unfolding top by (cases cy) (simp_all add: RB_RED_def RB_BLACK_def)
  qed
  have off: "M4 a = M2 a" if "a \<notin> addrs l" "a \<noteq> y" for a
    using that M4(3) by (simp add: M3_def)
  have off2: "M4 a = cells m1 a" if "a \<notin> addrs l" "a \<notin> addrs r" for a
    using that off [of a] M2(4) ar by auto
  have "rep M4 (top_of y ky) ry" "rep_seg M4 y (addr ry) ky" "rep_path M4 y k"
  proof -
    have "\<forall>a \<in> addrs ry. M4 a = M2 a" "\<forall>a \<in> path_addrs ky. M4 a = M2 a"
      using off yl w(9) ar by (auto simp: disjoint_iff)
    moreover have "\<forall>a \<in> path_addrs k. M4 a = M1 a"
    proof
      fix a
      assume "a \<in> path_addrs k"
      then have "a \<notin> addrs l" "a \<notin> addrs r"
        using w(10,11) by auto
      then show "M4 a = M1 a"
        using off2 by (simp add: m1_def)
    qed
    ultimately show "rep M4 (top_of y ky) ry" "rep_seg M4 y (addr ry) ky" "rep_path M4 y k"
      using M2(1,2) M1(1) rep_frame rep_seg_frame rep_path_frame by blast+
  qed
  moreover have "M4 y = Some (cell R (top_addr k) c (addr (plug ky ry)) (addr l))"
    using M4(3) yl(1) by (simp add: M3_def)
  ultimately have "rep M4 0 (plug ?K ry)"
    using M4(2) unfolding plug_append plug.simps rep_plug by (simp add: rep_seg_plug)
  moreover have "wf_tree (plug ?K ry)"
    using w yl ar by (auto simp: wf_plug wf_path_append path_addrs_append r_def)
  moreover have "rb_root m' = addr (plug ?K ry)"
    using root addr_plug [of k "mk L l (z, c) r"] addr_plug [of k "mk R (plug ky ry) (y, c) l"]
    by (simp add: m'_def m1_def plug_append)
  moreover have "\<forall>a. a \<notin> addrs (plug ?K ry) \<longrightarrow> M4 a = cells m a"
    using off2 off1 ar by (simp add: addrs_plug path_addrs_append)
  ultimately show ?thesis
    using run by (intro exI [of _ m']) (simp add: holds_def m'_def)
qed


section \<open>Removal\<close>

text \<open>After a black node left its place to the subtree \<open>x\<close>, the repair restores the invariant.\<close>

lemma repair:
  assumes h: "holds m (plug k x)" and ok: "path_ok n k" "rb_height n (mk s x (z, c) Leaf)" and black: "c = Red \<longrightarrow> k \<noteq> [] \<and> \<not> red_top k"
    and N: "length k + 1 < N"
  shows "\<exists>m' t'. (if c = Black then rb_erase_color N (addr x) (top_addr k) m else Inr m) = Inr m' \<and> turns m (plug k x) m' t'
    \<and> rb_ok t' \<and> keys t' = keys (plug k x) \<and> (\<forall>P. hereditary P \<longrightarrow> path_all P k \<longrightarrow> kept P x (top_addr k) t')"
proof (cases c)
  case Red
  then have "rb_ok (plug k x)"
    using ok unfolding plug_ok by (intro exI [of _ n]) auto
  then show ?thesis
    using Red turns_refl [OF h] keeps_kept [OF _ keeps_start] by auto
next
  case Black
  then have n: "n = Suc 0" "rb_height 0 x"
    using ok(2) by (cases n; auto)+
  then have "if root_color x = Red then rb_height (Suc 0) (paint Black x) else rb_height 0 x"
    using height_paint [of 0 x] by simp
  from erase_color_ok [OF h ok(1) [unfolded n(1)] this N] show ?thesis
    using Black keeps_start by (elim exE conjE) (intro exI conjI, assumption | simp)+
qed

lemma before_left: "on_side L k \<Longrightarrow> before k = []"
  by (induction k rule: before.induct) (auto simp: on_side_def)

lemma path_ok_readdress: "path_ok n (k1 @ (s, z, c, u) # k2) = path_ok n (k1 @ (s, y, c, u) # k2)"
  "red_top (k1 @ (s, z, c, u) # k2) = red_top (k1 @ (s, y, c, u) # k2)"
proof -
  have top: "red_top (k1 @ (s, z, c, u) # k2) = red_top (k1 @ (s, y, c, u) # k2)" for k1
    by (cases k1 rule: red_top.cases; cases c) auto
  show "red_top (k1 @ (s, z, c, u) # k2) = red_top (k1 @ (s, y, c, u) # k2)"
    by (rule top)
  show "path_ok n (k1 @ (s, z, c, u) # k2) = path_ok n (k1 @ (s, y, c, u) # k2)"
  proof (induction k1 arbitrary: n)
    case Nil
    then show ?case
      by (cases c) simp_all
  next
    case (Cons f k1)
    obtain s' a c' u' where "f = (s', a, c', u')"
      by (cases f)
    then show ?case
      using Cons.IH top by (cases c') simp_all
  qed
qed

text \<open>A node with at most one child, and one whose successor takes its place.\<close>

lemma rb_erase_one:
  assumes h: "holds m (plug k (mk s x (z, c) Leaf))" and ok: "rb_ok (plug k (mk s x (z, c) Leaf))" and N: "131 \<le> N"
    and run: "rb_erase N z m = erase_unlink N (addr x) z m"
  shows "\<exists>m' t'. rb_erase N z m = Inr m' \<and> holds m' t' \<and> rb_ok t' \<and> keys t' = before k @ keys x @ after k
    \<and> (\<forall>a. a \<notin> addrs t' \<longrightarrow> cells m' a = cells m a)
    \<and> (\<forall>P. hereditary P \<longrightarrow> path_all P k \<longrightarrow> kept P x (top_addr k) t')"
proof -
  obtain m1 where m1: "rb_erase N z m = (if c = Black then rb_erase_color N (addr x) (top_addr k) m1 else Inr m1)"
    "holds m1 (plug k x)" "\<forall>a. a \<notin> addrs (plug k x) \<longrightarrow> cells m1 a = cells m a"
    using unlink_effect [of m k s x z c N] h unfolding run by blast
  obtain n where n: "rb_height n (mk s x (z, c) Leaf)" "path_ok n k" "c = Red \<longrightarrow> k \<noteq> [] \<and> \<not> red_top k"
    using ok unfolding plug_ok by auto
  have "length k + 1 < N"
    using path_short [of k "mk s x (z, c) Leaf"] h ok N by (simp add: holds_def)
  then obtain m' t' where "rb_erase N z m = Inr m'" "turns m1 (plug k x) m' t'" "rb_ok t'" "keys t' = keys (plug k x)"
    "\<forall>P. hereditary P \<longrightarrow> path_all P k \<longrightarrow> kept P x (top_addr k) t'"
    using repair [OF m1(2) n(2,1,3)] unfolding m1(1) by blast
  then show ?thesis
    using m1(3) by (intro exI [of _ m'] exI [of _ t']) (auto simp: turns_def keys_plug)
qed

lemma rb_erase_two:
  assumes h: "holds m (plug k (mk L l (z, c) r))" and ok: "rb_ok (plug k (mk L l (z, c) r))" and N: "131 \<le> N"
    and l: "l \<noteq> Leaf" and r: "r = plug ky (mk L Leaf (y, cy) ry)" "on_side L ky"
  shows "\<exists>m' t'. rb_erase N z m = Inr m' \<and> holds m' t' \<and> rb_ok t' \<and> keys t' = before k @ keys l @ keys r @ after k
    \<and> (\<forall>a. a \<notin> addrs t' \<longrightarrow> cells m' a = cells m a)
    \<and> (\<forall>P. hereditary P \<longrightarrow> path_all P (ky @ (R, y, c, l) # k) \<longrightarrow> kept P ry (top_addr (ky @ (R, y, c, l) # k)) t')"
proof -
  let ?kz = "ky @ (R, z, c, l) # k" and ?k = "ky @ (R, y, c, l) # k"
  have ne: "r \<noteq> Leaf"
    unfolding r(1) by (cases ky) (simp_all add: plug_nonleaf)
  have w: "wf_tree (plug k (mk L l (z, c) r))"
    using h by (simp add: holds_def)
  then have "addr l \<noteq> 0" "addr r \<noteq> 0"
    using l ne by (simp_all add: wf_plug)
  then have splice: "rb_erase N z m = erase_splice N z m"
    using holds_node [OF h] by (simp add: rb_erase_def node_at_def)
  have eq: "plug k (mk L l (z, c) r) = plug ?kz (mk R ry (y, cy) Leaf)"
    by (simp add: plug_append r(1) mk_def)
  have len: "length ?kz \<le> 128"
    using path_short w ok unfolding eq by blast
  obtain n where n: "rb_height n (mk R ry (y, cy) Leaf)" "path_ok n ?k" "cy = Red \<longrightarrow> ?k \<noteq> [] \<and> \<not> red_top ?k"
    using ok unfolding eq plug_ok path_ok_readdress(1) [of _ ky R z c l k y] path_ok_readdress(2) [of ky R z c l k y]
    by auto
  obtain m1 where m1: "rb_erase N z m = (if cy = Black then rb_erase_color N (addr ry) (top_addr ?k) m1 else Inr m1)"
    "holds m1 (plug ?k ry)" "\<forall>a. a \<notin> addrs (plug ?k ry) \<longrightarrow> cells m1 a = cells m a"
    using splice_effect [of m k l z c ky y cy ry N] h l r len N unfolding splice by auto
  obtain m' t' where *: "rb_erase N z m = Inr m'" "turns m1 (plug ?k ry) m' t'" "rb_ok t'" "keys t' = keys (plug ?k ry)"
    "\<forall>P. hereditary P \<longrightarrow> path_all P ?k \<longrightarrow> kept P ry (top_addr ?k) t'"
    using repair [OF m1(2) n(2,1,3), of N] len N unfolding m1(1) by auto
  have "keys (plug ?k ry) = before k @ keys l @ keys r @ after k"
    using keys_plug [of ky ry] keys_plug [of ky "mk L Leaf (y, cy) ry"]
    by (simp add: plug_append keys_plug keys_mk r(1)) (simp add: before_left r(2) keys_def)
  then show ?thesis
    using * m1(3) by (intro exI [of _ m'] exI [of _ t']) (auto simp: turns_def)
qed

text \<open>What the removal of a node with the children \<open>l\<close> and \<open>r\<close> moves up: the subtree \<open>x\<close>, whose
  parent afterwards is \<open>q\<close>.\<close>

definition moves_up :: "frame list \<Rightarrow> rbt \<Rightarrow> rbt \<Rightarrow> rbt \<Rightarrow> u64 \<Rightarrow> bool" where
  "moves_up k l r x q \<longleftrightarrow> l = Leaf \<and> x = r \<and> q = top_addr k \<or> l \<noteq> Leaf \<and> r = Leaf \<and> x = l \<and> q = top_addr k
     \<or> l \<noteq> Leaf \<and> (\<exists>ky y cy. r = plug ky (mk L Leaf (y, cy) x) \<and> on_side L ky \<and> q = top_of y ky)"

lemma rb_erase_tree:
  assumes h: "holds m (plug k (mk L l (z, c) r))" and ok: "rb_ok (plug k (mk L l (z, c) r))" and N: "131 \<le> N"
  shows "\<exists>m' t' x q. rb_erase N z m = Inr m' \<and> holds m' t' \<and> rb_ok t' \<and> keys t' = before k @ keys l @ keys r @ after k
    \<and> (\<forall>a. a \<notin> addrs t' \<longrightarrow> cells m' a = cells m a) \<and> moves_up k l r x q
    \<and> (\<forall>P. hereditary P \<longrightarrow> P (plug k (mk L l (z, c) r)) \<longrightarrow> P x \<and> kept P x q t')"
proof -
  note node = holds_node [OF h]
  have parts: "path_all P k \<and> P l \<and> P r" if "hereditary P" "P (plug k (mk L l (z, c) r))" for P
    using plug_all [OF that] hereditaryD(1,2) [OF that(1)] by blast
  consider "l = Leaf" | "l \<noteq> Leaf" "r = Leaf" | "l \<noteq> Leaf" "r \<noteq> Leaf"
    by blast
  then show ?thesis
  proof cases
    case 1
    then have eq: "mk L l (z, c) r = mk R r (z, c) Leaf"
      by (simp add: mk_def)
    have run: "rb_erase N z m = erase_unlink N (addr r) z m" and "keys l = []"
      using node 1 by (simp_all add: rb_erase_def node_at_def keys_def)
    moreover obtain m' t' where "rb_erase N z m = Inr m'" "holds m' t'" "rb_ok t'" "keys t' = before k @ keys r @ after k"
      "\<forall>a. a \<notin> addrs t' \<longrightarrow> cells m' a = cells m a" "\<forall>P. hereditary P \<longrightarrow> path_all P k \<longrightarrow> kept P r (top_addr k) t'"
      using rb_erase_one [OF h [unfolded eq] ok [unfolded eq] N run] by blast
    moreover have "moves_up k l r r (top_addr k)"
      using 1 unfolding moves_up_def by blast
    ultimately show ?thesis
      using parts by (metis append_Nil)
  next
    case 2
    then have run: "rb_erase N z m = erase_unlink N (addr l) z m" and "keys r = []"
      using node by (simp_all add: rb_erase_def node_at_def keys_def)
    moreover obtain m' t' where "rb_erase N z m = Inr m'" "holds m' t'" "rb_ok t'" "keys t' = before k @ keys l @ after k"
      "\<forall>a. a \<notin> addrs t' \<longrightarrow> cells m' a = cells m a" "\<forall>P. hereditary P \<longrightarrow> path_all P k \<longrightarrow> kept P l (top_addr k) t'"
      using rb_erase_one [OF _ _ N run] h ok unfolding 2(2) by blast
    moreover have "moves_up k l r l (top_addr k)"
      using 2 unfolding moves_up_def by blast
    ultimately show ?thesis
      using parts by (metis append_Nil)
  next
    case 3
    obtain ky y cy ry where r: "r = plug ky (mk L Leaf (y, cy) ry)" "on_side L ky"
      using spine [of r L] 3 by blast
    have "path_all P (ky @ (R, y, c, l) # k) \<and> P ry" if P: "hereditary P" "P (plug k (mk L l (z, c) r))" for P
      using parts [OF P] plug_all [OF P(1), of ky "mk L Leaf (y, cy) ry"] hereditaryD(2) [OF P(1)] r(1) by auto
    moreover have top: "top_addr (ky @ (R, y, c, l) # k) = top_of y ky"
      by (cases ky rule: top_addr.cases) simp_all
    moreover obtain m' t' where "rb_erase N z m = Inr m'" "holds m' t'" "rb_ok t'"
      "keys t' = before k @ keys l @ keys r @ after k" "\<forall>a. a \<notin> addrs t' \<longrightarrow> cells m' a = cells m a"
      "\<forall>P. hereditary P \<longrightarrow> path_all P (ky @ (R, y, c, l) # k) \<longrightarrow> kept P ry (top_of y ky) t'"
      using rb_erase_two [OF h ok N 3(1) r] unfolding top by blast
    moreover have "moves_up k l r ry (top_of y ky)"
      using 3(1) r unfolding moves_up_def by blast
    ultimately show ?thesis
      by blast
  qed
qed

text \<open>
  C11: Removing a node from a red-black tree. The memory holds a red-black tree with the node
  \<open>z\<close> in it, at any place (the path \<open>k\<close>, any subtrees). \<open>rb_erase\<close> ends, whatever the size of
  the tree, with fuel 131, dereferences no \<open>NULL\<close>, and leaves a red-black tree with exactly
  the other nodes, in their old order; cells outside that tree are as before, the removed
  one included.
\<close>
theorem rb_erase_correct:
  assumes h: "holds m (plug k (mk L l (z, c) r))" and ok: "rb_ok (plug k (mk L l (z, c) r))" and N: "131 \<le> N"
  shows "\<exists>m' t'. rb_erase N z m = Inr m' \<and> holds m' t' \<and> rb_ok t' \<and> keys t' = before k @ keys l @ keys r @ after k
    \<and> (\<forall>a. a \<notin> addrs t' \<longrightarrow> cells m' a = cells m a)"
  using rb_erase_tree [OF assms] by blast

text \<open>A concrete memory: the black root 16 with the red children 8 and 24; the root is removed.\<close>

definition rb_sample_full :: rb_mem where
  "rb_sample_full = \<lparr>cells = [16 \<mapsto> \<lparr>rb_parent_color = 1, rb_right = 24, rb_left = 8\<rparr>,
     8 \<mapsto> \<lparr>rb_parent_color = 16, rb_right = 0, rb_left = 0\<rparr>, 24 \<mapsto> \<lparr>rb_parent_color = 16, rb_right = 0, rb_left = 0\<rparr>],
     rb_root = 16\<rparr>"

lemma rb_sample_full_holds:
  "holds rb_sample_full (plug [] (mk L (Node Leaf (8, Red) Leaf) (16, Black) (Node Leaf (24, Red) Leaf)))"
  by (simp add: holds_def rb_sample_full_def cell_def mk_def aligned_def RB_RED_def RB_BLACK_def)

lemma rb_erase_correct_witness:
  "\<exists>m' t'. rb_erase 131 16 rb_sample_full = Inr m' \<and> holds m' t' \<and> rb_ok t' \<and> keys t' = [8, 24]"
proof -
  have "rb_ok (plug [] (mk L (Node Leaf (8, Red) Leaf) (16, Black) (Node Leaf (24, Red) Leaf)))"
    by (simp add: mk_def rb_ok_def)
  moreover have "keys (Node Leaf (8, Red) Leaf) = [8]" "keys (Node Leaf (24, Red) Leaf) = [24]"
    by (simp_all add: keys_def)
  ultimately show ?thesis
    using rb_erase_correct [OF rb_sample_full_holds, of 131] by auto
qed

end
