(* ===== verification/Rb_iter.thy ===== *)
theory Rb_iter
  imports Rb_erase
begin

text \<open>
  The rest of \<open>src/rb_tree.c\<close>: walking a tree in order (\<open>rb_first\<close>, \<open>rb_last\<close>, \<open>rb_next\<close>, \<open>rb_prev\<close>),
  \<open>rb_replace_node\<close>, and the callbacks of augmented trees. The user's callback is an argument:
  a function on the state that it works on, called with the address of a node.
\<close>

section \<open>Walking\<close>

definition rb_first :: "nat \<Rightarrow> rb_mem \<Rightarrow> u64 outcome" where
  "rb_first n m = (if rb_root m = 0 then Inr 0 else rb_walk L n (rb_root m) m)"

definition rb_last :: "nat \<Rightarrow> rb_mem \<Rightarrow> u64 outcome" where
  "rb_last n m = (if rb_root m = 0 then Inr 0 else rb_walk R n (rb_root m) m)"

text \<open>Up while \<open>node\<close> is the child on side \<open>s\<close>; the result is \<open>parent\<close>.\<close>

fun rb_climb :: "side \<Rightarrow> nat \<Rightarrow> u64 \<Rightarrow> rb_mem \<Rightarrow> u64 outcome" where
  "rb_climb s 0 node m = Inl Blocked"
| "rb_climb s (Suc n) node m =
     bindE (node_at m node) (\<lambda>nd. let parent = rb_parent nd in
       if parent = 0 then Inr 0
       else bindE (node_at m parent) (\<lambda>p. if node = child s p then rb_climb s n parent m else Inr parent))"

definition rb_neighbour :: "side \<Rightarrow> nat \<Rightarrow> u64 \<Rightarrow> rb_mem \<Rightarrow> u64 outcome" where
  "rb_neighbour s n node m =
     bindE (node_at m node) (\<lambda>nd.
       if rb_parent nd = node then Inr 0
       else if child s nd \<noteq> 0 then rb_walk (other s) n (child s nd) m
       else rb_climb s n node m)"

definition rb_next :: "nat \<Rightarrow> u64 \<Rightarrow> rb_mem \<Rightarrow> u64 outcome" where
  "rb_next = rb_neighbour R"

definition rb_prev :: "nat \<Rightarrow> u64 \<Rightarrow> rb_mem \<Rightarrow> u64 outcome" where
  "rb_prev = rb_neighbour L"

section \<open>Replacing a node\<close>

definition rb_replace_node :: "u64 \<Rightarrow> u64 \<Rightarrow> rb_mem \<Rightarrow> rb_mem outcome" where
  "rb_replace_node victim new m =
     bindE (node_at m victim) (\<lambda>v.
     bindE (relink L victim new (rb_parent v) m) (\<lambda>m.
     bindE (node_at m victim) (\<lambda>v.
     bindE (if rb_left v \<noteq> 0 then upd (rb_left v) (rb_set_parent new) m else Inr m) (\<lambda>m.
     bindE (node_at m victim) (\<lambda>v.
     bindE (if rb_right v \<noteq> 0 then upd (rb_right v) (rb_set_parent new) m else Inr m) (\<lambda>m.
     bindE (node_at m victim) (\<lambda>v. upd new (\<lambda>_. v) m)))))))"

section \<open>Augmented trees\<close>

fun rb_augment_path :: "(u64 \<Rightarrow> 'd \<Rightarrow> 'd) \<Rightarrow> nat \<Rightarrow> u64 \<Rightarrow> rb_mem \<Rightarrow> 'd \<Rightarrow> 'd outcome" where
  "rb_augment_path func 0 node m d = Inl Blocked"
| "rb_augment_path func (Suc n) node m d =
     (let d = func node d in
      bindE (node_at m node) (\<lambda>nd. let parent = rb_parent nd in
        if parent = 0 then Inr d
        else bindE (node_at m parent) (\<lambda>p.
          let d = (if node = rb_left p \<and> rb_right p \<noteq> 0 then func (rb_right p) d
                   else if rb_left p \<noteq> 0 then func (rb_left p) d else d)
          in rb_augment_path func n parent m d)))"

definition rb_augment_insert :: "(u64 \<Rightarrow> 'd \<Rightarrow> 'd) \<Rightarrow> nat \<Rightarrow> u64 \<Rightarrow> rb_mem \<Rightarrow> 'd \<Rightarrow> 'd outcome" where
  "rb_augment_insert func n node m d =
     bindE (node_at m node) (\<lambda>nd.
       let node = (if rb_left nd \<noteq> 0 then rb_left nd else if rb_right nd \<noteq> 0 then rb_right nd else node)
       in rb_augment_path func n node m d)"

definition rb_augment_erase_begin :: "nat \<Rightarrow> u64 \<Rightarrow> rb_mem \<Rightarrow> u64 outcome" where
  "rb_augment_erase_begin n node m =
     bindE (node_at m node) (\<lambda>nd.
       if rb_right nd = 0 \<and> rb_left nd = 0 then Inr (rb_parent nd)
       else if rb_right nd = 0 then Inr (rb_left nd)
       else if rb_left nd = 0 then Inr (rb_right nd)
       else bindE (rb_next n node m) (\<lambda>deepest.
         bindE (node_at m deepest) (\<lambda>d.
           if rb_right d \<noteq> 0 then Inr (rb_right d)
           else if rb_parent d \<noteq> node then Inr (rb_parent d)
           else Inr deepest)))"

definition rb_augment_erase_end :: "(u64 \<Rightarrow> 'd \<Rightarrow> 'd) \<Rightarrow> nat \<Rightarrow> u64 \<Rightarrow> rb_mem \<Rightarrow> 'd \<Rightarrow> 'd outcome" where
  "rb_augment_erase_end func n node m d = (if node \<noteq> 0 then rb_augment_path func n node m d else Inr d)"

section \<open>In-order walks\<close>

text \<open>The end of the tree on side \<open>s\<close>, and the first node outside the hole on side \<open>s\<close>.\<close>

definition end_of :: "side \<Rightarrow> u64 list \<Rightarrow> u64" where
  "end_of s xs = (if xs = [] then 0 else case s of L \<Rightarrow> hd xs | R \<Rightarrow> last xs)"

definition beyond :: "side \<Rightarrow> frame list \<Rightarrow> u64 list" where
  "beyond s k = (case s of R \<Rightarrow> after k | L \<Rightarrow> before k)"

lemma beyond_simps [simp]:
  "beyond s [] = []"
  "end_of (other s) (beyond s ((s, a, c, u) # k)) = end_of (other s) (beyond s k)"
  "end_of (other s) (beyond s ((other s, a, c, u) # k)) = a"
  by (cases s; simp add: beyond_def end_of_def)+

lemma side_eq: "s' = s \<or> s' = other s"
  by (cases s; cases s') simp_all

lemma keys_spine: "on_side s k \<Longrightarrow> end_of s (keys (plug k (mk s Leaf (a, c) u))) = a"
proof (induction k rule: rev_induct)
  case Nil
  then show ?case
    by (cases s) (simp_all add: end_of_def keys_mk)
next
  case (snoc f k)
  obtain b d w where f: "f = (s, b, d, w)"
    using snoc.prems by (cases f) (auto simp: on_side_def)
  have ne: "keys (plug k (mk s Leaf (a, c) u)) \<noteq> []"
    using keys_mk [of s Leaf a c u] by (cases s) (simp_all add: keys_plug)
  show ?case
    using snoc ne by (cases s) (simp_all add: f plug_append keys_mk end_of_def on_side_def)
qed

lemma walk_end:
  assumes "rep (cells m) par t" "wf_tree t" "t \<noteq> Leaf" "\<And>k u. t = plug k u \<Longrightarrow> length k < N"
  shows "rb_walk s N (addr t) m = Inr (end_of s (keys t))"
proof -
  obtain k a c u where t: "t = plug k (mk s Leaf (a, c) u)" "on_side s k"
    using spine [OF assms(3)] by blast
  then show ?thesis
    using walk_spine [of m par k s a c u N] assms keys_spine [OF t(2)] by auto
qed

lemma climb_path:
  assumes "holds m (plug k t)" "t \<noteq> Leaf" "length k < N"
  shows "rb_climb s N (addr t) m = Inr (end_of (other s) (beyond s k))"
  using assms
proof (induction k arbitrary: t N)
  case Nil
  obtain N' where "N = Suc N'"
    using Nil(3) by (cases N) auto
  then show ?case
    using Nil holds_node [of m "[]" L "near L t" "addr t" "root_color t" "near (other L) t"] tree_mk [OF Nil(2), of L]
    by (simp add: node_at_def cell_color end_of_def)
next
  case (Cons f k)
  obtain s1 p c u where f: "f = (s1, p, c, u)"
    by (cases f)
  obtain N' where N: "N = Suc N'" "length k < N'"
    using Cons(4) by (cases N) auto
  have h: "holds m (plug k (mk s1 t (p, c) u))"
    using Cons.prems(1) by (simp add: f)
  have n: "cells m (addr t) = Some (cell L p (root_color t) (addr (near L t)) (addr (near (other L) t)))" "aligned p"
    using holds_node [of m "f # k" L "near L t" "addr t" "root_color t" "near (other L) t"] Cons.prems(1) tree_mk [OF Cons.prems(2), of L]
    by (simp_all add: f)
  have ne: "addr t \<noteq> addr u"
  proof -
    have "addrs t \<inter> addrs u = {}" "wf_tree t" "wf_tree u"
      using h by (auto simp: holds_def wf_plug)
    then show ?thesis
      using Cons.prems(2) by (cases "u = Leaf") (simp, metis addr_in disjoint_iff)
  qed
  show ?case
  proof (cases "s1 = s")
    case True
    then show ?thesis
      using n holds_node [OF h] Cons.IH [OF h _ N(2)] by (simp add: N node_at_def cell_color f)
  next
    case False
    then have "s1 = other s"
      using side_eq by blast
    then show ?thesis
      using n holds_node [OF h] ne by (simp add: N node_at_def cell_color cell_other f)
  qed
qed


lemma neighbour_eq:
  assumes h: "holds m (plug k (mk s x (a, c) y))" and ok: "rb_ok (plug k (mk s x (a, c) y))" and N: "129 \<le> N"
  shows "rb_neighbour s N a m
    = Inr (if x = Leaf then end_of (other s) (beyond s k) else end_of (other s) (keys x))"
proof -
  have w: "wf_tree (plug k (mk s x (a, c) y))"
    using h by (simp add: holds_def)
  have not_self: "top_addr k \<noteq> a"
    using w top_in [of k] by (cases "k = []") (auto simp: wf_plug)
  have len: "length k < N"
    using path_short [OF w ok] N by simp
  show ?thesis
  proof (cases "x = Leaf")
    case True
    have "mk s x (a, c) y \<noteq> Leaf" "addr (mk s x (a, c) y) = a"
      by (cases s; simp add: mk_def)+
    then show ?thesis
      using climb_path [OF h _ len, of s] holds_node [OF h] not_self True
      by (simp add: rb_neighbour_def node_at_def cell_color)
  next
    case False
    have "rb_walk (other s) N (addr x) m = Inr (end_of (other s) (keys x))"
    proof (rule walk_end)
      show "rep (cells m) a x" "wf_tree x"
        using h w by (simp_all add: holds_def rep_plug wf_plug)
      fix k' u
      assume "x = plug k' u"
      then have "plug k (mk s x (a, c) y) = plug (k' @ (s, a, c, y) # k) u"
        by (simp add: plug_append)
      then show "length k' < N"
        using path_short [of "k' @ (s, a, c, y) # k" u] w ok N by simp
    qed fact
    moreover have "addr x \<noteq> 0"
      using w False by (simp add: wf_plug)
    ultimately show ?thesis
      using holds_node [OF h] not_self False by (simp add: rb_neighbour_def node_at_def cell_color)
  qed
qed

lemma before_append: "before (k1 @ k2) = before k2 @ before k1"
  by (induction k1 rule: before.induct) simp_all

lemma keys_focus:
  assumes "i < length (keys t)"
  shows "\<exists>k l c r. t = plug k (mk L l (keys t ! i, c) r) \<and> i = length (before k @ keys l)"
  using assms
proof (induction t arbitrary: i rule: addrs.induct)
  case (2 l a c r)
  let ?t = "Node l (a, c) r"
  have t: "?t = mk L l (a, c) r" "keys ?t = keys l @ a # keys r"
    by (simp_all add: mk_def keys_def)
  consider "i < length (keys l)" | "i = length (keys l)" | j where "i = length (keys l) + 1 + j" "j < length (keys r)"
  proof (cases "length (keys l) < i")
    case True
    then have "i = length (keys l) + 1 + (i - length (keys l) - 1)" "i - length (keys l) - 1 < length (keys r)"
      using 2(3) t(2) by simp_all
    then show ?thesis
      by (rule that(3))
  qed (use that in linarith)
  then show ?case
  proof cases
    case 1
    then obtain k l' c' r' where "l = plug k (mk L l' (keys l ! i, c') r')" "i = length (before k @ keys l')"
      using 2(1) by blast
    then show ?thesis
      using 1 t by (intro exI [of _ "k @ [(L, a, c, r)]"] exI [of _ l'] exI [of _ c'] exI [of _ r'])
        (simp add: plug_append nth_append before_append)
  next
    case 2
    then show ?thesis
      using t by (intro exI [of _ "[]"] exI [of _ l] exI [of _ c] exI [of _ r]) simp
  next
    case 3
    then obtain k l' c' r' where "r = plug k (mk L l' (keys r ! j, c') r')" "j = length (before k @ keys l')"
      using 2(2) by blast
    then show ?thesis
      using 3 t by (intro exI [of _ "k @ [(R, a, c, l)]"] exI [of _ l'] exI [of _ c'] exI [of _ r'])
        (simp add: plug_append nth_append before_append mk_def)
  qed
qed simp


lemma walk_facts:
  assumes h: "holds m t" and ok: "rb_ok t" and N: "129 \<le> N"
  shows "rb_first N m = Inr (if keys t = [] then 0 else hd (keys t))"
    and "rb_last N m = Inr (if keys t = [] then 0 else last (keys t))"
    and "i < length (keys t) \<Longrightarrow> rb_next N (keys t ! i) m = Inr (if Suc i < length (keys t) then keys t ! Suc i else 0)"
    and "i < length (keys t) \<Longrightarrow> rb_prev N (keys t ! i) m = Inr (if i = 0 then 0 else keys t ! (i - 1))"
proof -
  have t: "wf_tree t" "rep (cells m) 0 t" "rb_root m = addr t"
    using h by (simp_all add: holds_def)
  have short: "length k < N" if "t = plug k u" for k u
    using path_short [of k u] t(1) ok N that by simp
  have ends: "t \<noteq> Leaf \<Longrightarrow> rb_walk s N (addr t) m = Inr (end_of s (keys t))" for s
    using walk_end [OF t(2,1)] short by blast
  have ne: "keys t = [] \<longleftrightarrow> t = Leaf"
    by (cases t) (simp_all add: keys_def)
  show "rb_first N m = Inr (if keys t = [] then 0 else hd (keys t))"
    using ends [of L] t ne by (simp add: rb_first_def end_of_def)
  show "rb_last N m = Inr (if keys t = [] then 0 else last (keys t))"
    using ends [of R] t ne by (simp add: rb_last_def end_of_def)
  assume i: "i < length (keys t)"
  then obtain k l c r where f: "t = plug k (mk L l (keys t ! i, c) r)" "i = length (before k @ keys l)"
    using keys_focus by blast
  let ?a = "keys t ! i"
  have keys: "keys t = (before k @ keys l) @ ?a # (keys r @ after k)"
    using arg_cong [OF f(1), of keys] by (simp add: keys_plug keys_mk)
  have empty: "keys x = [] \<longleftrightarrow> x = Leaf" for x
    by (cases x) (simp_all add: keys_def)
  have fR: "t = plug k (mk R r (?a, c) l)"
    using f(1) by (simp add: mk_def)
  have "rb_next N ?a m = Inr (end_of L (keys r @ after k))"
    using neighbour_eq [of m k R r ?a c l N] h ok N fR by (simp add: rb_next_def beyond_def end_of_def empty)
  also have "end_of L (keys r @ after k) = (if Suc i < length (keys t) then keys t ! Suc i else 0)"
  proof -
    have "keys t ! Suc i = (keys r @ after k) ! 0" if "keys r @ after k \<noteq> []"
      by (subst keys) (simp add: f(2) nth_append)
    moreover have "Suc i < length (keys t) \<longleftrightarrow> keys r @ after k \<noteq> []"
      by (subst keys) (simp add: f(2))
    ultimately show ?thesis
      by (simp add: end_of_def hd_conv_nth)
  qed
  finally show "rb_next N ?a m = Inr (if Suc i < length (keys t) then keys t ! Suc i else 0)" .
  have "rb_prev N ?a m = Inr (end_of R (before k @ keys l))"
    using neighbour_eq [of m k L l ?a c r N] h ok N f(1) by (simp add: rb_prev_def beyond_def end_of_def empty)
  also have "end_of R (before k @ keys l) = (if i = 0 then 0 else keys t ! (i - 1))"
  proof (cases "before k @ keys l = []")
    case False
    then have i: "i \<noteq> 0" "i - 1 < length (before k @ keys l)"
      unfolding f(2) by auto
    have "(before k @ keys l) ! (i - 1) = ((before k @ keys l) @ ?a # keys r @ after k) ! (i - 1)"
      using i(2) nth_append [of "before k @ keys l" _ "i - 1"] by presburger
    also have "\<dots> = keys t ! (i - 1)"
      using arg_cong [OF keys, of "\<lambda>xs. xs ! (i - 1)"] by (rule sym)
    finally have "(before k @ keys l) ! (i - 1) = keys t ! (i - 1)" .
    moreover have "last (before k @ keys l) = (before k @ keys l) ! (i - 1)"
      using last_conv_nth [OF False] f(2) by simp
    ultimately show ?thesis
      using False i(1) unfolding end_of_def by auto
  qed (use f(2) in \<open>simp add: end_of_def\<close>)
  finally show "rb_prev N ?a m = Inr (if i = 0 then 0 else keys t ! (i - 1))" .
qed

text \<open>
  C29: The walks follow the order of the tree. \<open>rb_first\<close> and \<open>rb_last\<close> return its first and last
  node and \<open>NULL\<close> for the empty tree; on every node of a red-black tree \<open>rb_next\<close> returns the
  following one and \<open>rb_prev\<close> the preceding one, \<open>NULL\<close> at the ends. So a loop from \<open>rb_first\<close>
  by \<open>rb_next\<close> visits every node once, in order.
\<close>
theorem rb_walk_in_order:
  assumes "holds m t" "rb_ok t" "129 \<le> N"
  shows "rb_first N m = Inr (if keys t = [] then 0 else hd (keys t)) \<and> rb_last N m = Inr (if keys t = [] then 0 else last (keys t))
    \<and> (\<forall>i < length (keys t). rb_next N (keys t ! i) m = Inr (if Suc i < length (keys t) then keys t ! Suc i else 0)
        \<and> rb_prev N (keys t ! i) m = Inr (if i = 0 then 0 else keys t ! (i - 1)))"
  using walk_facts [OF assms] by simp

lemma rb_walk_in_order_witness:
  "rb_first 129 rb_sample_full = Inr 8 \<and> rb_next 129 8 rb_sample_full = Inr 16 \<and> rb_next 129 16 rb_sample_full = Inr 24
    \<and> rb_next 129 24 rb_sample_full = Inr 0 \<and> rb_prev 129 24 rb_sample_full = Inr 16 \<and> rb_last 129 rb_sample_full = Inr 24"
proof -
  let ?t = "mk L (Node Leaf (8, Red) Leaf) (16, Black) (Node Leaf (24, Red) Leaf)"
  have "holds rb_sample_full ?t" "rb_ok ?t"
    using rb_sample_full_holds by simp (simp add: mk_def rb_ok_def)
  note r = rb_walk_in_order [OF this, of 129]
  have k: "keys ?t = [8, 16, 24]"
    by (simp add: keys_def mk_def)
  show ?thesis
    using r unfolding k by (auto simp: All_less_Suc numeral_3_eq_3 numeral_2_eq_2)
qed

section \<open>Replacing a node of the tree\<close>

text \<open>
  \<open>rb_replace_node\<close> puts the new node in the place of the victim: same subtrees, same
  colour, same place in the order; cells of neither the tree nor the new node are untouched.
\<close>
theorem rb_replace_node_correct:
  assumes h: "holds m (plug k (mk L l (v, c) r))" and new: "cells m w \<noteq> None" "w \<noteq> 0" "aligned w" "w \<notin> addrs (plug k (mk L l (v, c) r))"
  shows "\<exists>m'. rb_replace_node v w m = Inr m' \<and> holds m' (plug k (mk L l (w, c) r))
    \<and> (\<forall>a. a \<notin> insert w (addrs (plug k (mk L l (v, c) r))) \<longrightarrow> cells m' a = cells m a)"
proof -
  let ?v = "cell L (top_addr k) c (addr l) (addr r)"
  have v: "cells m v = Some ?v" "rep (cells m) v l" "rep (cells m) v r" "rep_path (cells m) v k"
    and wf: "v \<noteq> 0" "aligned v" "wf_tree l" "wf_tree r" "wf_path k" "v \<notin> path_addrs k" "v \<notin> addrs l" "v \<notin> addrs r"
      "addrs l \<inter> addrs r = {}" "addrs l \<inter> path_addrs k = {}" "addrs r \<inter> path_addrs k = {}"
      "w \<notin> addrs l" "w \<notin> addrs r" "w \<notin> path_addrs k" "w \<noteq> v"
    and root: "rb_root m = addr (plug k (mk L l (v, c) r))"
    using h new by (auto simp: holds_def rep_plug wf_plug addrs_plug)
  obtain M1 g where link: "relink L v w (top_addr k) m = Inr (m\<lparr>cells := M1, rb_root := (if k = [] then w else rb_root m)\<rparr>)"
    and M1: "rep_path M1 w k" "\<forall>a. a \<noteq> g \<longrightarrow> M1 a = cells m a" "k \<noteq> [] \<longrightarrow> g \<in> path_addrs k" "k = [] \<longrightarrow> M1 = cells m"
    using relink_effect [OF v(4) wf(5,1,6), of L w] root by auto
  define m1 where "m1 = m\<lparr>cells := M1, rb_root := (if k = [] then w else rb_root m)\<rparr>"
  have off1: "cells m1 a = cells m a" if "a \<notin> path_addrs k" for a
    using M1(2-4) that by (cases "k = []") (auto simp: m1_def)
  have v1: "cells m1 v = Some ?v"
    using v(1) wf(6) off1 by simp
  have "\<forall>a \<in> addrs l. cells m1 a = cells m a" "\<forall>a \<in> addrs r. cells m1 a = cells m a"
    using off1 wf by auto
  then have lr: "rep (cells m1) v l" "rep (cells m1) v r"
    using v(2,3) rep_frame by blast+
  obtain M2 where M2: "(if addr l \<noteq> 0 then upd (addr l) (rb_set_parent w) m1 else Inr m1) = Inr (m1\<lparr>cells := M2\<rparr>)"
    "rep M2 w l" "\<forall>a. a \<notin> addrs l \<longrightarrow> M2 a = cells m1 a"
    using reparent_effect [OF lr(1) wf(3,2), of w] by blast
  have "\<forall>a \<in> addrs r. M2 a = cells m1 a"
    using M2(3) wf(9) by blast
  then have "rep (cells (m1\<lparr>cells := M2\<rparr>)) v r"
    using lr(2) rep_frame [of r M2 "cells m1"] by simp
  from reparent_effect [OF this wf(4,2), of w]
  obtain M3 where M3: "(if addr r \<noteq> 0 then upd (addr r) (rb_set_parent w) (m1\<lparr>cells := M2\<rparr>) else Inr (m1\<lparr>cells := M2\<rparr>)) = Inr (m1\<lparr>cells := M3\<rparr>)"
    "rep M3 w r" "\<forall>a. a \<notin> addrs r \<longrightarrow> M3 a = M2 a"
    by auto
  define M4 where "M4 = M3(w \<mapsto> ?v)"
  have off: "M4 a = cells m1 a" if "a \<notin> addrs l" "a \<notin> addrs r" "a \<noteq> w" for a
    using that M2(3) M3(3) by (simp add: M4_def)
  have vs: "M2 v = Some ?v" "M3 v = Some ?v" "\<exists>n. M3 w = Some n"
    using M2(3) M3(3) wf v1 off1 new(1) by auto
  have "rb_replace_node v w m = Inr (m1\<lparr>cells := M4\<rparr>)"
  proof -
    have "rb_replace_node v w m = bindE (if addr l \<noteq> 0 then upd (addr l) (rb_set_parent w) m1 else Inr m1) (\<lambda>m.
       bindE (node_at m v) (\<lambda>v'. bindE (if rb_right v' \<noteq> 0 then upd (rb_right v') (rb_set_parent w) m else Inr m) (\<lambda>m.
       bindE (node_at m v) (\<lambda>v. upd w (\<lambda>_. v) m))))"
      using v(1) v1 wf(5) link [folded m1_def] by (simp add: rb_replace_node_def node_at_def cell_color cong: if_cong)
    also have "\<dots> = bindE (if addr r \<noteq> 0 then upd (addr r) (rb_set_parent w) (m1\<lparr>cells := M2\<rparr>) else Inr (m1\<lparr>cells := M2\<rparr>)) (\<lambda>m.
       bindE (node_at m v) (\<lambda>v. upd w (\<lambda>_. v) m))"
      using vs(1) unfolding M2(1) bindE_simps by (simp add: node_at_def cong: if_cong)
    also have "\<dots> = Inr (m1\<lparr>cells := M4\<rparr>)"
      using vs(2,3) unfolding M3(1) bindE_simps by (auto simp: node_at_def upd_def M4_def)
    finally show ?thesis .
  qed
  moreover have "holds (m1\<lparr>cells := M4\<rparr>) (plug k (mk L l (w, c) r))"
  proof -
    have "rep M4 w l" "rep M4 w r" "rep_path M4 w k"
    proof -
      have "\<forall>a \<in> addrs l. M4 a = M2 a" "\<forall>a \<in> addrs r. M4 a = M3 a"
        using M3(3) wf by (auto simp: M4_def disjoint_iff)
      moreover have "\<forall>a \<in> path_addrs k. M4 a = M1 a"
        using off wf(10,11,14) by (auto simp: disjoint_iff m1_def)
      ultimately show "rep M4 w l" "rep M4 w r" "rep_path M4 w k"
        using M2(2) M3(2) M1(1) rep_frame rep_path_frame by blast+
    qed
    then show ?thesis
      using wf new root addr_plug [of k "mk L l (w, c) r"] addr_plug [of k "mk L l (v, c) r"]
      by (auto simp: holds_def rep_plug wf_plug M4_def m1_def)
  qed
  moreover have "\<forall>a. a \<notin> insert w (addrs (plug k (mk L l (v, c) r))) \<longrightarrow> M4 a = cells m a"
    using off off1 by (simp add: addrs_plug)
  ultimately show ?thesis
    by (intro exI [of _ "m1\<lparr>cells := M4\<rparr>"]) simp
qed

lemma rb_replace_node_correct_witness:
  "\<exists>m'. rb_replace_node 8 24 rb_sample = Inr m' \<and> holds m' (plug [(L, 16, Black, Leaf)] (mk L Leaf (24, Red) Leaf))"
proof -
  let ?k = "[(L, 16, Black, Leaf)] :: frame list"
  have "holds rb_sample (plug ?k (mk L Leaf (8, Red) Leaf))"
    by (simp add: holds_def rb_sample_def cell_def mk_def aligned_def RB_RED_def RB_BLACK_def)
  moreover have "cells rb_sample 24 \<noteq> None" "(24 :: u64) \<noteq> 0" "aligned 24" "24 \<notin> addrs (plug ?k (mk L Leaf (8, Red) Leaf))"
    by (simp_all add: rb_sample_def aligned_def)
  ultimately show ?thesis
    using rb_replace_node_correct [of rb_sample ?k Leaf 8 Red Leaf 24] by blast
qed

text \<open>The nodes that \<open>rb_augment_path\<close> visits above the hole with the address \<open>a\<close> in it: every
  parent, and before it the sibling, or the node itself again when it is an only left child.\<close>

fun path_calls :: "frame list \<Rightarrow> u64 \<Rightarrow> u64 list" where
  "path_calls [] a = []"
| "path_calls ((s, p, c, u) # k) a = (if u \<noteq> Leaf then [addr u] else if s = L then [a] else []) @ p # path_calls k p"

lemma augment_path_calls:
  assumes "holds m (plug k t)" "t \<noteq> Leaf" "length k < N"
  shows "rb_augment_path func N (addr t) m d = Inr (fold func (addr t # path_calls k (addr t)) d)"
  using assms
proof (induction k arbitrary: t N d)
  case Nil
  obtain N' where "N = Suc N'"
    using Nil(3) by (cases N) auto
  then show ?case
    using Nil holds_node [of m "[]" L "near L t" "addr t" "root_color t" "near (other L) t"] tree_mk [OF Nil(2), of L]
    by (simp add: node_at_def cell_color)
next
  case (Cons f k)
  obtain s p c u where f: "f = (s, p, c, u)"
    by (cases f)
  obtain N' where N: "N = Suc N'" "length k < N'"
    using Cons(4) by (cases N) auto
  have h: "holds m (plug k (mk s t (p, c) u))"
    using Cons.prems(1) by (simp add: f)
  have n: "cells m (addr t) = Some (cell L p (root_color t) (addr (near L t)) (addr (near (other L) t)))" "aligned p"
    using holds_node [of m "f # k" L "near L t" "addr t" "root_color t" "near (other L) t"] Cons.prems(1) tree_mk [OF Cons.prems(2), of L]
    by (simp_all add: f)
  have wt: "addrs t \<inter> addrs u = {}" "wf_tree t" "wf_tree u"
    using h by (auto simp: holds_def wf_plug)
  have ne: "addr t \<noteq> addr u"
    using wt Cons.prems(2) by (cases "u = Leaf") (simp, metis addr_in disjoint_iff)
  show ?case
    using n holds_node [OF h] Cons.IH [OF h _ N(2)] ne wt Cons.prems(2)
    by (cases s) (auto simp: N node_at_def cell_color f Let_def)
qed


text \<open>
  After an insertion \<open>rb_augment_insert\<close> calls the user's function on a child of the new node,
  when there is one, and from there on the way up on every ancestor, each after its
  children, up to the root, and ends.
\<close>
theorem rb_augment_insert_calls:
  assumes h: "holds m (plug k (mk L l (a, c) r))" and N: "length k + 1 < N"
  shows "rb_augment_insert func N a m d = Inr (fold func
    (if l \<noteq> Leaf then addr l # path_calls ((L, a, c, r) # k) (addr l)
     else if r \<noteq> Leaf then addr r # path_calls ((R, a, c, l) # k) (addr r)
     else a # path_calls k a) d)"
proof -
  let ?p = "plug k (mk L l (a, c) r)"
  have w: "wf_tree l" "wf_tree r"
    using h by (auto simp: holds_def wf_plug)
  have h3: "holds m (plug ((L, a, c, r) # k) l)" "holds m (plug ((R, a, c, l) # k) r)"
    using h by (simp_all add: mk_def)
  have a: "mk L l (a, c) r \<noteq> Leaf" "addr (mk L l (a, c) r) = a"
    by (simp_all add: mk_def)
  show ?thesis
    using holds_node [OF h] w augment_path_calls [OF h3(1), of N func d] augment_path_calls [OF h3(2), of N func d]
      augment_path_calls [OF h a(1), of N func d] N
    by (simp add: rb_augment_insert_def node_at_def)
qed

lemma rb_augment_insert_calls_witness:
  "rb_augment_insert (\<lambda>a d. d @ [a]) 3 8 rb_sample [] = Inr [8, 8, 16]"
proof -
  let ?k = "[(L, 16, Black, Leaf)] :: frame list"
  have "holds rb_sample (plug ?k (mk L Leaf (8, Red) Leaf))"
    by (simp add: holds_def rb_sample_def cell_def mk_def aligned_def RB_RED_def RB_BLACK_def)
  from rb_augment_insert_calls [OF this, of 3 "\<lambda>a d. d @ [a]" "[]"] show ?thesis
    by simp
qed

end
