(* ===== verification/Rb_augment.thy ===== *)
theory Rb_augment
  imports Rb_iter
begin

text \<open>
  Augmented trees of \<open>src/rb_tree.c\<close>: the user keeps in every node a value that depends on the
  node and on the values of its two children, such as the largest end of an interval below
  it, and passes a function that computes it anew. After an insertion or a removal some values
  are out of date; \<open>rb_augment_insert\<close> and the two calls around a removal bring them up to
  date again.
\<close>

section \<open>Values that depend on the children\<close>

text \<open>The value below a pointer; there is none below \<open>NULL\<close>.\<close>

definition value_at :: "(u64 \<Rightarrow> 'v) \<Rightarrow> u64 \<Rightarrow> 'v option" where
  "value_at d p = (if p = 0 then None else Some (d p))"

text \<open>The function the user passes: the value of a node from those of its children, which it
  finds in the memory.\<close>

definition recompute :: "(u64 \<Rightarrow> 'v option \<Rightarrow> 'v option \<Rightarrow> 'v) \<Rightarrow> rb_mem \<Rightarrow> u64 \<Rightarrow> (u64 \<Rightarrow> 'v) \<Rightarrow> u64 \<Rightarrow> 'v" where
  "recompute f m a d = (case cells m a of None \<Rightarrow> d
     | Some n \<Rightarrow> d(a := f a (value_at d (rb_left n)) (value_at d (rb_right n))))"

text \<open>All values of a tree are up to date.\<close>

fun up_to_date :: "(u64 \<Rightarrow> 'v option \<Rightarrow> 'v option \<Rightarrow> 'v) \<Rightarrow> (u64 \<Rightarrow> 'v) \<Rightarrow> rbt \<Rightarrow> bool" where
  "up_to_date f d Leaf \<longleftrightarrow> True"
| "up_to_date f d (Node l (a, c) r) \<longleftrightarrow> d a = f a (value_at d (addr l)) (value_at d (addr r))
     \<and> up_to_date f d l \<and> up_to_date f d r"

lemma up_to_date_frame: "wf_tree t \<Longrightarrow> \<forall>a \<in> addrs t. d' a = d a \<Longrightarrow> up_to_date f d' t = up_to_date f d t"
proof (induction t rule: addrs.induct)
  case (2 l a c r)
  have "value_at d' (addr l) = value_at d (addr l)" "value_at d' (addr r) = value_at d (addr r)"
    using 2(4) by (cases "l = Leaf"; cases "r = Leaf"; simp add: value_at_def)+
  then show ?case
    using 2 by simp
qed simp

lemma up_to_date_mk: "up_to_date f d (mk L l (a, c) r) \<longleftrightarrow> d a = f a (value_at d (addr l)) (value_at d (addr r))
    \<and> up_to_date f d l \<and> up_to_date f d r"
  by (simp add: mk_def)

lemma hereditary_up_to_date: "hereditary (up_to_date f d)"
  by (auto simp: hereditary_def mk_def split: side.splits)

lemma kids_frame: "wf_tree t \<Longrightarrow> \<forall>a \<in> addrs t. d' a = d a \<Longrightarrow> kids (up_to_date f d') t = kids (up_to_date f d) t"
proof (cases t rule: addr.cases)
  case (2 l a c r)
  assume "wf_tree t" "\<forall>a \<in> addrs t. d' a = d a"
  then show ?thesis
    using up_to_date_frame [of l d' d f] up_to_date_frame [of r d' d f] unfolding 2 by (simp add: kids_def)
qed (simp add: kids_def)

lemma path_kids_frame: "wf_path k \<Longrightarrow> \<forall>a \<in> path_addrs k. d' a = d a \<Longrightarrow>
    path_all (kids (up_to_date f d')) k = path_all (kids (up_to_date f d)) k"
proof (induction k rule: path_addrs.induct)
  case (2 s a c u k)
  then show ?case
    using kids_frame [of u d' d f] by simp
qed simp

section \<open>The way up\<close>

text \<open>One call of the function on a node below which the values are up to date.\<close>

lemma recompute_node:
  assumes "rep (cells m) par t" "wf_tree t" "t \<noteq> Leaf" "kids (up_to_date f d) t"
  shows "up_to_date f (recompute f m (addr t) d) t" "\<And>a. a \<noteq> addr t \<Longrightarrow> recompute f m (addr t) d a = d a"
proof -
  obtain l a c r where t: "t = Node l (a, c) r"
    using assms(3) by (cases t rule: addr.cases) auto
  let ?d = "recompute f m a d"
  have d: "?d = d(a := f a (value_at d (addr l)) (value_at d (addr r)))"
    using assms(1) by (simp add: recompute_def t)
  have "up_to_date f ?d l" "up_to_date f ?d r"
    using assms(2,4) up_to_date_frame [of l ?d d f] up_to_date_frame [of r ?d d f] by (auto simp: t kids_def d)
  moreover have "addr l \<noteq> a" "addr r \<noteq> a"
    using assms(2) by (cases "l = Leaf"; cases "r = Leaf"; auto simp: t)+
  ultimately show "up_to_date f (recompute f m (addr t) d) t" "\<And>a. a \<noteq> addr t \<Longrightarrow> recompute f m (addr t) d a = d a"
    by (simp_all add: t d value_at_def)
qed

text \<open>The calls of \<open>rb_augment_path\<close>, from a node whose subtrees are up to date, with siblings
  whose subtrees are up to date.\<close>

lemma path_restores:
  assumes "holds m (plug k t)" "t \<noteq> Leaf" "kids (up_to_date f d) t" "path_all (kids (up_to_date f d)) k"
  shows "up_to_date f (fold (recompute f m) (addr t # path_calls k (addr t)) d) (plug k t)
    \<and> (\<forall>a. a \<notin> addrs (plug k t) \<longrightarrow> fold (recompute f m) (addr t # path_calls k (addr t)) d a = d a)"
  using assms
proof (induction k arbitrary: t d)
  case Nil
  have r: "rep (cells m) 0 t" "wf_tree t"
    using Nil.prems(1) by (simp_all add: holds_def)
  have "a \<noteq> addr t" if "a \<notin> addrs t" for a
    using addr_in [OF Nil.prems(2)] that by blast
  then show ?case
    using recompute_node [OF r Nil.prems(2,3)] by simp
next
  case (Cons fr k)
  obtain s p c u where fr: "fr = (s, p, c, u)"
    by (cases fr)
  have h: "holds m (plug k (mk s t (p, c) u))"
    using Cons.prems(1) by (simp add: fr)
  have w: "wf_tree t" "wf_tree u" "addrs t \<inter> addrs u = {}" "p \<notin> addrs t" "p \<notin> addrs u" "wf_path k"
    "addrs t \<inter> path_addrs k = {}" "addrs u \<inter> path_addrs k = {}" "rep (cells m) p t" "rep (cells m) p u"
    using h by (auto simp: holds_def wf_plug rep_plug)
  have out: "b \<noteq> addr x" if "x \<noteq> Leaf" "b \<notin> addrs x" for b x
    using that addr_in by blast
  define d1 where "d1 = recompute f m (addr t) d"
  have d1: "up_to_date f d1 t" "\<And>a. a \<noteq> addr t \<Longrightarrow> d1 a = d a"
    using recompute_node [OF w(9,1) Cons.prems(2,3)] unfolding d1_def by blast+
  define calls where "calls = (if u \<noteq> Leaf then [addr u] else if s = L then [addr t] else [])"
  define d2 where "d2 = fold (recompute f m) calls d1"
  have d2: "up_to_date f d2 t \<and> up_to_date f d2 u \<and> (\<forall>a. a \<notin> addrs t \<union> addrs u \<longrightarrow> d2 a = d a)"
  proof (cases "u = Leaf")
    case True
    have "kids (up_to_date f d1) t"
      using d1(1) by (rule hereditary_kids [OF hereditary_up_to_date])
    note again = recompute_node [OF w(9,1) Cons.prems(2) this]
    have "d2 = (if s = L then recompute f m (addr t) d1 else d1)"
      using True by (simp add: d2_def calls_def)
    then show ?thesis
      using again d1 True out [OF Cons.prems(2)] by auto
  next
    case False
    have "addr u \<notin> addrs t" "addr t \<notin> addrs u"
      using w(3) False Cons.prems(2) by (meson addr_in disjoint_iff)+
    have "kids (up_to_date f d) u"
      using Cons.prems(4) by (simp add: fr)
    moreover have "\<forall>a \<in> addrs u. d1 a = d a"
      using d1(2) \<open>addr t \<notin> addrs u\<close> by metis
    ultimately have "kids (up_to_date f d1) u"
      using kids_frame [OF w(2)] by blast
    note u = recompute_node [OF w(10,2) False this]
    have d2: "d2 = recompute f m (addr u) d1"
      using False by (simp add: d2_def calls_def)
    have "\<forall>a \<in> addrs t. d2 a = d1 a"
      using u(2) \<open>addr u \<notin> addrs t\<close> unfolding d2 by metis
    then have "up_to_date f d2 t"
      using up_to_date_frame [OF w(1)] d1(1) by blast
    then show ?thesis
      using u d1(2) out [OF False] out [OF Cons.prems(2)] unfolding d2 by auto
  qed
  have "kids (up_to_date f d2) (mk s t (p, c) u)"
    using d2 by simp
  moreover have "\<forall>a \<in> path_addrs k. d2 a = d a"
    using d2 w(7,8) by blast
  then have "path_all (kids (up_to_date f d2)) k"
    using Cons.prems(4) path_kids_frame [OF w(6), of d2 d f] unfolding fr by simp
  ultimately have "up_to_date f (fold (recompute f m) (p # path_calls k p) d2) (plug k (mk s t (p, c) u))
      \<and> (\<forall>a. a \<notin> addrs (plug k (mk s t (p, c) u)) \<longrightarrow> fold (recompute f m) (p # path_calls k p) d2 a = d2 a)"
    using Cons.IH [OF h] by simp
  moreover have "fold (recompute f m) (addr t # path_calls (fr # k) (addr t)) d = fold (recompute f m) (p # path_calls k p) d2"
    by (simp add: fr d2_def d1_def calls_def)
  ultimately show ?case
    using d2 by (simp add: fr addrs_plug)
qed

lemma augment_path_restores:
  assumes "holds m (plug k t)" "t \<noteq> Leaf" "length k < N"
    and "kids (up_to_date f d) t" "path_all (kids (up_to_date f d)) k"
  shows "\<exists>d'. rb_augment_path (recompute f m) N (addr t) m d = Inr d' \<and> up_to_date f d' (plug k t)
    \<and> (\<forall>a. a \<notin> addrs (plug k t) \<longrightarrow> d' a = d a)"
  using augment_path_calls [OF assms(1-3), of "recompute f m" d] path_restores [OF assms(1,2,4,5)] by blast

section \<open>After an insertion\<close>

lemma augment_insert_restores:
  assumes h: "holds m t" "rb_ok t" and g: "grown (up_to_date f d) a t" and N: "129 \<le> N"
  shows "\<exists>d'. rb_augment_insert (recompute f m) N a m d = Inr d' \<and> up_to_date f d' t \<and> (\<forall>b. b \<notin> addrs t \<longrightarrow> d' b = d b)"
proof -
  let ?P = "up_to_date f d"
  obtain k l r c where t: "t = plug k (mk L l (a, c) r)" and kids: "kids ?P l" "kids ?P r" "path_all (kids ?P) k"
    using g unfolding grown_def by blast
  have hn: "holds m (plug k (mk L l (a, c) r))" and w: "wf_tree (plug k (mk L l (a, c) r))" and ok: "rb_ok (plug k (mk L l (a, c) r))"
    using h t by (simp_all add: holds_def)
  have start: "rb_augment_insert (recompute f m) N a m d = rb_augment_path (recompute f m) N
      (if l \<noteq> Leaf then addr l else if r \<noteq> Leaf then addr r else a) m d"
    using holds_node [OF hn] w by (simp add: rb_augment_insert_def node_at_def wf_plug)
  have eq: "plug ((L, a, c, r) # k) l = t" "plug ((R, a, c, l) # k) r = t"
    by (simp_all add: t mk_def)
  have short: "length k' < N" if "plug k' t' = t" for k' t'
    using path_short [of k' t'] h N that by (auto simp: holds_def)
  consider "l \<noteq> Leaf" | "l = Leaf" "r \<noteq> Leaf" | "l = Leaf" "r = Leaf"
    by blast
  then show ?thesis
  proof cases
    case 1
    then show ?thesis
      using augment_path_restores [of m "(L, a, c, r) # k" l N f d] h kids short [OF eq(1)] unfolding start eq by simp
  next
    case 2
    have "kids ?P Leaf"
      by (simp add: kids_def)
    then show ?thesis
      using 2 augment_path_restores [of m "(R, a, c, l) # k" r N f d] h kids short [OF eq(2)] unfolding start eq by simp
  next
    case 3
    then show ?thesis
      using augment_path_restores [of m k "mk L l (a, c) r" N f d] h kids short [OF t [symmetric]]
      unfolding start t [symmetric] by simp
  qed
qed

section \<open>Around a removal\<close>

lemma erase_begin_eq:
  assumes h: "holds m (plug k (mk L l (z, c) r))" and ok: "rb_ok (plug k (mk L l (z, c) r))" and N: "129 \<le> N"
    and up: "moves_up k l r x q"
  shows "rb_augment_erase_begin N z m = Inr (if x \<noteq> Leaf then addr x else q)"
proof -
  note node = holds_node [OF h]
  have w: "wf_tree (plug k (mk L l (z, c) r))"
    using h by (simp add: holds_def)
  consider "l = Leaf" "x = r" "q = top_addr k" | "l \<noteq> Leaf" "r = Leaf" "x = l" "q = top_addr k"
    | ky y cy where "l \<noteq> Leaf" "r = plug ky (mk L Leaf (y, cy) x)" "on_side L ky" "q = top_of y ky"
    using up unfolding moves_up_def by blast
  then show ?thesis
  proof cases
    case 1
    then show ?thesis
      using node w by (simp add: rb_augment_erase_begin_def node_at_def cell_color wf_plug)
  next
    case 2
    then show ?thesis
      using node w by (simp add: rb_augment_erase_begin_def node_at_def wf_plug)
  next
    case 3
    have r: "r \<noteq> Leaf"
      unfolding 3(2) by (cases ky) (simp_all add: plug_nonleaf)
    have "mk L l (z, c) r = mk R r (z, c) l"
      by (simp add: mk_def)
    moreover have "hd (keys r) = y" "keys r \<noteq> []"
      using keys_plug [of ky "mk L Leaf (y, cy) x"] by (simp_all add: 3(2) before_left [OF 3(3)] mk_def keys_def)
    ultimately have nxt: "rb_next N z m = Inr y"
      using neighbour_eq [of m k R r z c l N] h ok N r by (simp add: rb_next_def end_of_def)
    let ?k = "ky @ (R, z, c, l) # k"
    have "plug k (mk L l (z, c) r) = plug ?k (mk L Leaf (y, cy) x)"
      by (simp add: plug_append 3(2) mk_def)
    then have hy: "holds m (plug ?k (mk L Leaf (y, cy) x))"
      using h by simp
    have top: "top_addr ?k = top_of z ky" "ky \<noteq> [] \<Longrightarrow> top_of z ky = top_of y ky \<and> top_of z ky \<in> addrs r"
      using top_in [of ky] by (cases ky rule: top_addr.cases; simp add: 3(2) addrs_plug)+
    have "addr l \<noteq> 0" "addr r \<noteq> 0" "wf_tree x" "z \<notin> addrs r"
      using w 3(1) r by (auto simp: wf_plug 3(2))
    then show ?thesis
      using node holds_node [OF hy] nxt top 3(4)
      by (cases "ky = []") (auto simp: rb_augment_erase_begin_def node_at_def cell_color)
  qed
qed

lemma augment_erase_restores:
  assumes h: "holds m t" "rb_ok t" and kept: "kept (up_to_date f d) x q t" "up_to_date f d x" and N: "129 \<le> N"
  shows "\<exists>d'. rb_augment_erase_end (recompute f m) N (if x \<noteq> Leaf then addr x else q) m d = Inr d'
    \<and> up_to_date f d' t \<and> (\<forall>b. b \<notin> addrs t \<longrightarrow> d' b = d b)"
proof -
  let ?P = "up_to_date f d"
  note her = hereditary_up_to_date [of f d]
  obtain k c where t: "t = plug k (paint c x)" and k: "loose ?P k" "top_addr k = q"
    using kept(1) unfolding kept_def by blast
  have w: "wf_tree t"
    using h by (simp add: holds_def)
  have short: "length k' < N" if "plug k' t' = t" for k' t'
    using path_short [of k' t'] h N that by (auto simp: holds_def)
  show ?thesis
  proof (cases "x = Leaf")
    case False
    have p: "addr (paint c x) = addr x" "paint c x \<noteq> Leaf"
      using False by (cases x rule: addr.cases; simp)+
    have "addr x \<noteq> 0"
      using w p by (metis addr_0 t wf_plug)
    moreover have "kids ?P (paint c x)"
      using kept(2) by (intro hereditary_kids [OF her]) (simp add: her)
    ultimately show ?thesis
      using augment_path_restores [of m k "paint c x" N f d] h short [OF t [symmetric]] loose_kids [OF her k(1)] p False
      unfolding t [symmetric] by (simp add: rb_augment_erase_end_def)
  next
    case leaf: True
    show ?thesis
    proof (cases k rule: top_addr.cases)
      case 1
      then show ?thesis
        using leaf k(2) t by (simp add: rb_augment_erase_end_def)
    next
      case (2 s a c' u k')
      have eq: "plug k' (mk s Leaf (a, c') u) = t"
        by (simp add: t leaf 2)
      have "a \<noteq> 0"
        using w unfolding eq [symmetric] by (simp add: wf_plug)
      moreover have "kids ?P (mk s Leaf (a, c') u)" "path_all (kids ?P) k'"
        using k(1) by (simp_all add: 2)
      ultimately show ?thesis
        using augment_path_restores [of m k' "mk s Leaf (a, c') u" N f d] h short [OF eq] k(2) leaf
        unfolding eq by (simp add: rb_augment_erase_end_def 2)
    qed
  qed
qed

section \<open>Insertion and removal in an augmented tree\<close>

text \<open>
  C12: Inserting into an augmented tree keeps its values. The values of the nodes of a red-black
  tree are those that a function \<open>f\<close> of the node and the values of its children gives; a new
  node is linked, the tree rebalanced, and \<open>rb_augment_insert\<close> called with a callback that
  computes one node's value anew. It returns, and then every value of the new tree is up to
  date, for every \<open>f\<close> and whatever rotations were made; values outside the tree are not touched.
\<close>
theorem augment_insert_correct:
  assumes h: "holds m (plug k Leaf)" "rb_ok (plug k Leaf)"
    and a: "cells m a \<noteq> None" "a \<noteq> 0" "aligned a" "a \<notin> path_addrs k" and d: "up_to_date f d (plug k Leaf)" and N: "129 \<le> N"
  shows "\<exists>m' t' d'. bindE (rb_link_node a (top_addr k) (hole_side k) m) (rb_insert_color N a) = Inr m'
    \<and> holds m' t' \<and> rb_ok t' \<and> keys t' = before k @ a # after k
    \<and> rb_augment_insert (recompute f m') N a m' d = Inr d' \<and> up_to_date f d' t' \<and> (\<forall>b. b \<notin> addrs t' \<longrightarrow> d' b = d b)"
proof -
  obtain m' where m': "bindE (rb_link_node a (top_addr k) (hole_side k) m) (rb_insert_color N a) = Inr m'"
    "holds m' (inserted_tree k a)" "rb_ok (inserted_tree k a)" "keys (inserted_tree k a) = before k @ a # after k"
    using rb_insert_tree [OF h a N] by (elim exE conjE) (rule that)
  have "path_all (up_to_date f d) k"
    using plug_all [OF hereditary_up_to_date d] by blast
  then have "grown (up_to_date f d) a (inserted_tree k a)"
    by (rule inserted_grown [OF hereditary_up_to_date])
  from augment_insert_restores [OF m'(2,3) this N] show ?thesis
    using m' by (elim exE conjE) (intro exI conjI; assumption)
qed

text \<open>The size of every subtree as the value kept in its root.\<close>

definition subtree_size :: "u64 \<Rightarrow> nat option \<Rightarrow> nat option \<Rightarrow> nat" where
  "subtree_size a l r = 1 + (case l of None \<Rightarrow> 0 | Some n \<Rightarrow> n) + (case r of None \<Rightarrow> 0 | Some n \<Rightarrow> n)"

lemma augment_insert_correct_witness:
  "\<exists>m' t' d'. bindE (rb_link_node 24 8 L rb_sample) (rb_insert_color 129 24) = Inr m' \<and> holds m' t'
    \<and> keys t' = [24, 8, 16] \<and> rb_augment_insert (recompute subtree_size m') 129 24 m' ((\<lambda>_. 0)(8 := 1, 16 := 2)) = Inr d'
    \<and> up_to_date subtree_size d' t'"
proof -
  let ?k = "[(L, 8, Red, Leaf), (L, 16, Black, Leaf)] :: frame list"
  have "rb_ok (plug ?k Leaf)"
    by (simp add: mk_def rb_ok_def)
  moreover have "cells rb_sample 24 \<noteq> None" "(24 :: u64) \<noteq> 0" "aligned 24" "24 \<notin> path_addrs ?k"
    by (simp_all add: rb_sample_def aligned_def)
  moreover have "up_to_date subtree_size ((\<lambda>_. 0)(8 := 1, 16 := 2)) (plug ?k Leaf)"
    by (simp add: mk_def subtree_size_def value_at_def)
  ultimately show ?thesis
    using augment_insert_correct [OF rb_sample_holds, of 24 subtree_size "(\<lambda>_. 0)(8 := 1, 16 := 2)" 129]
    by simp (elim exE conjE, intro exI conjI, assumption+)
qed

text \<open>
  C13: Removing a node from an augmented tree keeps its values. \<open>rb_augment_erase_begin\<close>, called
  before the removal, finds the deepest node from which the way up passes everything that
  will have changed: called with it after \<open>rb_erase\<close>, \<open>rb_augment_erase_end\<close> returns with all
  values of the remaining tree up to date, for a node with no, one or two children, at any
  place, whatever rotations were made.
\<close>
theorem augment_erase_correct:
  assumes h: "holds m (plug k (mk L l (z, c) r))" and ok: "rb_ok (plug k (mk L l (z, c) r))"
    and d: "up_to_date f d (plug k (mk L l (z, c) r))" and N: "131 \<le> N"
  shows "\<exists>q m' t' d'. rb_augment_erase_begin N z m = Inr q \<and> rb_erase N z m = Inr m' \<and> holds m' t' \<and> rb_ok t'
    \<and> keys t' = before k @ keys l @ keys r @ after k
    \<and> rb_augment_erase_end (recompute f m') N q m' d = Inr d' \<and> up_to_date f d' t' \<and> (\<forall>b. b \<notin> addrs t' \<longrightarrow> d' b = d b)"
proof -
  have N': "129 \<le> N"
    using N by simp
  obtain m' t' x q where m': "rb_erase N z m = Inr m'" "holds m' t'" "rb_ok t'" "keys t' = before k @ keys l @ keys r @ after k"
    "moves_up k l r x q"
    "\<forall>P. hereditary P \<longrightarrow> P (plug k (mk L l (z, c) r)) \<longrightarrow> P x \<and> kept P x q t'"
    using rb_erase_tree [OF h ok N] by (elim exE conjE) (rule that)
  have "up_to_date f d x" "kept (up_to_date f d) x q t'"
    using m'(6) d hereditary_up_to_date by blast+
  from augment_erase_restores [OF m'(2,3) this(2,1) N'] erase_begin_eq [OF h ok N' m'(5)] show ?thesis
    using m'(1-4) by (elim exE conjE) (intro exI conjI; assumption)
qed

lemma augment_erase_correct_witness:
  "\<exists>q m' t' d'. rb_augment_erase_begin 131 16 rb_sample_full = Inr q \<and> rb_erase 131 16 rb_sample_full = Inr m'
    \<and> holds m' t' \<and> keys t' = [8, 24]
    \<and> rb_augment_erase_end (recompute subtree_size m') 131 q m' ((\<lambda>_. 1)(16 := 3)) = Inr d' \<and> up_to_date subtree_size d' t'"
proof -
  let ?l = "Node Leaf (8, Red) Leaf" and ?r = "Node Leaf (24, Red) Leaf" and ?d = "(\<lambda>_. 1)(16 := 3)"
  have "rb_ok (plug [] (mk L ?l (16, Black) ?r))" "up_to_date subtree_size ?d (plug [] (mk L ?l (16, Black) ?r))"
    by (simp_all add: mk_def rb_ok_def subtree_size_def value_at_def)
  moreover have "keys ?l = [8]" "keys ?r = [24]"
    by (simp_all add: keys_def)
  ultimately show ?thesis
    using augment_erase_correct [OF rb_sample_full_holds, of subtree_size ?d 131]
    by simp (elim exE conjE, intro exI conjI, assumption+)
qed

end
