(* ===== verification/Thpool.thy ===== *)
theory Thpool
  imports Tcp_Prelude "HOL-Library.Multiset"
begin

text \<open>
  \<open>src/thpool.c\<close>: the thread pool. The job queue is the linked list of the source, its jobs
  at addresses of a memory; the binary semaphore is its value and the threads that sleep on
  its condition variable. A worker is its position in \<open>thread_do\<close>; every critical section is
  one step, and the steps of all workers and of the callers interleave in any order. A
  worker that is paused inside a critical section keeps its mutexes, and a step that needs
  one of them waits. \<open>pthread_cond_signal\<close> wakes one sleeping thread of the system's choice;
  \<open>pthread_cond_wait\<close> may also return without a signal. The results of \<open>malloc\<close> are arguments.
\<close>

section \<open>Data\<close>

record job =
  job_prev :: "64 word"
  job_function :: "64 word"
  job_arg :: "64 word"

text \<open>The semaphore: its value and the workers inside \<open>pthread_cond_wait\<close> that nobody has woken.\<close>

record bsem =
  bsem_v :: int
  bsem_cond :: "nat list"

record jobqueue =
  jq_front :: "64 word"
  jq_rear :: "64 word"
  has_jobs :: bsem
  jq_len :: int

text \<open>The mutexes: \<open>thcount_lock\<close>, \<open>rwmutex\<close> of the queue and \<open>mutex\<close> of the semaphore.\<close>

datatype mutex = Thcount_lock | Rwmutex | Bsem_mutex

text \<open>
  Where a worker stands in \<open>thread_do\<close>. \<open>Waiting\<close> is the start of \<open>bsem_wait\<close> and \<open>Asleep\<close> is inside
  its \<open>pthread_cond_wait\<close>. A paused worker is held in the signal handler, with the mutexes that
  it had locked when the signal came; a second signal that came meanwhile is pending and is
  the inner one of two \<open>Held\<close>.
\<close>

datatype worker =
    Starting
  | Testing
  | Waiting
  | Asleep
  | Woken
  | Counting
  | Pulling
  | Running "64 word"
  | Finishing
  | Leaving
  | Gone
  | Held "mutex list" worker

text \<open>The pool, the allocated jobs, the two global flags, and the calls that workers have made.\<close>

record pool =
  job_at :: "64 word \<Rightarrow> job option"
  tp_queue :: jobqueue
  num_threads_alive :: int
  num_threads_working :: int
  threads_keepalive :: int
  threads_on_hold :: int
  workers :: "worker list"
  calls :: "(64 word \<times> 64 word) list"

section \<open>Binary semaphores\<close>

definition bsem_init :: "int \<Rightarrow> bsem outcome" where
  "bsem_init v = (if v < 0 \<or> 1 < v then Inl (Exit 1) else Inr \<lparr>bsem_v = v, bsem_cond = []\<rparr>)"

definition bsem_reset :: "bsem outcome" where
  "bsem_reset = bsem_init 0"

text \<open>\<open>pthread_cond_signal\<close> wakes one of the sleeping threads; \<open>c\<close> is the choice of the system.\<close>

definition cond_signal_one :: "nat \<Rightarrow> nat list \<Rightarrow> nat list" where
  "cond_signal_one c ts = (let k = c mod length ts in take k ts @ drop (Suc k) ts)"

definition bsem_post :: "nat \<Rightarrow> bsem \<Rightarrow> bsem" where
  "bsem_post c b = b\<lparr>bsem_v := 1, bsem_cond := cond_signal_one c (bsem_cond b)\<rparr>"

definition bsem_post_all :: "bsem \<Rightarrow> bsem" where
  "bsem_post_all b = b\<lparr>bsem_v := 1, bsem_cond := []\<rparr>"

text \<open>
  One round of the loop in \<open>bsem_wait\<close> by thread \<open>i\<close>, from the test with the mutex locked: it
  leaves the loop and takes the semaphore, or it goes to sleep on the condition variable.
\<close>

definition bsem_wait :: "nat \<Rightarrow> bsem \<Rightarrow> bool \<times> bsem" where
  "bsem_wait i b = (if bsem_v b \<noteq> 1 then (False, b\<lparr>bsem_cond := bsem_cond b @ [i]\<rparr>) else (True, b\<lparr>bsem_v := 0\<rparr>))"

section \<open>The job queue\<close>

definition job_get :: "64 word \<Rightarrow> pool \<Rightarrow> job outcome" where
  "job_get a p = derefE (job_at p a)"

definition queue_upd :: "(jobqueue \<Rightarrow> jobqueue) \<Rightarrow> pool \<Rightarrow> pool" where
  "queue_upd f p = p\<lparr>tp_queue := f (tp_queue p)\<rparr>"

text \<open>\<open>mem\<close> tells whether \<open>malloc\<close> found memory for the semaphore; the result is 0 or -1.\<close>

definition jobqueue_init :: "bool \<Rightarrow> pool \<Rightarrow> (int \<times> pool) outcome" where
  "jobqueue_init mem p =
     (let p = queue_upd (\<lambda>q. q\<lparr>jq_len := 0, jq_front := 0, jq_rear := 0\<rparr>) p in
      if \<not> mem then Inr (-1, p)
      else bindE (bsem_init 0) (\<lambda>v. Inr (0, queue_upd (\<lambda>q. q\<lparr>has_jobs := v\<rparr>) p)))"

text \<open>\<open>len\<close> is an \<open>int\<close>: counting beyond its range is undefined.\<close>

definition jobqueue_push :: "nat \<Rightarrow> 64 word \<Rightarrow> pool \<Rightarrow> pool outcome" where
  "jobqueue_push c newjob p =
     bindE (job_get newjob p) (\<lambda>j.
     let p = p\<lparr>job_at := (job_at p)(newjob \<mapsto> j\<lparr>job_prev := 0\<rparr>)\<rparr> in
     bindE (if jq_len (tp_queue p) = 0
            then Inr (queue_upd (\<lambda>q. q\<lparr>jq_front := newjob, jq_rear := newjob\<rparr>) p)
            else let rear = jq_rear (tp_queue p) in
              bindE (job_get rear p) (\<lambda>r.
              Inr (queue_upd (\<lambda>q. q\<lparr>jq_rear := newjob\<rparr>) (p\<lparr>job_at := (job_at p)(rear \<mapsto> r\<lparr>job_prev := newjob\<rparr>)\<rparr>)))) (\<lambda>p.
     if 2 ^ 31 \<le> jq_len (tp_queue p) + 1 then Inl (Undefined BadConversion)
     else Inr (queue_upd (\<lambda>q. q\<lparr>jq_len := jq_len q + 1, has_jobs := bsem_post c (has_jobs q)\<rparr>) p)))"

definition jobqueue_pull :: "nat \<Rightarrow> pool \<Rightarrow> (64 word \<times> pool) outcome" where
  "jobqueue_pull c p =
     (let q = tp_queue p; a = jq_front q in
      if jq_len q = 0 then Inr (a, p)
      else if jq_len q = 1 then Inr (a, queue_upd (\<lambda>q. q\<lparr>jq_front := 0, jq_rear := 0, jq_len := 0\<rparr>) p)
      else bindE (job_get a p) (\<lambda>j. Inr (a, queue_upd (\<lambda>q. q\<lparr>jq_front := job_prev j, jq_len := jq_len q - 1,
             has_jobs := bsem_post c (has_jobs q)\<rparr>) p)))"

definition job_free :: "64 word \<Rightarrow> pool \<Rightarrow> pool" where
  "job_free a p = p\<lparr>job_at := (job_at p)(a := None)\<rparr>"

fun jobqueue_clear_loop :: "(nat \<Rightarrow> nat) \<Rightarrow> nat \<Rightarrow> pool \<Rightarrow> pool outcome" where
  "jobqueue_clear_loop c 0 p = Inl Blocked"
| "jobqueue_clear_loop c (Suc n) p =
     (if jq_len (tp_queue p) \<noteq> 0
      then bindE (jobqueue_pull (c n) p) (\<lambda>(a, p). jobqueue_clear_loop c n (job_free a p))
      else Inr p)"

definition jobqueue_clear :: "(nat \<Rightarrow> nat) \<Rightarrow> nat \<Rightarrow> pool \<Rightarrow> pool outcome" where
  "jobqueue_clear c n p =
     bindE (jobqueue_clear_loop c n p) (\<lambda>p.
     bindE bsem_reset (\<lambda>v. Inr (queue_upd (\<lambda>q. q\<lparr>jq_front := 0, jq_rear := 0, has_jobs := v, jq_len := 0\<rparr>) p)))"

section \<open>Workers\<close>

definition set_worker :: "nat \<Rightarrow> worker \<Rightarrow> pool \<Rightarrow> pool" where
  "set_worker i w p = p\<lparr>workers := (workers p)[i := w]\<rparr>"

text \<open>
  The mutexes that a worker locks in its next critical section, in this order, and those it
  holds, which it only does while it is paused inside one.
\<close>

fun next_locks :: "pool \<Rightarrow> worker \<Rightarrow> mutex list" where
  "next_locks p Starting = [Thcount_lock]"
| "next_locks p Counting = [Thcount_lock]"
| "next_locks p Finishing = [Thcount_lock]"
| "next_locks p Leaving = [Thcount_lock]"
| "next_locks p Waiting = [Bsem_mutex]"
| "next_locks p Asleep = [Bsem_mutex]"
| "next_locks p Pulling = (if 1 < jq_len (tp_queue p) then [Rwmutex, Bsem_mutex] else [Rwmutex])"
| "next_locks p w = []"

fun locks_held :: "worker \<Rightarrow> mutex list" where
  "locks_held (Held ms w) = ms"
| "locks_held w = []"

definition locked :: "pool \<Rightarrow> mutex \<Rightarrow> bool" where
  "locked p m \<longleftrightarrow> list_ex (\<lambda>w. m \<in> set (locks_held w)) (workers p)"

text \<open>
  The step of worker \<open>i\<close> once it has its mutexes; \<open>None\<close> while it is blocked or gone. A worker
  that is asleep goes on when it is no longer among the sleepers. When a paused worker
  leaves the handler and another signal is pending, the handler starts again.
\<close>

definition thread_step :: "nat \<Rightarrow> nat \<Rightarrow> pool \<Rightarrow> pool option outcome" where
  "thread_step c i p = (case workers p ! i of
      Starting \<Rightarrow> Inr (Some (set_worker i Testing (p\<lparr>num_threads_alive := num_threads_alive p + 1\<rparr>)))
    | Testing \<Rightarrow> Inr (Some (set_worker i (if threads_keepalive p \<noteq> 0 then Waiting else Leaving) p))
    | Waiting \<Rightarrow> (let (taken, b) = bsem_wait i (has_jobs (tp_queue p)) in
        Inr (Some (set_worker i (if taken then Woken else Asleep) (queue_upd (\<lambda>q. q\<lparr>has_jobs := b\<rparr>) p))))
    | Asleep \<Rightarrow> if i \<in> set (bsem_cond (has_jobs (tp_queue p))) then Inr None
        else (let (taken, b) = bsem_wait i (has_jobs (tp_queue p)) in
          Inr (Some (set_worker i (if taken then Woken else Asleep) (queue_upd (\<lambda>q. q\<lparr>has_jobs := b\<rparr>) p))))
    | Woken \<Rightarrow> Inr (Some (set_worker i (if threads_keepalive p \<noteq> 0 then Counting else Testing) p))
    | Counting \<Rightarrow> Inr (Some (set_worker i Pulling (p\<lparr>num_threads_working := num_threads_working p + 1\<rparr>)))
    | Pulling \<Rightarrow> bindE (jobqueue_pull c p) (\<lambda>(a, p). Inr (Some (set_worker i (Running a) p)))
    | Running a \<Rightarrow>
        if a \<noteq> 0
        then bindE (job_get a p) (\<lambda>j. Inr (Some (set_worker i Finishing
               (job_free a (p\<lparr>calls := calls p @ [(job_function j, job_arg j)]\<rparr>)))))
        else Inr (Some (set_worker i Finishing p))
    | Finishing \<Rightarrow> Inr (Some (set_worker i Testing (p\<lparr>num_threads_working := num_threads_working p - 1\<rparr>)))
    | Leaving \<Rightarrow> Inr (Some (set_worker i Gone (p\<lparr>num_threads_alive := num_threads_alive p - 1\<rparr>)))
    | Gone \<Rightarrow> Inr None
    | Held ms w \<Rightarrow> if threads_on_hold p \<noteq> 0 then Inr None
        else Inr (Some (set_worker i w (case w of Held _ _ \<Rightarrow> p\<lparr>threads_on_hold := 1\<rparr> | _ \<Rightarrow> p))))"

definition thread_do :: "nat \<Rightarrow> nat \<Rightarrow> pool \<Rightarrow> pool option outcome" where
  "thread_do c i p = (if list_ex (locked p) (next_locks p (workers p ! i)) then Inr None else thread_step c i p)"


text \<open>
  The handler of the signal that \<open>thpool_pause\<close> sends: it may start anywhere in \<open>thread_do\<close>, inside
  a critical section with the mutexes \<open>ms\<close> locked as well. It does not interrupt itself: a
  signal that comes while it runs stays pending, and only one does.
\<close>

definition thread_hold :: "mutex list \<Rightarrow> nat \<Rightarrow> pool \<Rightarrow> pool" where
  "thread_hold ms i p = (case workers p ! i of
      Held ms' w \<Rightarrow> (case w of Held _ _ \<Rightarrow> p | _ \<Rightarrow> set_worker i (Held ms' (Held ms' w)) p)
    | w \<Rightarrow> set_worker i (Held ms w) (p\<lparr>threads_on_hold := 1\<rparr>))"

text \<open>\<open>thread_init\<close> with the result of its \<open>malloc\<close>; the new thread is at the start of \<open>thread_do\<close>.\<close>

definition thread_init :: "bool \<Rightarrow> pool \<Rightarrow> int \<times> pool" where
  "thread_init mem p = (if \<not> mem then (-1, p) else (0, p\<lparr>workers := workers p @ [Starting]\<rparr>))"

section \<open>The interface\<close>

text \<open>\<open>thpool_init\<close> up to its busy wait: the memory for the pool, the semaphore, the array and
  each thread. \<open>NULL\<close> is \<open>None\<close>.\<close>

definition fresh_pool :: pool where
  "fresh_pool = \<lparr>job_at = (\<lambda>_. None), tp_queue = \<lparr>jq_front = 0, jq_rear = 0, has_jobs = \<lparr>bsem_v = 0, bsem_cond = []\<rparr>, jq_len = 0\<rparr>,
     num_threads_alive = 0, num_threads_working = 0, threads_keepalive = 1, threads_on_hold = 0,
     workers = [], calls = []\<rparr>"

definition thpool_init :: "bool \<Rightarrow> bool \<Rightarrow> bool \<Rightarrow> (nat \<Rightarrow> bool) \<Rightarrow> int \<Rightarrow> pool option outcome" where
  "thpool_init mem_pool mem_sem mem_array mem_thread num_threads =
     (let num_threads = (if num_threads < 0 then 0 else num_threads) in
      if \<not> mem_pool then Inr None
      else bindE (jobqueue_init mem_sem fresh_pool) (\<lambda>(r, p).
        if r = -1 then Inr None
        else if \<not> mem_array then Inr None
        else Inr (Some (fold (\<lambda>n p. snd (thread_init (mem_thread n) p)) [0..<nat num_threads] p))))"

text \<open>The test of that busy wait.\<close>

definition thpool_init_done :: "int \<Rightarrow> pool \<Rightarrow> bool" where
  "thpool_init_done num_threads p \<longleftrightarrow> num_threads_alive p = (if num_threads < 0 then 0 else num_threads)"

text \<open>
  \<open>newjob\<close> is the result of \<open>malloc\<close>, 0 when it fails. The caller waits while a paused worker
  holds one of the mutexes of \<open>jobqueue_push\<close>.
\<close>

definition thpool_add_work :: "nat \<Rightarrow> 64 word \<Rightarrow> 64 word \<Rightarrow> 64 word \<Rightarrow> pool \<Rightarrow> (int \<times> pool) outcome" where
  "thpool_add_work c newjob function_p arg_p p =
     (if newjob = 0 then Inr (-1, p)
      else if locked p Rwmutex \<or> locked p Bsem_mutex then Inl Blocked
      else bindE (jobqueue_push c newjob
               (p\<lparr>job_at := (job_at p)(newjob \<mapsto> \<lparr>job_prev = 0, job_function = function_p, job_arg = arg_p\<rparr>)\<rparr>)) (\<lambda>p.
           Inr (0, p)))"

text \<open>The test in \<open>thpool_wait\<close>: the caller goes on when it holds.\<close>

definition thpool_wait :: "pool \<Rightarrow> bool" where
  "thpool_wait p \<longleftrightarrow> \<not> (jq_len (tp_queue p) \<noteq> 0 \<or> num_threads_working p \<noteq> 0)"

text \<open>\<open>thpool_destroy\<close>: the flag, one round of either wait loop, its test, and the cleanup.\<close>

definition thpool_destroy_begin :: "pool \<Rightarrow> pool" where
  "thpool_destroy_begin p = p\<lparr>threads_keepalive := 0\<rparr>"

definition thpool_destroy_round :: "pool \<Rightarrow> pool outcome" where
  "thpool_destroy_round p =
     (if locked p Bsem_mutex then Inl Blocked
      else Inr (queue_upd (\<lambda>q. q\<lparr>has_jobs := bsem_post_all (has_jobs q)\<rparr>) p))"

definition thpool_destroy_done :: "pool \<Rightarrow> bool" where
  "thpool_destroy_done p \<longleftrightarrow> num_threads_alive p = 0"

definition thpool_destroy_finish :: "(nat \<Rightarrow> nat) \<Rightarrow> nat \<Rightarrow> pool \<Rightarrow> pool outcome" where
  "thpool_destroy_finish c n p = bindE (jobqueue_clear c n p) (\<lambda>p. Inr (p\<lparr>workers := []\<rparr>))"

definition thpool_pause :: "pool \<Rightarrow> nat list" where
  "thpool_pause p = [0..<nat (num_threads_alive p)]"

definition thpool_resume :: "pool \<Rightarrow> pool" where
  "thpool_resume p = p\<lparr>threads_on_hold := 0\<rparr>"

definition thpool_num_threads_working :: "pool \<Rightarrow> int" where
  "thpool_num_threads_working = num_threads_working"


section \<open>Runs\<close>

text \<open>
  The calls that were added and the calls that were pulled, in order, are recorded beside
  the pool. A step is a step of a worker, a return from \<open>pthread_cond_wait\<close> that nobody
  signalled, a call of \<open>thpool_add_work\<close>, a signal of \<open>thpool_pause\<close>, a resume, or the start and a
  round of \<open>thpool_destroy\<close>.
\<close>

record pool_run =
  the_pool :: pool
  added :: "(64 word \<times> 64 word) list"
  pulled :: "(64 word \<times> 64 word) list"

definition job_call :: "pool \<Rightarrow> 64 word \<Rightarrow> 64 word \<times> 64 word" where
  "job_call p a = (case job_at p a of None \<Rightarrow> (0, 0) | Some j \<Rightarrow> (job_function j, job_arg j))"

definition wake_up :: "nat \<Rightarrow> pool \<Rightarrow> pool" where
  "wake_up i = queue_upd (\<lambda>q. q\<lparr>has_jobs := (has_jobs q)\<lparr>bsem_cond := removeAll i (bsem_cond (has_jobs q))\<rparr>\<rparr>)"

definition pull_record :: "worker \<Rightarrow> pool \<Rightarrow> (64 word \<times> 64 word) list" where
  "pull_record w p = (if w = Pulling \<and> jq_front (tp_queue p) \<noteq> 0 then [job_call p (jq_front (tp_queue p))] else [])"

inductive pool_step :: "pool_run \<Rightarrow> pool_run \<Rightarrow> bool" where
  work: "i < length (workers (the_pool s)) \<Longrightarrow> thread_do c i (the_pool s) = Inr (Some p) \<Longrightarrow>
    pool_step s (s\<lparr>the_pool := p, pulled := pulled s @ pull_record (workers (the_pool s) ! i) (the_pool s)\<rparr>)"
| spurious: "pool_step s (s\<lparr>the_pool := wake_up i (the_pool s)\<rparr>)"
| add: "a \<noteq> 0 \<Longrightarrow> job_at (the_pool s) a = None \<Longrightarrow> thpool_add_work c a f x (the_pool s) = Inr (0, p) \<Longrightarrow>
    pool_step s (s\<lparr>the_pool := p, added := added s @ [(f, x)]\<rparr>)"
| hold: "i < length (workers (the_pool s)) \<Longrightarrow> ms = take m (next_locks (the_pool s) (workers (the_pool s) ! i)) \<Longrightarrow>
    \<not> list_ex (locked (the_pool s)) ms \<Longrightarrow> (i \<in> set (bsem_cond (has_jobs (tp_queue (the_pool s)))) \<Longrightarrow> m = 0) \<Longrightarrow>
    pool_step s (s\<lparr>the_pool := thread_hold ms i (the_pool s)\<rparr>)"
| resume: "pool_step s (s\<lparr>the_pool := thpool_resume (the_pool s)\<rparr>)"
| destroy: "pool_step s (s\<lparr>the_pool := thpool_destroy_begin (the_pool s)\<rparr>)"
| destroy_round: "thpool_destroy_round (the_pool s) = Inr p \<Longrightarrow> pool_step s (s\<lparr>the_pool := p\<rparr>)"

inductive_cases pool_stepE: "pool_step s s'"

section \<open>Invariants\<close>

fun chain :: "(64 word \<Rightarrow> job option) \<Rightarrow> 64 word \<Rightarrow> 64 word list \<Rightarrow> bool" where
  "chain H a [] \<longleftrightarrow> a = 0"
| "chain H a (x # xs) \<longleftrightarrow> a = x \<and> x \<noteq> 0 \<and> (case H x of None \<Rightarrow> False | Some j \<Rightarrow> chain H (job_prev j) xs)"

fun jobs_in :: "worker \<Rightarrow> 64 word list" where
  "jobs_in (Running a) = (if a = 0 then [] else [a])"
| "jobs_in (Held ms w) = jobs_in w"
| "jobs_in w = []"

fun alive_in :: "worker \<Rightarrow> bool" where
  "alive_in Starting = False"
| "alive_in Gone = False"
| "alive_in (Held ms w) = alive_in w"
| "alive_in w = True"

fun working_in :: "worker \<Rightarrow> bool" where
  "working_in Pulling = True"
| "working_in (Running a) = True"
| "working_in Finishing = True"
| "working_in (Held ms w) = working_in w"
| "working_in w = False"

fun pulling_in :: "worker \<Rightarrow> bool" where
  "pulling_in Woken = True"
| "pulling_in Counting = True"
| "pulling_in Pulling = True"
| "pulling_in (Held ms w) = pulling_in w"
| "pulling_in w = False"

fun asleep_in :: "worker \<Rightarrow> bool" where
  "asleep_in Asleep = True"
| "asleep_in (Held ms w) = asleep_in w"
| "asleep_in w = False"

definition running :: "pool \<Rightarrow> 64 word list" where
  "running p = concat (map jobs_in (workers p))"

definition counts_ok :: "pool \<Rightarrow> bool" where
  "counts_ok p \<longleftrightarrow> num_threads_alive p = int (length (filter alive_in (workers p)))
     \<and> num_threads_working p = int (length (filter working_in (workers p)))"

definition token_ok :: "pool \<Rightarrow> bool" where
  "token_ok p \<longleftrightarrow> (jq_len (tp_queue p) \<noteq> 0 \<and> threads_keepalive p \<noteq> 0
     \<longrightarrow> bsem_v (has_jobs (tp_queue p)) = 1 \<or> list_ex pulling_in (workers p))"

text \<open>
  Only workers that are asleep are on the condition variable, and while the semaphore is 1
  and one sleeps, another has been woken and has not looked at the semaphore yet.
\<close>

definition woken_up :: "pool \<Rightarrow> nat \<Rightarrow> bool" where
  "woken_up p i \<longleftrightarrow> i < length (workers p) \<and> asleep_in (workers p ! i) \<and> i \<notin> set (bsem_cond (has_jobs (tp_queue p)))"

definition sleep_ok :: "pool \<Rightarrow> bool" where
  "sleep_ok p \<longleftrightarrow> distinct (bsem_cond (has_jobs (tp_queue p)))
     \<and> (\<forall>i \<in> set (bsem_cond (has_jobs (tp_queue p))). i < length (workers p) \<and> asleep_in (workers p ! i))
     \<and> (bsem_v (has_jobs (tp_queue p)) = 1 \<longrightarrow> bsem_cond (has_jobs (tp_queue p)) = [] \<or> (\<exists>i. woken_up p i))"

definition queue_ok :: "pool \<Rightarrow> 64 word list \<Rightarrow> bool" where
  "queue_ok p js \<longleftrightarrow> chain (job_at p) (jq_front (tp_queue p)) js \<and> jq_rear (tp_queue p) = (if js = [] then 0 else last js)
     \<and> jq_len (tp_queue p) = int (length js) \<and> distinct (js @ running p)
     \<and> list_all (\<lambda>a. a \<noteq> 0 \<and> job_at p a \<noteq> None) (running p)"

definition calls_ok :: "pool_run \<Rightarrow> 64 word list \<Rightarrow> bool" where
  "calls_ok s js \<longleftrightarrow> added s = pulled s @ map (job_call (the_pool s)) js
     \<and> mset (pulled s) = mset (calls (the_pool s)) + mset (map (job_call (the_pool s)) (running (the_pool s)))"

definition pool_inv :: "pool_run \<Rightarrow> bool" where
  "pool_inv s \<longleftrightarrow> counts_ok (the_pool s) \<and> token_ok (the_pool s) \<and> sleep_ok (the_pool s) \<and> (\<exists>js. queue_ok (the_pool s) js \<and> calls_ok s js)"

section \<open>Steps of a worker\<close>

lemma thread_do_SomeD: "thread_do c i p = Inr (Some p') \<Longrightarrow> thread_step c i p = Inr (Some p')"
  by (simp add: thread_do_def split: if_splits)

lemma split_worker:
  fixes p :: pool
  assumes "i < length (workers p)"
  obtains xs ys where "workers p = xs @ workers p ! i # ys" "\<And>w. (workers p)[i := w] = xs @ w # ys"
proof
  show "workers p = take i (workers p) @ workers p ! i # drop (Suc i) (workers p)"
    using assms by (rule id_take_nth_drop)
  show "(workers p)[i := w] = take i (workers p) @ w # drop (Suc i) (workers p)" for w
    using assms by (simp add: upd_conv_take_nth_drop)
qed

lemma workers_simps [simp]:
  "workers (queue_upd f p) = workers p" "workers (job_free a p) = workers p"
  "workers (set_worker i w p) = (workers p)[i := w]"
  "tp_queue (queue_upd f p) = f (tp_queue p)" "tp_queue (job_free a p) = tp_queue p" "tp_queue (set_worker i w p) = tp_queue p"
  "job_at (queue_upd f p) = job_at p" "job_at (job_free a p) = (job_at p)(a := None)" "job_at (set_worker i w p) = job_at p"
  "threads_keepalive (queue_upd f p) = threads_keepalive p" "threads_keepalive (job_free a p) = threads_keepalive p"
  "threads_keepalive (set_worker i w p) = threads_keepalive p"
  "num_threads_alive (queue_upd f p) = num_threads_alive p" "num_threads_alive (job_free a p) = num_threads_alive p"
  "num_threads_alive (set_worker i w p) = num_threads_alive p"
  "num_threads_working (queue_upd f p) = num_threads_working p" "num_threads_working (job_free a p) = num_threads_working p"
  "num_threads_working (set_worker i w p) = num_threads_working p"
  "calls (queue_upd f p) = calls p" "calls (job_free a p) = calls p" "calls (set_worker i w p) = calls p"
  by (simp_all add: queue_upd_def job_free_def set_worker_def)

lemma pull_frame:
  assumes "jobqueue_pull c p = Inr (a, p')"
  shows "a = jq_front (tp_queue p)" "workers p' = workers p" "threads_keepalive p' = threads_keepalive p" "job_at p' = job_at p"
    "num_threads_alive p' = num_threads_alive p" "num_threads_working p' = num_threads_working p" "calls p' = calls p"
  using assms by (auto simp: jobqueue_pull_def Let_def split: if_splits)

lemma count_update:
  "i < length ws \<Longrightarrow> int (length (filter P (ws[i := w])))
     = int (length (filter P ws)) - of_bool (P (ws ! i)) + of_bool (P w)"
proof -
  assume i: "i < length ws"
  have "ws = take i ws @ ws ! i # drop (Suc i) ws"
    using i by (rule id_take_nth_drop)
  then have "length (filter P ws) = length (filter P (take i ws @ ws ! i # drop (Suc i) ws))"
    by simp
  then show ?thesis
    using i by (simp add: upd_conv_take_nth_drop)
qed

lemma counts_work:
  assumes c: "counts_ok p" and i: "i < length (workers p)" and step: "thread_step c i p = Inr (Some p')"
  shows "counts_ok p'"
proof (cases "workers p ! i")
  case Pulling
  then obtain a p1 where "jobqueue_pull c p = Inr (a, p1)" "p' = set_worker i (Running a) p1"
    using step by (auto simp: thread_step_def)
  then show ?thesis
    using c i pull_frame [of _ p a p1] Pulling by (simp add: counts_ok_def count_update)
next
  case (Running a)
  then show ?thesis
    using c i step by (auto simp: counts_ok_def thread_step_def count_update split: if_splits)
qed (use c i step in \<open>auto simp: counts_ok_def thread_step_def count_update split: if_splits prod.splits worker.splits\<close>)

lemma token_work:
  assumes t: "token_ok p" and i: "i < length (workers p)" and step: "thread_step c i p = Inr (Some p')"
  shows "token_ok p'"
proof -
  obtain xs ys where ws: "workers p = xs @ workers p ! i # ys" and upd: "\<And>w. (workers p)[i := w] = xs @ w # ys"
    using i by (rule split_worker) blast
  have ex: "list_ex pulling_in (workers p) \<longleftrightarrow> list_ex pulling_in xs \<or> pulling_in (workers p ! i) \<or> list_ex pulling_in ys"
    by (subst ws) simp
  note defs = token_ok_def thread_step_def upd ex
  show ?thesis
  proof (cases "workers p ! i")
    case Waiting
    then show ?thesis
      using t step by (auto simp: defs bsem_wait_def split: if_splits)
  next
    case Asleep
    then show ?thesis
      using t step by (auto simp: defs bsem_wait_def split: if_splits)
  next
    case Pulling
    then obtain a p1 where p1: "jobqueue_pull c p = Inr (a, p1)" "p' = set_worker i (Running a) p1"
      using step by (auto simp: thread_step_def)
    have "jq_len (tp_queue p1) = 0 \<or> bsem_v (has_jobs (tp_queue p1)) = 1"
      using p1(1) by (auto simp: jobqueue_pull_def bsem_post_def Let_def split: if_splits)
    then show ?thesis
      using p1(2) by (auto simp: token_ok_def)
  qed (use t step in \<open>auto simp: defs split: if_splits worker.splits\<close>)
qed

text \<open>The sleepers: steps that leave the semaphore alone, and a post.\<close>

lemma sleep_frame:
  assumes "sleep_ok p" "has_jobs (tp_queue p') = has_jobs (tp_queue p)" "length (workers p') = length (workers p)"
    and "\<forall>j < length (workers p). asleep_in (workers p' ! j) = asleep_in (workers p ! j)"
  shows "sleep_ok p'"
  using assms by (auto simp: sleep_ok_def woken_up_def)

lemma signal_one:
  assumes "distinct ts" "ts \<noteq> []"
  shows "\<exists>t \<in> set ts. distinct (cond_signal_one c ts) \<and> set (cond_signal_one c ts) = set ts - {t}"
proof (intro bexI conjI)
  let ?k = "c mod length ts"
  have k: "?k < length ts"
    using assms(2) by simp
  have ts: "ts = take ?k ts @ ts ! ?k # drop (Suc ?k) ts"
    using k by (rule id_take_nth_drop)
  have d: "distinct (take ?k ts @ ts ! ?k # drop (Suc ?k) ts)" "set ts = set (take ?k ts @ ts ! ?k # drop (Suc ?k) ts)"
    using assms(1) ts by simp_all
  show "ts ! ?k \<in> set ts"
    using k by simp
  show "distinct (cond_signal_one c ts)"
    using d(1) by (simp add: cond_signal_one_def Let_def)
  show "set (cond_signal_one c ts) = set ts - {ts ! ?k}"
    unfolding d(2) using d(1) by (auto simp: cond_signal_one_def Let_def)
qed

lemma sleep_post:
  assumes ok: "sleep_ok p" and p': "has_jobs (tp_queue p') = bsem_post c (has_jobs (tp_queue p))"
    and len: "length (workers p') = length (workers p)"
    and same: "\<forall>j < length (workers p). asleep_in (workers p' ! j) = asleep_in (workers p ! j)"
  shows "sleep_ok p'"
proof (cases "bsem_cond (has_jobs (tp_queue p)) = []")
  case True
  then show ?thesis
    using ok p' by (simp add: sleep_ok_def bsem_post_def cond_signal_one_def)
next
  case False
  let ?ts = "bsem_cond (has_jobs (tp_queue p))"
  have d: "distinct ?ts" "\<forall>j \<in> set ?ts. j < length (workers p) \<and> asleep_in (workers p ! j)"
    using ok by (auto simp: sleep_ok_def)
  obtain t where t: "t \<in> set ?ts" "distinct (cond_signal_one c ?ts)" "set (cond_signal_one c ?ts) = set ?ts - {t}"
    using signal_one [OF d(1) False] by blast
  have c: "bsem_cond (has_jobs (tp_queue p')) = cond_signal_one c ?ts"
    using p' by (simp add: bsem_post_def)
  have "woken_up p' t"
    using t(1,3) d(2) len same by (simp add: woken_up_def c)
  then show ?thesis
    using t d(2) len same by (auto simp: sleep_ok_def c)
qed

lemma sleep_take:
  assumes ok: "sleep_ok p" and i: "i < length (workers p)" "i \<notin> set (bsem_cond (has_jobs (tp_queue p)))"
    and b: "bsem_wait i (has_jobs (tp_queue p)) = (taken, b)"
  shows "sleep_ok (set_worker i (if taken then Woken else Asleep) (queue_upd (\<lambda>q. q\<lparr>has_jobs := b\<rparr>) p))"
proof (cases "bsem_v (has_jobs (tp_queue p)) = 1")
  case True
  then have "taken" "bsem_v b = 0" "bsem_cond b = bsem_cond (has_jobs (tp_queue p))"
    using b by (auto simp: bsem_wait_def)
  then show ?thesis
    using ok i by (auto simp: sleep_ok_def nth_list_update)
next
  case False
  then have "\<not> taken" "bsem_v b \<noteq> 1" "bsem_cond b = bsem_cond (has_jobs (tp_queue p)) @ [i]"
    using b by (auto simp: bsem_wait_def)
  then show ?thesis
    using ok i by (auto simp: sleep_ok_def nth_list_update)
qed

lemma sleep_work:
  assumes ok: "sleep_ok p" and i: "i < length (workers p)" and step: "thread_step c i p = Inr (Some p')"
  shows "sleep_ok p'"
proof (cases "workers p ! i")
  case Waiting
  then have "i \<notin> set (bsem_cond (has_jobs (tp_queue p)))"
    using ok by (auto simp: sleep_ok_def)
  then show ?thesis
    using sleep_take [OF ok i] step Waiting by (auto simp: thread_step_def split: prod.splits)
next
  case Asleep
  then show ?thesis
    using sleep_take [OF ok i] step by (auto simp: thread_step_def split: prod.splits if_splits)
next
  case Pulling
  then obtain a p1 where p1: "jobqueue_pull c p = Inr (a, p1)" "p' = set_worker i (Running a) p1"
    using step by (auto simp: thread_step_def)
  have w: "length (workers p') = length (workers p)" "\<forall>j < length (workers p). asleep_in (workers p' ! j) = asleep_in (workers p ! j)"
    using p1 pull_frame(2) [OF p1(1)] Pulling i by (auto simp: nth_list_update)
  have "has_jobs (tp_queue p') = has_jobs (tp_queue p) \<or> has_jobs (tp_queue p') = bsem_post c (has_jobs (tp_queue p))"
    using p1 by (auto simp: jobqueue_pull_def Let_def split: if_splits)
  then show ?thesis
    using sleep_frame [OF ok _ w] sleep_post [OF ok _ w] by blast
next
  case (Running a)
  then show ?thesis
    using ok i step by (intro sleep_frame [OF ok]) (auto simp: thread_step_def nth_list_update split: if_splits)
next
  case (Held ms w)
  then show ?thesis
    using ok i step by (intro sleep_frame [OF ok]) (auto simp: thread_step_def nth_list_update split: if_splits worker.splits)
qed (use i step in \<open>auto simp: thread_step_def nth_list_update intro!: sleep_frame [OF ok] split: if_splits\<close>)

lemma chain_frame: "\<forall>x \<in> set xs. H' x = H x \<Longrightarrow> chain H' a xs = chain H a xs"
  by (induction xs arbitrary: a) (auto split: option.split)

lemma chain_mem: "chain H a xs \<Longrightarrow> x \<in> set xs \<Longrightarrow> x \<noteq> 0 \<and> H x \<noteq> None"
  by (induction xs arbitrary: a) (auto split: option.splits)

lemma chain_snoc:
  assumes "chain H a xs" "xs \<noteq> []" "distinct xs" "new \<notin> set xs" "new \<noteq> 0" "H (last xs) = Some r" "job_prev j = 0"
  shows "chain (H(new \<mapsto> j, last xs \<mapsto> r\<lparr>job_prev := new\<rparr>)) a (xs @ [new])"
  using assms
proof (induction xs arbitrary: a)
  case (Cons x xs)
  show ?case
  proof (cases "xs = []")
    case True
    then show ?thesis
      using Cons.prems by auto
  next
    case False
    then have "last xs \<noteq> x"
      using Cons.prems(3) by (metis distinct.simps(2) last_in_set)
    then show ?thesis
      using Cons False by (auto split: option.splits)
  qed
qed simp

text \<open>Steps that touch neither the queue nor the jobs.\<close>

lemma jobs_frame:
  assumes "queue_ok p js" "calls_ok s js" "the_pool s = p" "job_at p' = job_at p"
    and "jq_front (tp_queue p') = jq_front (tp_queue p)" "jq_rear (tp_queue p') = jq_rear (tp_queue p)"
      "jq_len (tp_queue p') = jq_len (tp_queue p)"
    and "running p' = running p" "calls p' = calls p"
  shows "queue_ok p' js \<and> calls_ok (s\<lparr>the_pool := p'\<rparr>) js"
proof -
  have "job_call p' = job_call p"
    using assms(4) by (simp add: fun_eq_iff job_call_def)
  then show ?thesis
    using assms by (simp add: queue_ok_def calls_ok_def)
qed

lemma running_split:
  assumes "workers p = xs @ w # ys"
  shows "running p = concat (map jobs_in xs) @ jobs_in w @ concat (map jobs_in ys)"
  using assms by (simp add: running_def)

lemma jobs_pull:
  assumes q: "queue_ok p js" and c: "calls_ok s js" and p: "the_pool s = p" and i: "i < length (workers p)"
    and w: "workers p ! i = Pulling" and pull: "jobqueue_pull c p = Inr (a, p1)"
  shows "\<exists>js'. queue_ok (set_worker i (Running a) p1) js'
    \<and> calls_ok (s\<lparr>the_pool := set_worker i (Running a) p1, pulled := pulled s @ pull_record Pulling p\<rparr>) js'"
proof -
  obtain xs ys where ws: "workers p = xs @ workers p ! i # ys" and upd: "\<And>w. (workers p)[i := w] = xs @ w # ys"
    using i by (rule split_worker) blast
  let ?p = "set_worker i (Running a) p1"
  let ?r1 = "concat (map jobs_in xs)" and ?r2 = "concat (map jobs_in ys)"
  note frame = pull_frame [OF pull]
  have r: "running p = ?r1 @ ?r2"
    using running_split [OF ws] w by simp
  have r': "running ?p = ?r1 @ (if a = 0 then [] else [a]) @ ?r2"
    using frame(2) by (simp add: running_def upd)
  have call: "job_call ?p = job_call p"
    using frame(4) by (simp add: fun_eq_iff job_call_def)
  show ?thesis
  proof (cases js)
    case Nil
    then have "a = 0" "p1 = p" "pull_record Pulling p = []"
      using q pull by (auto simp: queue_ok_def jobqueue_pull_def pull_record_def Let_def)
    then show ?thesis
      using q c p r r' call Nil by (intro exI [of _ "[]"]) (simp add: queue_ok_def calls_ok_def)
  next
    case (Cons x js1)
    have x: "jq_front (tp_queue p) = x" "x \<noteq> 0" and a: "a = x"
      using q frame(1) by (simp_all add: queue_ok_def Cons)
    obtain j where j: "job_at p x = Some j" "chain (job_at p) (job_prev j) js1"
      using q by (auto simp: queue_ok_def Cons split: option.splits)
    have pr: "pull_record Pulling p = [job_call p x]"
      using x by (simp add: pull_record_def)
    have "chain (job_at p) (jq_front (tp_queue p1)) js1 \<and> jq_rear (tp_queue p1) = (if js1 = [] then 0 else last js1)
        \<and> jq_len (tp_queue p1) = int (length js1)"
      using pull q j x by (cases js1) (auto simp: jobqueue_pull_def queue_ok_def Cons job_get_def Let_def)
    moreover have "distinct (js1 @ running ?p)" "list_all (\<lambda>a. a \<noteq> 0 \<and> job_at p a \<noteq> None) (running ?p)"
      using q r r' a x(2) j(1) by (auto simp: queue_ok_def Cons)
    ultimately have "queue_ok ?p js1"
      using frame(4) by (simp add: queue_ok_def)
    moreover have "calls_ok (s\<lparr>the_pool := ?p, pulled := pulled s @ pull_record Pulling p\<rparr>) js1"
      using c p call r r' a x(2) frame(7) by (simp add: calls_ok_def pr Cons)
    ultimately show ?thesis
      by blast
  qed
qed

lemma jobs_run:
  assumes q: "queue_ok p js" and c: "calls_ok s js" and p: "the_pool s = p" and i: "i < length (workers p)"
    and w: "workers p ! i = Running a" and a: "a \<noteq> 0" "job_at p a = Some j"
  defines "p' \<equiv> set_worker i Finishing (job_free a (p\<lparr>calls := calls p @ [(job_function j, job_arg j)]\<rparr>))"
  shows "queue_ok p' js \<and> calls_ok (s\<lparr>the_pool := p'\<rparr>) js"
proof -
  obtain xs ys where ws: "workers p = xs @ workers p ! i # ys" and upd: "\<And>w. (workers p)[i := w] = xs @ w # ys"
    using i by (rule split_worker) blast
  let ?r1 = "concat (map jobs_in xs)" and ?r2 = "concat (map jobs_in ys)"
  have r: "running p = ?r1 @ a # ?r2"
    using running_split [OF ws] w a by simp
  have r': "running p' = ?r1 @ ?r2"
    by (simp add: running_def upd p'_def)
  have H: "job_at p' = (job_at p)(a := None)"
    by (simp add: p'_def)
  have off: "a \<notin> set js" "a \<notin> set (running p')"
    using q r r' by (auto simp: queue_ok_def)
  then have call: "map (job_call p') js = map (job_call p) js" "map (job_call p') (running p') = map (job_call p) (running p')"
    using H by (auto simp: job_call_def)
  have "chain (job_at p') (jq_front (tp_queue p)) js"
    using q off(1) chain_frame [of js "job_at p'" "job_at p"] H by (auto simp: queue_ok_def)
  moreover have "list_all (\<lambda>a. a \<noteq> 0 \<and> job_at p' a \<noteq> None) (running p')"
    using q r r' off(2) H by (auto simp: queue_ok_def list_all_iff)
  ultimately have ok: "queue_ok p' js"
    using q r r' by (auto simp: queue_ok_def p'_def)
  have "job_call p a = (job_function j, job_arg j)"
    using a by (simp add: job_call_def)
  then have "image_mset (job_call p) (mset (running p)) = add_mset (job_function j, job_arg j) (image_mset (job_call p) (mset (running p')))"
    using r r' by simp
  moreover have "image_mset (job_call p') (mset (running p')) = image_mset (job_call p) (mset (running p'))"
    using call(2) by (metis mset_map)
  moreover have "calls p' = calls p @ [(job_function j, job_arg j)]"
    by (simp add: p'_def)
  ultimately have "calls_ok (s\<lparr>the_pool := p'\<rparr>) js"
    using c p call(1) by (simp add: calls_ok_def)
  then show ?thesis
    using ok by blast
qed

lemma jobs_work:
  assumes q: "queue_ok p js" and c: "calls_ok s js" and p: "the_pool s = p" and i: "i < length (workers p)"
    and step: "thread_step c i p = Inr (Some p')"
  shows "\<exists>js'. queue_ok p' js' \<and> calls_ok (s\<lparr>the_pool := p', pulled := pulled s @ pull_record (workers p ! i) p\<rparr>) js'"
proof -
  obtain xs ys where ws: "workers p = xs @ workers p ! i # ys" and upd: "\<And>w. (workers p)[i := w] = xs @ w # ys"
    using i by (rule split_worker) blast
  have frame: ?thesis
    if "workers p ! i \<noteq> Pulling" "jobs_in (workers p ! i) = jobs_in w" "p' = set_worker i w p1" "workers p1 = workers p" "job_at p1 = job_at p"
      "jq_front (tp_queue p1) = jq_front (tp_queue p)" "jq_rear (tp_queue p1) = jq_rear (tp_queue p)"
      "jq_len (tp_queue p1) = jq_len (tp_queue p)" "calls p1 = calls p" for w p1
  proof -
    have "running p' = running p"
      using that(2-4) running_split [OF ws] by (simp add: running_def upd)
    then have "queue_ok p' js \<and> calls_ok (s\<lparr>the_pool := p'\<rparr>) js"
      using that by (intro jobs_frame [OF q c p]) simp_all
    then show ?thesis
      using that(1) by (auto simp: pull_record_def)
  qed
  show ?thesis
  proof (cases "workers p ! i")
    case Waiting
    obtain taken b where b: "bsem_wait i (has_jobs (tp_queue p)) = (taken, b)"
      by fastforce
    show ?thesis
      using step Waiting b by (intro frame [of "if taken then Woken else Asleep" "queue_upd (\<lambda>q. q\<lparr>has_jobs := b\<rparr>) p"])
        (auto simp: thread_step_def)
  next
    case Asleep
    obtain taken b where b: "bsem_wait i (has_jobs (tp_queue p)) = (taken, b)"
      by fastforce
    show ?thesis
      using step Asleep b by (intro frame [of "if taken then Woken else Asleep" "queue_upd (\<lambda>q. q\<lparr>has_jobs := b\<rparr>) p"])
        (auto simp: thread_step_def split: if_splits)
  next
    case Pulling
    then obtain a p1 where "jobqueue_pull c p = Inr (a, p1)" "p' = set_worker i (Running a) p1"
      using step by (auto simp: thread_step_def)
    then show ?thesis
      using jobs_pull [OF q c p i Pulling] Pulling by simp
  next
    case (Running a)
    show ?thesis
    proof (cases "a = 0")
      case True
      then show ?thesis
        using step Running by (intro frame [of Finishing p]) (auto simp: thread_step_def)
    next
      case False
      then obtain j where j: "job_at p a = Some j"
        using q running_split [OF ws] Running by (auto simp: queue_ok_def)
      then have "p' = set_worker i Finishing (job_free a (p\<lparr>calls := calls p @ [(job_function j, job_arg j)]\<rparr>))"
        using step Running False by (auto simp: thread_step_def job_get_def)
      then show ?thesis
        using jobs_run [OF q c p i Running False j] Running by (auto simp: pull_record_def)
    qed
  next
    case Starting
    then show ?thesis
      using step by (intro frame [of Testing "p\<lparr>num_threads_alive := num_threads_alive p + 1\<rparr>"]) (auto simp: thread_step_def)
  next
    case Counting
    then show ?thesis
      using step by (intro frame [of Pulling "p\<lparr>num_threads_working := num_threads_working p + 1\<rparr>"]) (auto simp: thread_step_def)
  next
    case Testing
    then show ?thesis
      using step by (intro frame [of "if threads_keepalive p \<noteq> 0 then Waiting else Leaving" p]) (auto simp: thread_step_def)
  next
    case Woken
    then show ?thesis
      using step by (intro frame [of "if threads_keepalive p \<noteq> 0 then Counting else Testing" p]) (auto simp: thread_step_def)
  next
    case Finishing
    then show ?thesis
      using step by (intro frame [of Testing "p\<lparr>num_threads_working := num_threads_working p - 1\<rparr>"]) (auto simp: thread_step_def)
  next
    case Leaving
    then show ?thesis
      using step by (intro frame [of Gone "p\<lparr>num_threads_alive := num_threads_alive p - 1\<rparr>"]) (auto simp: thread_step_def)
  next
    case (Held ms w)
    then show ?thesis
      using step by (intro frame [of w "case w of Held _ _ \<Rightarrow> p\<lparr>threads_on_hold := 1\<rparr> | _ \<Rightarrow> p"])
        (auto simp: thread_step_def split: if_splits worker.splits)
  next
    case Gone
    then show ?thesis
      using step by (simp add: thread_step_def)
  qed
qed


section \<open>Steps of the callers\<close>

lemma add_work_effect:
  assumes q: "queue_ok p js" and a: "a \<noteq> 0" "job_at p a = None"
    and free: "\<not> locked p Rwmutex" "\<not> locked p Bsem_mutex" "jq_len (tp_queue p) + 1 < 2 ^ 31"
  shows "\<exists>p'. thpool_add_work c a f x p = Inr (0, p') \<and> queue_ok p' (js @ [a]) \<and> has_jobs (tp_queue p') = bsem_post c (has_jobs (tp_queue p))
    \<and> workers p' = workers p \<and> calls p' = calls p \<and> threads_keepalive p' = threads_keepalive p
    \<and> num_threads_alive p' = num_threads_alive p \<and> num_threads_working p' = num_threads_working p
    \<and> job_call p' a = (f, x) \<and> (\<forall>b. b \<noteq> a \<longrightarrow> job_call p' b = job_call p b)"
proof -
  let ?j = "\<lparr>job_prev = 0, job_function = f, job_arg = x\<rparr>"
  let ?H = "(job_at p)(a \<mapsto> ?j)"
  have js: "chain (job_at p) (jq_front (tp_queue p)) js" "distinct js" "a \<notin> set js" "a \<notin> set (running p)"
    using q a chain_mem [of "job_at p" "jq_front (tp_queue p)" js a] by (auto simp: queue_ok_def list_all_iff)
  show ?thesis
  proof (cases "js = []")
    case True
    define p' where "p' = p\<lparr>job_at := ?H, tp_queue := (tp_queue p)\<lparr>jq_front := a, jq_rear := a, jq_len := 1, has_jobs := bsem_post c (has_jobs (tp_queue p))\<rparr>\<rparr>"
    have "thpool_add_work c a f x p = Inr (0, p')"
      using q a(1) True free
      by (simp add: thpool_add_work_def jobqueue_push_def job_get_def queue_upd_def queue_ok_def p'_def)
    moreover have "running p' = running p"
      by (simp add: running_def p'_def)
    then have "queue_ok p' (js @ [a])"
      using q a js True by (auto simp: queue_ok_def p'_def list_all_iff)
    ultimately show ?thesis
      by (intro exI [of _ p']) (simp add: p'_def job_call_def)
  next
    case False
    let ?l = "last js"
    have "?l \<in> set js"
      using False by simp
    then obtain r where r: "job_at p ?l = Some r" "?l \<noteq> a" "?l \<notin> set (running p)"
      using chain_mem [OF js(1), of ?l] js(3) q by (auto simp: queue_ok_def)
    define p' where "p' = p\<lparr>job_at := ?H(?l \<mapsto> r\<lparr>job_prev := a\<rparr>),
      tp_queue := (tp_queue p)\<lparr>jq_rear := a, jq_len := jq_len (tp_queue p) + 1, has_jobs := bsem_post c (has_jobs (tp_queue p))\<rparr>\<rparr>"
    have "thpool_add_work c a f x p = Inr (0, p')"
      using q a(1) False r free
      by (simp add: thpool_add_work_def jobqueue_push_def job_get_def queue_upd_def queue_ok_def p'_def)
    moreover have "running p' = running p"
      by (simp add: running_def p'_def)
    moreover have "chain (job_at p') (jq_front (tp_queue p)) (js @ [a])"
      using chain_snoc [OF js(1) False js(2,3) a(1) r(1), of ?j] by (simp add: p'_def)
    moreover have "list_all (\<lambda>b. b \<noteq> 0 \<and> job_at p' b \<noteq> None) (running p)"
      using q by (auto simp: queue_ok_def list_all_iff p'_def)
    ultimately have "thpool_add_work c a f x p = Inr (0, p') \<and> queue_ok p' (js @ [a])"
      using q js by (simp add: queue_ok_def) (simp add: p'_def)
    then show ?thesis
      using r by (intro exI [of _ p']) (auto simp: p'_def job_call_def)
  qed
qed

lemma add_work_free:
  assumes "thpool_add_work c a f x p = Inr (0, p')" "a \<noteq> 0"
  shows "\<not> locked p Rwmutex \<and> \<not> locked p Bsem_mutex \<and> jq_len (tp_queue p) + 1 < 2 ^ 31"
  using assms by (auto simp: thpool_add_work_def jobqueue_push_def queue_upd_def Let_def split: if_splits)

text \<open>Steps that leave the jobs, the counters and the flag alone.\<close>

lemma pool_inv_frame:
  assumes inv: "pool_inv s" and p': "running p' = running (the_pool s)" "job_at p' = job_at (the_pool s)"
      "calls p' = calls (the_pool s)" "jq_front (tp_queue p') = jq_front (tp_queue (the_pool s))"
      "jq_rear (tp_queue p') = jq_rear (tp_queue (the_pool s))" "jq_len (tp_queue p') = jq_len (tp_queue (the_pool s))"
    and "counts_ok p'" "token_ok p'" "sleep_ok p'"
  shows "pool_inv (s\<lparr>the_pool := p'\<rparr>)"
proof -
  obtain js where "queue_ok (the_pool s) js" "calls_ok s js"
    using inv by (auto simp: pool_inv_def)
  from jobs_frame [OF this refl p'(2,4-6,1,3)] show ?thesis
    using assms(8-10) by (auto simp: pool_inv_def)
qed

lemma hold_frame:
  assumes "i < length (workers p)"
  shows "running (thread_hold ms i p) = running p" "counts_ok p \<Longrightarrow> counts_ok (thread_hold ms i p)"
    "token_ok p \<Longrightarrow> token_ok (thread_hold ms i p)" "sleep_ok p \<Longrightarrow> sleep_ok (thread_hold ms i p)"
    "job_at (thread_hold ms i p) = job_at p" "calls (thread_hold ms i p) = calls p" "tp_queue (thread_hold ms i p) = tp_queue p"
    "length (workers (thread_hold ms i p)) = length (workers p)"
proof -
  obtain xs ys where ws: "workers p = xs @ workers p ! i # ys" and upd: "\<And>w. (workers p)[i := w] = xs @ w # ys"
    using assms by (rule split_worker) blast
  obtain w p0 where h: "thread_hold ms i p = set_worker i w p0" "p0 = p \<or> p0 = p\<lparr>threads_on_hold := 1\<rparr>"
    and w: "jobs_in w = jobs_in (workers p ! i)" "alive_in w = alive_in (workers p ! i)" "working_in w = working_in (workers p ! i)"
      "pulling_in w = pulling_in (workers p ! i)" "asleep_in w = asleep_in (workers p ! i)"
  proof (cases "\<exists>ms' ms'' w. workers p ! i = Held ms' (Held ms'' w)")
    case True
    then have "thread_hold ms i p = set_worker i (workers p ! i) p"
      by (auto simp: thread_hold_def set_worker_def list_update_id [symmetric])
    then show ?thesis
      using that by blast
  next
    case False
    then show ?thesis
      using that [of "case workers p ! i of Held ms' w \<Rightarrow> Held ms' (Held ms' w) | w \<Rightarrow> Held ms w"
          "case workers p ! i of Held ms' w \<Rightarrow> p | w \<Rightarrow> p\<lparr>threads_on_hold := 1\<rparr>"]
      by (auto simp: thread_hold_def split: worker.splits)
  qed
  have ex: "list_ex pulling_in (workers p) \<longleftrightarrow> list_ex pulling_in (xs @ w # ys)"
    by (subst ws) (simp add: w(4))
  have p0: "workers p0 = workers p" "tp_queue p0 = tp_queue p" "job_at p0 = job_at p" "calls p0 = calls p"
    "num_threads_alive p0 = num_threads_alive p" "num_threads_working p0 = num_threads_working p" "threads_keepalive p0 = threads_keepalive p"
    using h(2) by auto
  show "running (thread_hold ms i p) = running p"
    using running_split [OF ws] by (simp add: h(1) running_def p0 upd w(1))
  show "counts_ok p \<Longrightarrow> counts_ok (thread_hold ms i p)"
    using assms by (simp add: counts_ok_def h(1) p0 count_update w(2,3))
  show "token_ok p \<Longrightarrow> token_ok (thread_hold ms i p)"
    using ex by (simp add: token_ok_def h(1) p0 upd)
  show "sleep_ok p \<Longrightarrow> sleep_ok (thread_hold ms i p)"
    by (erule sleep_frame) (use assms in \<open>auto simp: h(1) p0 w(5) nth_list_update\<close>)
  show "job_at (thread_hold ms i p) = job_at p" "calls (thread_hold ms i p) = calls p" "tp_queue (thread_hold ms i p) = tp_queue p"
    "length (workers (thread_hold ms i p)) = length (workers p)"
    by (simp_all add: h(1) p0)
qed

lemma wake_up_frame:
  shows "running (wake_up i p) = running p" "counts_ok p \<Longrightarrow> counts_ok (wake_up i p)" "token_ok p \<Longrightarrow> token_ok (wake_up i p)"
    "job_at (wake_up i p) = job_at p" "calls (wake_up i p) = calls p" "workers (wake_up i p) = workers p"
    "jq_front (tp_queue (wake_up i p)) = jq_front (tp_queue p)" "jq_rear (tp_queue (wake_up i p)) = jq_rear (tp_queue p)"
    "jq_len (tp_queue (wake_up i p)) = jq_len (tp_queue p)" "threads_keepalive (wake_up i p) = threads_keepalive p"
  by (simp_all add: wake_up_def running_def counts_ok_def token_ok_def)

lemma sleep_wake_up: "sleep_ok p \<Longrightarrow> sleep_ok (wake_up i p)"
proof -
  assume ok: "sleep_ok p"
  have "woken_up p j \<Longrightarrow> woken_up (wake_up i p) j" for j
    by (simp add: woken_up_def wake_up_def)
  then show ?thesis
    using ok by (auto simp: sleep_ok_def wake_up_def distinct_removeAll)
qed

lemma sleep_post_all: "sleep_ok p \<Longrightarrow> thpool_destroy_round p = Inr p' \<Longrightarrow> sleep_ok p'"
  by (auto simp: thpool_destroy_round_def sleep_ok_def bsem_post_all_def split: if_splits)

lemma pool_inv_step: "pool_inv s \<Longrightarrow> pool_step s s' \<Longrightarrow> pool_inv s'"
proof -
  assume inv: "pool_inv s" and step: "pool_step s s'"
  obtain js where ok: "counts_ok (the_pool s)" "token_ok (the_pool s)" "queue_ok (the_pool s) js" "calls_ok s js" "sleep_ok (the_pool s)"
    using inv by (auto simp: pool_inv_def)
  from step show ?thesis
  proof cases
    case (work i c p)
    note t = thread_do_SomeD [OF work(3)]
    show ?thesis
      using counts_work [OF ok(1) work(2) t] token_work [OF ok(2) work(2) t] sleep_work [OF ok(5) work(2) t]
        jobs_work [OF ok(3,4) refl work(2) t] by (auto simp: pool_inv_def work(1))
  next
    case (spurious i)
    then show ?thesis
      using wake_up_frame [where i = i and p = "the_pool s"] sleep_wake_up [OF ok(5), of i] ok by (auto intro!: pool_inv_frame [OF inv])
  next
    case (add a c f x p)
    obtain p' where p': "thpool_add_work c a f x (the_pool s) = Inr (0, p')" "queue_ok p' (js @ [a])"
      "has_jobs (tp_queue p') = bsem_post c (has_jobs (tp_queue (the_pool s)))"
      "workers p' = workers (the_pool s)" "calls p' = calls (the_pool s)" "num_threads_alive p' = num_threads_alive (the_pool s)"
      "num_threads_working p' = num_threads_working (the_pool s)" "job_call p' a = (f, x)" "\<forall>b. b \<noteq> a \<longrightarrow> job_call p' b = job_call (the_pool s) b"
      using add_work_effect [OF ok(3) add(2,3), of c f x] add_work_free [OF add(4,2)] by blast
    then have p: "p = p'"
      using add(4) by simp
    have r: "running p' = running (the_pool s)"
      using p'(4) by (simp add: running_def)
    have off: "a \<notin> set js" "a \<notin> set (running (the_pool s))"
      using p'(2) r by (auto simp: queue_ok_def)
    have "map (job_call p') js = map (job_call (the_pool s)) js"
      "map (job_call p') (running (the_pool s)) = map (job_call (the_pool s)) (running (the_pool s))"
      using off p'(9) by (metis (mono_tags, lifting) map_eq_conv)+
    then have "calls_ok s' (js @ [a])"
      using ok(4) p' r by (simp add: calls_ok_def add(1) p del: mset_map map_eq_conv)
    moreover have "counts_ok p" "token_ok p"
      using ok(1) p' by (simp_all add: counts_ok_def token_ok_def bsem_post_def p)
    moreover have "sleep_ok p"
      using p'(3,4) by (intro sleep_post [OF ok(5)]) (simp_all add: p)
    ultimately show ?thesis
      using p'(2) by (auto simp: pool_inv_def add(1) p)
  next
    case (hold i ms m)
    then show ?thesis
      using hold_frame [OF hold(2)] ok by (auto intro!: pool_inv_frame [OF inv])
  next
    case resume
    then show ?thesis
      using ok by (auto intro!: pool_inv_frame [OF inv] intro: sleep_frame [OF ok(5)]
          simp: thpool_resume_def running_def counts_ok_def token_ok_def)
  next
    case destroy
    then show ?thesis
      using ok by (auto intro!: pool_inv_frame [OF inv] intro: sleep_frame [OF ok(5)]
          simp: thpool_destroy_begin_def running_def counts_ok_def token_ok_def)
  next
    case (destroy_round p)
    then show ?thesis
      using ok sleep_post_all [OF ok(5) destroy_round(2)]
      by (auto intro!: pool_inv_frame [OF inv]
          simp: thpool_destroy_round_def running_def counts_ok_def token_ok_def bsem_post_all_def split: if_splits)
  qed
qed

interpretation pool_system: step_system pool_step pool_inv
  by unfold_locales (rule pool_inv_step)


section \<open>From a fresh pool\<close>

definition pool_start :: "pool \<Rightarrow> pool_run" where
  "pool_start p = \<lparr>the_pool = p, added = [], pulled = []\<rparr>"

lemma init_threads:
  "fold (\<lambda>n p. snd (thread_init (mem n) p)) ns p = p\<lparr>workers := workers p @ replicate (length (filter mem ns)) Starting\<rparr>"
  by (induction ns arbitrary: p) (simp_all add: thread_init_def replicate_append_same [symmetric])

lemma init_cases:
  assumes "thpool_init mp ms ma mt n = Inr (Some p)"
  shows "p = fresh_pool\<lparr>workers := replicate (length (filter mt [0..<nat n])) Starting\<rparr>"
proof -
  have "jobqueue_init True fresh_pool = Inr (0, fresh_pool)"
    by (simp add: jobqueue_init_def queue_upd_def bsem_init_def fresh_pool_def)
  then show ?thesis
    using assms by (cases ms) (auto simp: thpool_init_def init_threads jobqueue_init_def fresh_pool_def Let_def split: if_splits)
qed

lemma start_inv:
  assumes "thpool_init mp ms ma mt n = Inr (Some p)"
  shows "pool_inv (pool_start p)"
proof -
  have "concat (map jobs_in (replicate k Starting)) = []" "filter f (replicate k Starting) = (if f Starting then replicate k Starting else [])" for k f
    by (induction k) simp_all
  then show ?thesis
    unfolding init_cases [OF assms]
    by (auto simp: pool_inv_def pool_start_def counts_ok_def token_ok_def sleep_ok_def fresh_pool_def queue_ok_def calls_ok_def running_def
        intro!: exI [of _ "[]"])
qed

lemma pool_reachable:
  assumes "thpool_init mp ms ma mt n = Inr (Some p)" "pool_step\<^sup>*\<^sup>* (pool_start p) s"
  shows "pool_inv s" "length (workers (the_pool s)) = length (filter mt [0..<nat n])"
proof -
  show "pool_inv s"
    using pool_system.reachable_inv [OF assms(2) start_inv [OF assms(1)]] .
  have step: "length (workers (the_pool s'')) = length (workers (the_pool s'))" if "pool_step s' s''" for s' s''
    using that
  proof cases
    case (work i c p)
    show ?thesis
      using thread_do_SomeD [OF work(3)] pull_frame(2) [of _ "the_pool s'"]
      by (auto simp: work(1) thread_step_def split: worker.splits option.splits if_splits prod.splits)
  next
    case (hold i ms m)
    then show ?thesis
      using hold_frame(8) [OF hold(2)] by simp
  next
    case (add a c f x p)
    then show ?thesis
      by (auto simp: thpool_add_work_def jobqueue_push_def queue_upd_def Let_def split: if_splits)
  qed (auto simp: thpool_resume_def thpool_destroy_begin_def thpool_destroy_round_def wake_up_frame split: if_splits)
  have "length (workers (the_pool s)) = length (workers p)"
    using assms(2) by (induction rule: rtranclp_induct) (simp_all add: pool_start_def step)
  then show "length (workers (the_pool s)) = length (filter mt [0..<nat n])"
    by (simp add: init_cases [OF assms(1)])
qed

section \<open>What the pool promises\<close>

text \<open>The cleanup frees every job that is still queued without calling it.\<close>

lemma clear_loop:
  assumes "queue_ok p js" "length js < n"
  shows "\<exists>p'. jobqueue_clear_loop c n p = Inr p' \<and> jq_len (tp_queue p') = 0 \<and> calls p' = calls p
    \<and> job_at p' = (\<lambda>a. if a \<in> set js then None else job_at p a)"
  using assms
proof (induction js arbitrary: p n)
  case Nil
  then show ?case
    by (cases n) (auto simp: queue_ok_def)
next
  case (Cons x js)
  obtain n' where n: "n = Suc n'" "length js < n'"
    using Cons.prems(2) by (cases n) auto
  obtain j where j: "job_at p x = Some j" "chain (job_at p) (job_prev j) js" "jq_front (tp_queue p) = x" "x \<notin> set js" "x \<notin> set (running p)"
    using Cons.prems(1) by (auto simp: queue_ok_def split: option.splits)
  obtain p1 where p1: "jobqueue_pull (c n') p = Inr (x, p1)" "jq_front (tp_queue p1) = (if js = [] then 0 else job_prev j)"
    "jq_rear (tp_queue p1) = (if js = [] then 0 else last js)" "jq_len (tp_queue p1) = int (length js)"
    using Cons.prems(1) j by (cases js) (auto simp: jobqueue_pull_def queue_ok_def job_get_def Let_def)
  note f = pull_frame [OF p1(1)]
  have "running (job_free x p1) = running p"
    using f(2) by (simp add: running_def)
  moreover have "chain (job_at (job_free x p1)) (if js = [] then 0 else job_prev j) js"
  proof -
    have "\<forall>a \<in> set js. job_at (job_free x p1) a = job_at p a"
      using j(4) f(4) by auto
    then have "chain (job_at (job_free x p1)) (job_prev j) js"
      using chain_frame [of js "job_at (job_free x p1)" "job_at p" "job_prev j"] j(2) by (simp only:)
    then show ?thesis
      by (cases "js = []") simp_all
  qed
  ultimately have "queue_ok (job_free x p1) js"
    using Cons.prems(1) j(5) p1 f(4) by (auto simp: queue_ok_def list_all_iff)
  then obtain p' where "jobqueue_clear_loop c n' (job_free x p1) = Inr p'" "jq_len (tp_queue p') = 0" "calls p' = calls (job_free x p1)"
    "job_at p' = (\<lambda>a. if a \<in> set js then None else job_at (job_free x p1) a)"
    using Cons.IH n(2) by blast
  then show ?case
    using Cons.prems(1) p1(1) f(4,7) by (intro exI [of _ p']) (auto simp: n(1) queue_ok_def fun_eq_iff)
qed


lemma destroy_finish:
  assumes "queue_ok p js" "length js < n"
  shows "\<exists>p'. thpool_destroy_finish c n p = Inr p' \<and> calls p' = calls p
    \<and> job_at p' = (\<lambda>a. if a \<in> set js then None else job_at p a)"
  using clear_loop [OF assms, of c]
  by (auto simp: thpool_destroy_finish_def jobqueue_clear_def bsem_reset_def bsem_init_def queue_upd_def)

text \<open>
  C15: The job queue is first in, first out, and no job is lost or run twice. In every state
  that workers, callers and signals can reach from \<open>thpool_init\<close>, in any interleaving and with
  spurious wakeups, the jobs added are the jobs pulled followed by the \<open>len\<close> jobs that the
  queue holds; and each job pulled has been called exactly once or is held by the worker
  that is about to call it. This lasts until \<open>thpool_destroy\<close> cleans up: it frees the jobs that
  are still queued without calling them, and nothing else.
\<close>
theorem pool_jobs_fifo:
  assumes "thpool_init mp ms ma mt n = Inr (Some p)" "pool_step\<^sup>*\<^sup>* (pool_start p) s"
  shows "\<exists>waiting. added s = pulled s @ map (job_call (the_pool s)) waiting
    \<and> int (length waiting) = jq_len (tp_queue (the_pool s))
    \<and> mset (pulled s) = mset (calls (the_pool s)) + mset (map (job_call (the_pool s)) (running (the_pool s)))
    \<and> (\<forall>c k. length waiting < k \<longrightarrow> (\<exists>p'. thpool_destroy_finish c k (the_pool s) = Inr p' \<and> calls p' = calls (the_pool s)
        \<and> job_at p' = (\<lambda>a. if a \<in> set waiting then None else job_at (the_pool s) a)))"
proof -
  obtain js where "queue_ok (the_pool s) js" "calls_ok s js"
    using pool_reachable(1) [OF assms] by (auto simp: pool_inv_def)
  then show ?thesis
    using destroy_finish [of "the_pool s" js] by (intro exI [of _ js]) (simp add: queue_ok_def calls_ok_def)
qed

lemma work_steps:
  assumes "pool_step\<^sup>*\<^sup>* s s'" "i < length (workers (the_pool s'))" "thread_do c i (the_pool s') = Inr (Some p)"
  shows "pool_step\<^sup>*\<^sup>* s (s'\<lparr>the_pool := p, pulled := pulled s' @ pull_record (workers (the_pool s') ! i) (the_pool s')\<rparr>)"
  using assms(1) pool_step.work [OF assms(2,3)] by (rule rtranclp.rtrancl_into_rtrancl)

text \<open>Steps of the first worker only, executable.\<close>

fun first_worker :: "nat \<Rightarrow> pool_run \<Rightarrow> pool_run" where
  "first_worker 0 s = s"
| "first_worker (Suc n) s =
     (if workers (the_pool s) = [] then s
      else case thread_do 0 0 (the_pool s) of
        Inr (Some p) \<Rightarrow> first_worker n (s\<lparr>the_pool := p,
          pulled := pulled s @ pull_record (workers (the_pool s) ! 0) (the_pool s)\<rparr>)
      | _ \<Rightarrow> s)"

lemma first_worker_steps: "pool_step\<^sup>*\<^sup>* s (first_worker n s)"
proof (induction n s rule: first_worker.induct)
  case (2 n s)
  show ?case
  proof (cases "workers (the_pool s) \<noteq> [] \<and> (\<exists>p. thread_do 0 0 (the_pool s) = Inr (Some p))")
    case True
    then obtain p where p: "thread_do 0 0 (the_pool s) = Inr (Some p)"
      by blast
    have "pool_step\<^sup>*\<^sup>* s (s\<lparr>the_pool := p, pulled := pulled s @ pull_record (workers (the_pool s) ! 0) (the_pool s)\<rparr>)"
      using work_steps [OF rtranclp.rtrancl_refl _ p] True by simp
    then show ?thesis
      using 2 True p by simp
  qed (auto split: sum.splits option.splits)
qed simp

text \<open>A pool with one worker, and a job added.\<close>

definition one_worker :: pool where
  "one_worker = fresh_pool\<lparr>workers := [Starting]\<rparr>"

lemma one_worker_init: "thpool_init True True True (\<lambda>_. True) 1 = Inr (Some one_worker)"
  by (simp add: thpool_init_def one_worker_def init_threads jobqueue_init_def queue_upd_def bsem_init_def fresh_pool_def)

definition one_job :: pool where
  "one_job = (case thpool_add_work 0 8 1 2 one_worker of Inr (r, p) \<Rightarrow> p | Inl e \<Rightarrow> one_worker)"

definition one_job_run :: pool_run where
  "one_job_run = (pool_start one_worker)\<lparr>the_pool := one_job, added := [(1, 2)]\<rparr>"

lemma one_job_reached: "pool_step\<^sup>*\<^sup>* (pool_start one_worker) one_job_run"
proof (rule r_into_rtranclp)
  have "thpool_add_work 0 8 1 2 (the_pool (pool_start one_worker)) = Inr (0, one_job)"
    by (simp add: one_job_def pool_start_def thpool_add_work_def jobqueue_push_def job_get_def one_worker_def fresh_pool_def locked_def)
  moreover have "job_at (the_pool (pool_start one_worker)) 8 = None"
    by (simp add: pool_start_def one_worker_def fresh_pool_def)
  ultimately show "pool_step (pool_start one_worker) one_job_run"
    using pool_step.add [of 8 "pool_start one_worker" 0 1 2 one_job] by (simp add: pool_start_def one_job_run_def)
qed

lemma one_job_works: "pool_step\<^sup>*\<^sup>* (pool_start one_worker) (first_worker n one_job_run)"
  using one_job_reached first_worker_steps by (rule rtranclp_trans)

text \<open>After six steps the worker holds the job; after eight it has called it.\<close>

lemma pool_jobs_fifo_witness:
  "\<exists>waiting. [(1, 2)] = [(1, 2)] @ map (job_call (the_pool (first_worker 6 one_job_run))) waiting
    \<and> {#(1, 2)#} = {#} + mset (map (job_call (the_pool (first_worker 6 one_job_run))) (running (the_pool (first_worker 6 one_job_run))))"
proof -
  have "added (first_worker 6 one_job_run) = [(1, 2)] \<and> pulled (first_worker 6 one_job_run) = [(1, 2)]
      \<and> calls (the_pool (first_worker 6 one_job_run)) = []"
    by code_simp
  then show ?thesis
    using pool_jobs_fifo [OF one_worker_init one_job_works [of 6]] by auto
qed

text \<open>
  C27: When the test of \<open>thpool_wait\<close> lets its caller go on, every job added so far has been
  called, each exactly as often as it was added, and no worker holds one.
\<close>
theorem thpool_wait_complete:
  assumes "thpool_init mp ms ma mt n = Inr (Some p)" "pool_step\<^sup>*\<^sup>* (pool_start p) s" "thpool_wait (the_pool s)"
  shows "mset (calls (the_pool s)) = mset (added s) \<and> running (the_pool s) = []"
proof -
  let ?p = "the_pool s"
  obtain js where ok: "counts_ok ?p" "queue_ok ?p js" "calls_ok s js"
    using pool_reachable(1) [OF assms(1,2)] by (auto simp: pool_inv_def)
  have w: "js = []" "filter working_in (workers ?p) = []"
    using assms(3) ok(1,2) by (simp_all add: thpool_wait_def counts_ok_def queue_ok_def)
  have "jobs_in w = []" if "\<not> working_in w" for w
    using that by (induction w) simp_all
  then have "running ?p = []"
    using w(2) by (auto simp: running_def filter_empty_conv)
  then show ?thesis
    using ok(3) w(1) by (simp add: calls_ok_def)
qed

lemma thpool_wait_complete_witness:
  "thpool_wait (the_pool (first_worker 8 one_job_run)) \<and> mset (calls (the_pool (first_worker 8 one_job_run))) = {#(1, 2)#}"
proof -
  have w: "thpool_wait (the_pool (first_worker 8 one_job_run))" and "added (first_worker 8 one_job_run) = [(1, 2)]"
    by code_simp+
  then show ?thesis
    using thpool_wait_complete [OF one_worker_init one_job_works w] by simp
qed

text \<open>
  \<open>thpool_init\<close> ignores the result of \<open>thread_init\<close>: when the memory for one of the threads is
  missing, the test of its busy wait fails in every state that the pool can reach, so it
  never returns.
\<close>
theorem thpool_init_hangs:
  assumes "thpool_init mp ms ma mt n = Inr (Some p)" "pool_step\<^sup>*\<^sup>* (pool_start p) s" "k < nat n" "\<not> mt k"
  shows "\<not> thpool_init_done n (the_pool s)"
proof -
  let ?p = "the_pool s"
  have "filter mt [0..<nat n] \<noteq> [0..<nat n]"
    using assms(3,4) by (metis atLeastLessThan_iff atLeastLessThan_upt filter_id_conv zero_le)
  then have "length (filter mt [0..<nat n]) < nat n"
    using length_filter_le [of mt "[0..<nat n]"] by (metis diff_zero filter_True le_neq_implies_less length_filter_less length_upt filter_id_conv)
  moreover have "length (filter alive_in (workers ?p)) \<le> length (workers ?p)"
    by simp
  moreover have "num_threads_alive ?p = int (length (filter alive_in (workers ?p)))"
    using pool_reachable(1) [OF assms(1,2)] by (simp add: pool_inv_def counts_ok_def)
  ultimately show ?thesis
    using pool_reachable(2) [OF assms(1,2)] by (auto simp: thpool_init_done_def)
qed

lemma thpool_init_hangs_witness: "\<not> thpool_init_done 1 fresh_pool"
proof -
  have "thpool_init True True True (\<lambda>_. False) 1 = Inr (Some fresh_pool)"
    by (simp add: thpool_init_def init_threads jobqueue_init_def queue_upd_def bsem_init_def fresh_pool_def)
  from thpool_init_hangs [OF this rtranclp.rtrancl_refl, of 0] show ?thesis
    by (simp add: pool_start_def)
qed


section \<open>Progress\<close>

lemma worker_total:
  assumes q: "queue_ok p js" and i: "i < length (workers p)"
  shows "\<exists>r. thread_do c i p = Inr r"
proof -
  have "\<exists>r. thread_step c i p = Inr r"
  proof (cases "workers p ! i")
    case Pulling
    have "\<exists>r. jobqueue_pull c p = Inr r"
      using q by (cases js) (auto simp: queue_ok_def jobqueue_pull_def job_get_def Let_def split: option.splits)
    then show ?thesis
      using Pulling by (auto simp: thread_step_def)
  next
    case (Running a)
    have "a = 0 \<or> a \<in> set (running p)"
      using Running by (auto simp: running_def intro!: bexI [OF _ nth_mem [OF i]])
    then show ?thesis
      using Running q by (auto simp: thread_step_def queue_ok_def list_all_iff job_get_def)
  qed (simp_all add: thread_step_def split: prod.splits)
  then show ?thesis
    by (auto simp: thread_do_def)
qed

definition nobody_paused :: "pool \<Rightarrow> bool" where
  "nobody_paused p \<longleftrightarrow> (\<forall>w \<in> set (workers p). \<forall>ms w'. w \<noteq> Held ms w')"

lemma nobody_paused_locked: "nobody_paused p \<Longrightarrow> \<not> locked p m"
proof -
  have "(\<forall>ms w'. w \<noteq> Held ms w') \<Longrightarrow> locks_held w = []" for w
    by (cases w) simp_all
  then show "nobody_paused p \<Longrightarrow> \<not> locked p m"
    by (auto simp: nobody_paused_def locked_def list_ex_iff)
qed

text \<open>When nobody is paused, only a worker that is gone or asleep and not woken cannot move.\<close>

lemma worker_moves:
  assumes q: "queue_ok p js" and i: "i < length (workers p)" "workers p ! i \<noteq> Gone" and np: "nobody_paused p"
    and up: "i \<notin> set (bsem_cond (has_jobs (tp_queue p)))"
  shows "\<exists>p'. thread_do c i p = Inr (Some p')"
proof -
  have "\<forall>ms w'. workers p ! i \<noteq> Held ms w'"
    using np nth_mem [OF i(1)] by (auto simp: nobody_paused_def)
  then show ?thesis
    using worker_total [OF q i(1), of c] nobody_paused_locked [OF np] i(2) up
    by (cases "workers p ! i") (auto simp: thread_do_def thread_step_def list_ex_iff bindE_eq_Inr_iff split: if_splits prod.splits)
qed

lemma some_worker_moves:
  assumes q: "queue_ok p js" and tok: "token_ok p" and sl: "sleep_ok p" and job: "jq_len (tp_queue p) \<noteq> 0" "threads_keepalive p \<noteq> 0"
    and np: "nobody_paused p" and w: "w \<in> set (workers p)" "w \<noteq> Gone"
  shows "\<exists>i < length (workers p). \<forall>c. \<exists>p'. thread_do c i p = Inr (Some p')"
proof -
  have move: ?thesis if "i < length (workers p)" "workers p ! i \<noteq> Gone" "i \<notin> set (bsem_cond (has_jobs (tp_queue p)))" for i
    using worker_moves [OF q that(1,2) np that(3)] that(1) by blast
  have asleep: "workers p ! i = Asleep" if "i < length (workers p)" "asleep_in (workers p ! i)" for i
    using np nth_mem [OF that(1)] that(2) by (cases "workers p ! i") (auto simp: nobody_paused_def)
  show ?thesis
  proof (cases "bsem_v (has_jobs (tp_queue p)) = 1")
    case True
    show ?thesis
    proof (cases "\<exists>i. woken_up p i")
      case True
      then obtain i where "i < length (workers p)" "asleep_in (workers p ! i)" "i \<notin> set (bsem_cond (has_jobs (tp_queue p)))"
        by (auto simp: woken_up_def)
      then show ?thesis
        using asleep [of i] by (intro move [of i]) auto
    next
      case False
      then have "bsem_cond (has_jobs (tp_queue p)) = []"
        using sl True by (simp add: sleep_ok_def)
      moreover obtain i where "i < length (workers p)" "workers p ! i \<noteq> Gone"
        using w by (metis in_set_conv_nth)
      ultimately show ?thesis
        by (intro move [of i]) auto
    qed
  next
    case False
    then obtain v where "v \<in> set (workers p)" "pulling_in v"
      using tok job by (auto simp: token_ok_def list_ex_iff)
    then obtain i where i: "i < length (workers p)" "pulling_in (workers p ! i)"
      by (metis in_set_conv_nth)
    then have "workers p ! i \<noteq> Gone" "workers p ! i \<noteq> Asleep"
      by auto
    moreover have "i \<notin> set (bsem_cond (has_jobs (tp_queue p)))"
      using sl asleep [OF i(1)] calculation(2) by (auto simp: sleep_ok_def)
    ultimately show ?thesis
      using i(1) by (intro move [of i])
  qed
qed


text \<open>The only worker sleeps on the semaphore when a job is added, and is woken.\<close>

definition sleeper_job :: pool_run where
  "sleeper_job = (let s = first_worker 3 (pool_start one_worker) in case thpool_add_work 0 8 1 2 (the_pool s) of
     Inr (r, p) \<Rightarrow> s\<lparr>the_pool := p, added := added s @ [(1, 2)]\<rparr> | Inl e \<Rightarrow> s)"

lemma sleeper_job_reached: "pool_step\<^sup>*\<^sup>* (pool_start one_worker) sleeper_job"
proof -
  let ?s = "first_worker 3 (pool_start one_worker)"
  have j: "job_at (the_pool ?s) 8 = None" and r: "\<exists>p. thpool_add_work 0 8 1 2 (the_pool ?s) = Inr (0, p)"
  proof -
    show "job_at (the_pool ?s) 8 = None"
      by code_simp
    have "(case thpool_add_work 0 8 1 2 (the_pool ?s) of Inr (r, p) \<Rightarrow> r = 0 | Inl e \<Rightarrow> False)"
      by code_simp
    then show "\<exists>p. thpool_add_work 0 8 1 2 (the_pool ?s) = Inr (0, p)"
      by (auto split: sum.splits prod.splits)
  qed
  then obtain p where p: "thpool_add_work 0 8 1 2 (the_pool ?s) = Inr (0, p)"
    by blast
  then have "pool_step ?s sleeper_job"
    using pool_step.add [of 8 ?s 0 1 2 p] j by (simp add: sleeper_job_def Let_def)
  then show ?thesis
    using first_worker_steps by (rule rtranclp.rtrancl_into_rtrancl [rotated])
qed


section \<open>Destroying a pool\<close>

text \<open>
  The rounds of \<open>thpool_destroy\<close> with steps of the workers, spurious wakeups and calls of
  \<open>thpool_resume\<close> between them. The steps of the workers are counted, other than those with
  which a worker goes back to sleep.
\<close>

inductive drain :: "nat \<Rightarrow> pool \<Rightarrow> pool \<Rightarrow> bool" where
  drain_start: "drain 0 p p"
| drain_round: "drain k p p' \<Longrightarrow> thpool_destroy_round p' = Inr p'' \<Longrightarrow> drain k p p''"
| drain_spurious: "drain k p p' \<Longrightarrow> drain k p (wake_up i p')"
| drain_resume: "drain k p p' \<Longrightarrow> drain k p (thpool_resume p')"
| drain_work: "drain k p p' \<Longrightarrow> i < length (workers p') \<Longrightarrow> thread_do c i p' = Inr (Some p'') \<Longrightarrow>
    drain (k + (if workers p'' ! i = Asleep then 0 else 1)) p p''"

fun steps_left :: "worker \<Rightarrow> nat" where
  "steps_left Gone = 0"
| "steps_left Leaving = 1"
| "steps_left Testing = 2"
| "steps_left Starting = 3"
| "steps_left Woken = 3"
| "steps_left Finishing = 3"
| "steps_left Waiting = 4"
| "steps_left Asleep = 4"
| "steps_left (Running a) = 4"
| "steps_left Pulling = 5"
| "steps_left Counting = 6"
| "steps_left (Held ms w) = Suc (steps_left w)"

definition pool_steps :: "pool \<Rightarrow> nat" where
  "pool_steps p = sum_list (map steps_left (workers p))"

lemma drain_work_decreases:
  assumes i: "i < length (workers p)" and step: "thread_do c i p = Inr (Some p')" and k: "threads_keepalive p = 0"
  shows "(if workers p' ! i = Asleep then 0 else 1) + pool_steps p' \<le> pool_steps p \<and> threads_keepalive p' = 0"
proof -
  obtain xs ys where ws: "workers p = xs @ workers p ! i # ys" and upd: "\<And>w. (workers p)[i := w] = xs @ w # ys"
    using i by (rule split_worker) blast
  have "\<exists>w. workers p' = (workers p)[i := w] \<and> (if w = Asleep then 0 else 1) + steps_left w \<le> steps_left (workers p ! i) \<and> threads_keepalive p' = 0"
    using thread_do_SomeD [OF step] k pull_frame(2,3) [of c p]
    by (cases "workers p ! i") (auto simp: thread_step_def split: prod.splits if_splits worker.splits)
  then obtain w where w: "workers p' = (workers p)[i := w]" "(if w = Asleep then 0 else 1) + steps_left w \<le> steps_left (workers p ! i)"
    "threads_keepalive p' = 0"
    by blast
  have "pool_steps p = sum_list (map steps_left xs) + steps_left (workers p ! i) + sum_list (map steps_left ys)"
    unfolding pool_steps_def by (subst ws) simp
  moreover have "workers p' ! i = w"
    using w(1) i by simp
  ultimately show ?thesis
    using w by (simp add: pool_steps_def upd)
qed

lemma drain_bound: "drain k p p' \<Longrightarrow> threads_keepalive p = 0 \<Longrightarrow> threads_keepalive p' = 0 \<and> k + pool_steps p' \<le> pool_steps p"
proof (induction rule: drain.induct)
  case (drain_round k p p' p'')
  then show ?case
    by (auto simp: pool_steps_def thpool_destroy_round_def split: if_splits)
next
  case (drain_spurious k p p' i)
  then show ?case
    by (simp add: pool_steps_def wake_up_frame)
next
  case (drain_resume k p p')
  then show ?case
    by (simp add: pool_steps_def thpool_resume_def)
next
  case (drain_work k p p' i c p'')
  then show ?case
    using drain_work_decreases [of i p' c p''] by (auto split: if_splits)
qed simp

lemma drain_steps:
  assumes "drain k p p'" "the_pool s = p"
  shows "\<exists>s'. pool_step\<^sup>*\<^sup>* s s' \<and> the_pool s' = p'"
  using assms
proof (induction rule: drain.induct)
  case (drain_start p)
  then show ?case
    by blast
next
  case (drain_round k p p' p'')
  then obtain s' where "pool_step\<^sup>*\<^sup>* s s'" "the_pool s' = p'"
    by blast
  then show ?case
    using pool_step.destroy_round [of s' p''] drain_round.hyps(2)
    by (intro exI [of _ "s'\<lparr>the_pool := p''\<rparr>"]) (auto intro: rtranclp.rtrancl_into_rtrancl)
next
  case (drain_spurious k p p' i)
  then obtain s' where "pool_step\<^sup>*\<^sup>* s s'" "the_pool s' = p'"
    by blast
  then show ?case
    using pool_step.spurious [of s' i]
    by (intro exI [of _ "s'\<lparr>the_pool := wake_up i p'\<rparr>"]) (auto intro: rtranclp.rtrancl_into_rtrancl)
next
  case (drain_resume k p p')
  then obtain s' where "pool_step\<^sup>*\<^sup>* s s'" "the_pool s' = p'"
    by blast
  then show ?case
    using pool_step.resume [of s']
    by (intro exI [of _ "s'\<lparr>the_pool := thpool_resume p'\<rparr>"]) (auto intro: rtranclp.rtrancl_into_rtrancl)
next
  case (drain_work k p p' i c p'')
  then obtain s' where s': "pool_step\<^sup>*\<^sup>* s s'" "the_pool s' = p'"
    by blast
  show ?case
    using work_steps [OF s'(1), of i c p''] drain_work.hyps s'(2)
    by (intro exI [of _ "s'\<lparr>the_pool := p'', pulled := pulled s' @ pull_record (workers (the_pool s') ! i) (the_pool s')\<rparr>"]) simp
qed

text \<open>Nobody goes back to sleep before the semaphore is taken: a round is followed by a counted step.\<close>

lemma round_step_counts:
  assumes "bsem_v (has_jobs (tp_queue q)) = 1" "i < length (workers q)" "\<forall>ms w'. workers q ! i \<noteq> Held ms w'"
    and "thread_do c i q = Inr (Some q')"
  shows "workers q' ! i \<noteq> Asleep"
  using thread_do_SomeD [OF assms(4)] assms(1-3) pull_frame(2) [of c q]
  by (cases "workers q ! i") (auto simp: thread_step_def bsem_wait_def split: if_splits)

lemma alive_or_moving: "\<not> alive_in w \<Longrightarrow> \<forall>ms w'. w \<noteq> Held ms w' \<Longrightarrow> w \<noteq> Starting \<Longrightarrow> w = Gone"
  by (cases w) simp_all



text \<open>The only worker sleeps when the pool is destroyed: a round wakes it and it leaves in four steps.\<close>

definition sleeping_pool :: "bsem \<Rightarrow> int \<Rightarrow> worker \<Rightarrow> pool" where
  "sleeping_pool b alive w = fresh_pool\<lparr>tp_queue := \<lparr>jq_front = 0, jq_rear = 0, has_jobs = b, jq_len = 0\<rparr>,
     num_threads_alive := alive, threads_keepalive := 0, workers := [w]\<rparr>"

lemmas sleeping_defs = sleeping_pool_def fresh_pool_def thread_do_def thread_step_def locked_def bsem_wait_def
  queue_upd_def set_worker_def

lemma sleeping_eq: "thpool_destroy_begin (the_pool (first_worker 3 (pool_start one_worker))) = sleeping_pool \<lparr>bsem_v = 0, bsem_cond = [0]\<rparr> 1 Asleep"
  by (simp add: numeral_3_eq_3 thpool_destroy_begin_def one_worker_def pool_start_def sleeping_defs)

lemma sleeping_drain:
  "drain 4 (sleeping_pool \<lparr>bsem_v = 0, bsem_cond = [0]\<rparr> 1 Asleep) (sleeping_pool \<lparr>bsem_v = 0, bsem_cond = []\<rparr> 0 Gone)"
proof -
  let ?p = "sleeping_pool \<lparr>bsem_v = 0, bsem_cond = [0]\<rparr> 1 Asleep"
  have "drain 0 ?p (sleeping_pool \<lparr>bsem_v = 1, bsem_cond = []\<rparr> 1 Asleep)"
    by (rule drain_round [OF drain_start]) (simp add: thpool_destroy_round_def bsem_post_all_def sleeping_defs)
  from drain_work [OF this, of 0 0 "sleeping_pool \<lparr>bsem_v = 0, bsem_cond = []\<rparr> 1 Woken"]
  have "drain 1 ?p (sleeping_pool \<lparr>bsem_v = 0, bsem_cond = []\<rparr> 1 Woken)"
    by (simp add: sleeping_defs)
  from drain_work [OF this, of 0 0 "sleeping_pool \<lparr>bsem_v = 0, bsem_cond = []\<rparr> 1 Testing"]
  have "drain 2 ?p (sleeping_pool \<lparr>bsem_v = 0, bsem_cond = []\<rparr> 1 Testing)"
    by (simp add: sleeping_defs numeral_2_eq_2)
  from drain_work [OF this, of 0 0 "sleeping_pool \<lparr>bsem_v = 0, bsem_cond = []\<rparr> 1 Leaving"]
  have "drain 3 ?p (sleeping_pool \<lparr>bsem_v = 0, bsem_cond = []\<rparr> 1 Leaving)"
    by (simp add: sleeping_defs numeral_2_eq_2 numeral_3_eq_3)
  from drain_work [OF this, of 0 0 "sleeping_pool \<lparr>bsem_v = 0, bsem_cond = []\<rparr> 0 Gone"]
  show ?thesis
    by (simp add: sleeping_defs)
qed


end
