(* ===== verification/Chan.thy ===== *)
theory Chan
  imports Queue
begin

text \<open>
  \<open>src/chan.c\<close>: typed and untyped channels between threads. A condition variable is the
  number of threads that sleep on it and the number that have been woken and do not run
  yet; a thread may also be woken by nobody. An operation is cut at its \<open>pthread_cond_wait\<close>: each part between two waits holds the
  mutex \<open>m_mu\<close> and is one function, whose result \<open>None\<close> says that the caller now sleeps and
  goes on with the argument \<open>woken\<close> later. A result \<open>Inl e\<close> is the return value -1 with \<open>errno\<close>
  set to \<open>e\<close>. Failures of \<open>malloc\<close> and of the \<open>pthread\<close> initialisers are arguments.
\<close>

section \<open>Condition variables\<close>

record cond =
  sleepers :: nat
  woken :: nat

definition cond_init :: cond where
  "cond_init = \<lparr>sleepers = 0, woken = 0\<rparr>"

definition cond_wait :: "cond \<Rightarrow> cond" where
  "cond_wait c = c\<lparr>sleepers := sleepers c + 1\<rparr>"

definition cond_signal :: "cond \<Rightarrow> cond" where
  "cond_signal c = (if 0 < sleepers c then \<lparr>sleepers = sleepers c - 1, woken = woken c + 1\<rparr> else c)"

definition cond_broadcast :: "cond \<Rightarrow> cond" where
  "cond_broadcast c = \<lparr>sleepers = 0, woken = woken c + sleepers c\<rparr>"

text \<open>A woken thread returns from \<open>pthread_cond_wait\<close>.\<close>

definition cond_wake :: "cond \<Rightarrow> cond" where
  "cond_wake c = c\<lparr>woken := woken c - 1\<rparr>"

text \<open>POSIX allows a thread to return from \<open>pthread_cond_wait\<close> that nobody has signalled.\<close>

definition cond_spurious :: "cond \<Rightarrow> cond" where
  "cond_spurious c = \<lparr>sleepers = sleepers c - 1, woken = woken c + 1\<rparr>"

section \<open>Channels\<close>

record 'a chan_t =
  queue :: "'a queue_t option"
  r_mu :: bool
  w_mu :: bool
  chan_data :: "'a option"
  r_cond :: cond
  w_cond :: cond
  closed :: int
  r_waiting :: int
  w_waiting :: int

definition chan_is_buffered :: "'a chan_t \<Rightarrow> bool" where
  "chan_is_buffered c \<longleftrightarrow> queue c \<noteq> None"

definition chan_is_closed :: "'a chan_t \<Rightarrow> int" where
  "chan_is_closed c = closed c"

definition chan_queue :: "'a chan_t \<Rightarrow> 'a queue_t outcome" where
  "chan_queue c = derefE (queue c)"

subsection \<open>Making and releasing\<close>

text \<open>What exists: the block of the channel, its queue, and the initialised \<open>pthread\<close> objects.\<close>

datatype resource = Chan_block | Queue_block | W_mu | R_mu | M_mu | R_cond | W_cond

definition empty_chan :: "'a chan_t" where
  "empty_chan = \<lparr>queue = None, r_mu = False, w_mu = False, chan_data = None, r_cond = cond_init, w_cond = cond_init,
     closed = 0, r_waiting = 0, w_waiting = 0\<rparr>"

definition unbuffered_chan_init :: "(resource \<Rightarrow> bool) \<Rightarrow> resource set \<Rightarrow> int \<times> resource set" where
  "unbuffered_chan_init ok live =
     (if \<not> ok W_mu then (-1, live) else let live = insert W_mu live in
      if \<not> ok R_mu then (-1, live - {W_mu}) else let live = insert R_mu live in
      if \<not> ok M_mu then (-1, live - {W_mu} - {R_mu}) else let live = insert M_mu live in
      if \<not> ok R_cond then (-1, live - {M_mu} - {W_mu} - {R_mu}) else let live = insert R_cond live in
      if \<not> ok W_cond then (-1, live - {M_mu} - {W_mu} - {R_mu} - {R_cond}) else
      (0, insert W_cond live))"

text \<open>The queue made first is put into the channel last, after \<open>unbuffered_chan_init\<close> has set
  \<open>queue\<close> to \<open>NULL\<close>. The result also gives \<open>errno\<close> where it is set.\<close>

definition buffered_chan_init :: "(resource \<Rightarrow> bool) \<Rightarrow> (nat \<Rightarrow> 'a list) \<Rightarrow> nat \<Rightarrow> resource set
    \<Rightarrow> (errno option + 'a queue_t) \<times> resource set" where
  "buffered_chan_init ok junk capacity live =
     (case queue_init (ok Queue_block) junk capacity of
        Inl e \<Rightarrow> (Inl (Some e), live)
      | Inr q \<Rightarrow> let (r, live) = unbuffered_chan_init ok (insert Queue_block live) in
          if r \<noteq> 0 then (Inl None, live - {Queue_block}) else (Inr q, live))"

definition chan_init :: "(resource \<Rightarrow> bool) \<Rightarrow> (nat \<Rightarrow> 'a list) \<Rightarrow> nat \<Rightarrow> resource set
    \<Rightarrow> (errno option + 'a chan_t) \<times> resource set" where
  "chan_init ok junk capacity live =
     (if \<not> ok Chan_block then (Inl (Some ENOMEM), live)
      else let live = insert Chan_block live in
        if 0 < capacity
        then (case buffered_chan_init ok junk capacity live of
                (Inl e, live) \<Rightarrow> (Inl e, live - {Chan_block})
              | (Inr q, live) \<Rightarrow> (Inr (empty_chan\<lparr>queue := Some q\<rparr>), live))
        else let (r, live) = unbuffered_chan_init ok live in
          if r \<noteq> 0 then (Inl None, live - {Chan_block}) else (Inr empty_chan, live))"

definition chan_dispose :: "'a chan_t \<Rightarrow> resource set \<Rightarrow> resource set" where
  "chan_dispose c live = (let live = (if chan_is_buffered c then live - {Queue_block} else live) in
     live - {W_mu} - {R_mu} - {M_mu} - {R_cond} - {W_cond} - {Chan_block})"

subsection \<open>Closing\<close>

definition chan_close :: "'a chan_t \<Rightarrow> (errno + unit) \<times> 'a chan_t" where
  "chan_close c =
     (if closed c \<noteq> 0 then (Inl EPIPE, c)
      else (Inr (), c\<lparr>closed := 1, r_cond := cond_broadcast (r_cond c), w_cond := cond_broadcast (w_cond c)\<rparr>))"

subsection \<open>Buffered channels\<close>

definition buffered_chan_send :: "bool \<Rightarrow> 'a \<Rightarrow> 'a chan_t \<Rightarrow> ((errno + unit) option \<times> 'a chan_t) outcome" where
  "buffered_chan_send wake v c =
     (let c = (if wake then c\<lparr>w_cond := cond_wake (w_cond c), w_waiting := w_waiting c - 1\<rparr> else c) in
      bindE (chan_queue c) (\<lambda>q.
        if ring_size q = ring_capacity q
        then Inr (None, c\<lparr>w_waiting := w_waiting c + 1, w_cond := cond_wait (w_cond c)\<rparr>)
        else
          let (success, c) = (case queue_add v q of Inl e \<Rightarrow> (Inl e, c) | Inr q \<Rightarrow> (Inr (), c\<lparr>queue := Some q\<rparr>));
              c = (if 0 < r_waiting c then c\<lparr>r_cond := cond_signal (r_cond c)\<rparr> else c)
          in Inr (Some success, c)))"

text \<open>The value received, \<open>None\<close> for \<open>NULL\<close>.\<close>

definition buffered_chan_recv :: "bool \<Rightarrow> 'a chan_t \<Rightarrow> ((errno + 'a option) option \<times> 'a chan_t) outcome" where
  "buffered_chan_recv wake c =
     (let c = (if wake then c\<lparr>r_cond := cond_wake (r_cond c), r_waiting := r_waiting c - 1\<rparr> else c) in
      bindE (chan_queue c) (\<lambda>q.
        if ring_size q = 0
        then if closed c \<noteq> 0 then Inr (Some (Inl EPIPE), c)
             else Inr (None, c\<lparr>r_waiting := r_waiting c + 1, r_cond := cond_wait (r_cond c)\<rparr>)
        else
          let (msg, q) = queue_remove q; c = c\<lparr>queue := Some q\<rparr>;
              c = (if 0 < w_waiting c then c\<lparr>w_cond := cond_signal (w_cond c)\<rparr> else c)
          in Inr (Some (Inr msg), c)))"

subsection \<open>Unbuffered channels\<close>

text \<open>The sender keeps \<open>w_mu\<close> while it sleeps, the receiver \<open>r_mu\<close>. A call that finds the mutex
  taken waits for it: such a call is not made here.\<close>

definition unbuffered_chan_send :: "bool \<Rightarrow> 'a \<Rightarrow> 'a chan_t \<Rightarrow> (errno + unit) option \<times> 'a chan_t" where
  "unbuffered_chan_send wake v c =
     (if wake then (Some (Inr ()), c\<lparr>w_cond := cond_wake (w_cond c), w_mu := False\<rparr>)
      else if closed c \<noteq> 0 then (Some (Inl EPIPE), c)
      else let c = c\<lparr>w_mu := True, chan_data := Some v, w_waiting := w_waiting c + 1\<rparr>;
               c = (if 0 < r_waiting c then c\<lparr>r_cond := cond_signal (r_cond c)\<rparr> else c)
           in (None, c\<lparr>w_cond := cond_wait (w_cond c)\<rparr>))"

definition unbuffered_chan_recv :: "bool \<Rightarrow> 'a chan_t \<Rightarrow> (errno + 'a option) option \<times> 'a chan_t" where
  "unbuffered_chan_recv wake c =
     (let c = (if wake then c\<lparr>r_cond := cond_wake (r_cond c), r_waiting := r_waiting c - 1\<rparr> else c) in
      if \<not> (closed c \<noteq> 0) \<and> \<not> (w_waiting c \<noteq> 0)
      then (None, c\<lparr>r_mu := True, r_waiting := r_waiting c + 1, r_cond := cond_wait (r_cond c)\<rparr>)
      else if closed c \<noteq> 0 then (Some (Inl EPIPE), c\<lparr>r_mu := False\<rparr>)
      else (Some (Inr (chan_data c)),
            c\<lparr>r_mu := False, w_waiting := w_waiting c - 1, w_cond := cond_signal (w_cond c)\<rparr>))"

subsection \<open>The calls\<close>

text \<open>The first part of \<open>chan_send\<close> and \<open>chan_recv\<close>, up to a wait.\<close>

definition chan_send :: "'a \<Rightarrow> 'a chan_t \<Rightarrow> ((errno + unit) option \<times> 'a chan_t) outcome" where
  "chan_send v c =
     (if chan_is_closed c \<noteq> 0 then Inr (Some (Inl EPIPE), c)
      else if chan_is_buffered c then buffered_chan_send False v c
      else Inr (unbuffered_chan_send False v c))"

definition chan_recv :: "'a chan_t \<Rightarrow> ((errno + 'a option) option \<times> 'a chan_t) outcome" where
  "chan_recv c = (if chan_is_buffered c then buffered_chan_recv False c else Inr (unbuffered_chan_recv False c))"

definition chan_size :: "'a chan_t \<Rightarrow> int outcome" where
  "chan_size c = (if chan_is_buffered c then bindE (chan_queue c) (\<lambda>q. Inr (ring_size q)) else Inr 0)"

definition chan_can_recv :: "'a chan_t \<Rightarrow> bool outcome" where
  "chan_can_recv c =
     (if chan_is_buffered c then bindE (chan_size c) (\<lambda>n. Inr (0 < n)) else Inr (0 < w_waiting c))"

definition chan_can_send :: "'a chan_t \<Rightarrow> bool outcome" where
  "chan_can_send c =
     (if chan_is_buffered c then bindE (chan_queue c) (\<lambda>q. Inr (ring_size q < ring_capacity q))
      else Inr (0 < r_waiting c))"

subsection \<open>Select\<close>

text \<open>The channels are addressed in a store; \<open>rnd\<close> is the value of \<open>rand()\<close>.\<close>

record 'a select_op_t =
  op_recv :: bool
  op_chan :: nat
  op_msg_in :: "'a option"
  op_index :: nat

type_synonym 'a chans = "nat \<Rightarrow> 'a chan_t option"

fun recv_candidates :: "'a chans \<Rightarrow> nat \<Rightarrow> nat list \<Rightarrow> 'a select_op_t list outcome" where
  "recv_candidates st i [] = Inr []"
| "recv_candidates st i (a # as) =
     bindE (derefE (st a)) (\<lambda>c. bindE (chan_can_recv c) (\<lambda>can.
     bindE (recv_candidates st (i + 1) as) (\<lambda>ops.
       Inr (if can then \<lparr>op_recv = True, op_chan = a, op_msg_in = None, op_index = i\<rparr> # ops else ops))))"

fun send_candidates :: "'a chans \<Rightarrow> nat \<Rightarrow> (nat \<times> 'a) list \<Rightarrow> 'a select_op_t list outcome" where
  "send_candidates st i [] = Inr []"
| "send_candidates st i ((a, v) # as) =
     bindE (derefE (st a)) (\<lambda>c. bindE (chan_can_send c) (\<lambda>can.
     bindE (send_candidates st (i + 1) as) (\<lambda>ops.
       Inr (if can then \<lparr>op_recv = False, op_chan = a, op_msg_in = Some v, op_index = i\<rparr> # ops else ops))))"

datatype 'a select_result =
    Select_none
  | Select_blocked nat
  | Select_received nat "'a option"
  | Select_sent nat

definition chan_select :: "nat \<Rightarrow> nat list \<Rightarrow> (nat \<times> 'a) list \<Rightarrow> 'a chans \<Rightarrow> ('a select_result \<times> 'a chans) outcome" where
  "chan_select rnd recv_chans send_chans st =
     bindE (recv_candidates st 0 recv_chans) (\<lambda>rs.
     bindE (send_candidates st (length recv_chans) send_chans) (\<lambda>ss.
       let candidates = rs @ ss in
       if length candidates = 0 then Inr (Select_none, st)
       else let op = candidates ! (rnd mod length candidates); a = op_chan op in
         bindE (derefE (st a)) (\<lambda>c.
           if op_recv op
           then bindE (chan_recv c) (\<lambda>(r, c).
             Inr (case r of None \<Rightarrow> Select_blocked (op_index op) | Some (Inl e) \<Rightarrow> Select_none
                  | Some (Inr v) \<Rightarrow> Select_received (op_index op) v, st(a \<mapsto> c)))
           else bindE (derefE (op_msg_in op)) (\<lambda>v. bindE (chan_send v c) (\<lambda>(r, c).
             Inr (case r of None \<Rightarrow> Select_blocked (op_index op) | Some (Inl e) \<Rightarrow> Select_none
                  | Some (Inr u) \<Rightarrow> Select_sent (op_index op), st(a \<mapsto> c)))))))"


subsection \<open>The typed interface\<close>

text \<open>Values travel as the addresses of blocks from \<open>malloc\<close>; \<open>wrapped\<close> is its result, 0 when it
  fails. 64-bit integers and doubles are their 8 bytes.\<close>

type_synonym blocks = "64 word \<Rightarrow> bytes option"

definition send_wrapped :: "64 word \<Rightarrow> bytes \<Rightarrow> blocks \<Rightarrow> 64 word chan_t
    \<Rightarrow> ((errno + unit) option \<times> blocks \<times> 64 word chan_t) outcome" where
  "send_wrapped wrapped data blk c =
     (if wrapped = 0 then Inr (Some (Inl ENOMEM), blk, c)
      else let blk = blk(wrapped \<mapsto> data) in
        bindE (chan_send wrapped c) (\<lambda>(success, c).
          Inr (success, case success of Some (Inl e) \<Rightarrow> blk(wrapped := None) | _ \<Rightarrow> blk, c)))"

definition recv_wrapped :: "nat \<Rightarrow> blocks \<Rightarrow> 64 word chan_t
    \<Rightarrow> ((errno + bytes option) option \<times> blocks \<times> 64 word chan_t) outcome" where
  "recv_wrapped len blk c =
     bindE (chan_recv c) (\<lambda>(success, c).
       case success of
         None \<Rightarrow> Inr (None, blk, c)
       | Some (Inl e) \<Rightarrow> Inr (Some (Inl e), blk, c)
       | Some (Inr None) \<Rightarrow> Inr (Some (Inr None), blk, c)
       | Some (Inr (Some wrapped)) \<Rightarrow>
           if wrapped = 0 then Inr (Some (Inr None), blk, c)
           else bindE (derefE (blk wrapped)) (\<lambda>b. bindE (mem_read b 0 len) (\<lambda>data.
                  Inr (Some (Inr (Some data)), blk(wrapped := None), c))))"

definition chan_send_int32 :: "64 word \<Rightarrow> 32 word \<Rightarrow> blocks \<Rightarrow> 64 word chan_t
    \<Rightarrow> ((errno + unit) option \<times> blocks \<times> 64 word chan_t) outcome" where
  "chan_send_int32 wrapped v = send_wrapped wrapped (bytes32 v)"

definition chan_recv_int32 :: "blocks \<Rightarrow> 64 word chan_t \<Rightarrow> ((errno + 32 word option) option \<times> blocks \<times> 64 word chan_t) outcome" where
  "chan_recv_int32 blk c = bindE (recv_wrapped 4 blk c) (\<lambda>(r, blk, c).
     Inr (map_option (map_sum id (map_option word32)) r, blk, c))"

definition chan_send_int64 :: "64 word \<Rightarrow> bytes \<Rightarrow> blocks \<Rightarrow> 64 word chan_t
    \<Rightarrow> ((errno + unit) option \<times> blocks \<times> 64 word chan_t) outcome" where
  "chan_send_int64 wrapped v = send_wrapped wrapped (take 8 v)"

definition chan_recv_int64 :: "blocks \<Rightarrow> 64 word chan_t \<Rightarrow> ((errno + bytes option) option \<times> blocks \<times> 64 word chan_t) outcome" where
  "chan_recv_int64 = recv_wrapped 8"

definition chan_send_double :: "64 word \<Rightarrow> bytes \<Rightarrow> blocks \<Rightarrow> 64 word chan_t
    \<Rightarrow> ((errno + unit) option \<times> blocks \<times> 64 word chan_t) outcome" where
  "chan_send_double wrapped v = send_wrapped wrapped (take 8 v)"

definition chan_recv_double :: "blocks \<Rightarrow> 64 word chan_t \<Rightarrow> ((errno + bytes option) option \<times> blocks \<times> 64 word chan_t) outcome" where
  "chan_recv_double = recv_wrapped 8"

definition chan_send_buf :: "64 word \<Rightarrow> bytes \<Rightarrow> nat \<Rightarrow> blocks \<Rightarrow> 64 word chan_t
    \<Rightarrow> ((errno + unit) option \<times> blocks \<times> 64 word chan_t) outcome" where
  "chan_send_buf wrapped data len blk c =
     (if wrapped = 0 then Inr (Some (Inl ENOMEM), blk, c)
      else bindE (mem_read data 0 len) (\<lambda>d. send_wrapped wrapped d blk c))"

definition chan_recv_buf :: "nat \<Rightarrow> blocks \<Rightarrow> 64 word chan_t \<Rightarrow> ((errno + bytes option) option \<times> blocks \<times> 64 word chan_t) outcome" where
  "chan_recv_buf = recv_wrapped"

section \<open>Making a channel\<close>

text \<open>A failed \<open>chan_init\<close> leaves nothing behind; a successful one is undone by \<open>chan_dispose\<close>.\<close>

lemma unbuffered_init_eq:
  "unbuffered_chan_init ok live =
     (if ok W_mu \<and> ok R_mu \<and> ok M_mu \<and> ok R_cond \<and> ok W_cond
      then (0, live \<union> {W_mu, R_mu, M_mu, R_cond, W_cond}) else (-1, snd (unbuffered_chan_init ok live)))"
  by (auto simp: unbuffered_chan_init_def Let_def)

lemma unbuffered_init_fails:
  assumes "fst (unbuffered_chan_init ok live) \<noteq> 0" "live \<inter> {W_mu, R_mu, M_mu, R_cond, W_cond} = {}"
  shows "snd (unbuffered_chan_init ok live) = live"
  using assms by (auto simp: unbuffered_chan_init_def Let_def split: if_splits)

lemma chan_init_resources:
  "case chan_init ok junk capacity {} of (Inl e, live) \<Rightarrow> live = {} | (Inr c, live) \<Rightarrow> chan_dispose c live = {}"
proof (cases "ok Chan_block")
  case True
  show ?thesis
  proof (cases "0 < capacity")
    case False
    then show ?thesis
      using True unbuffered_init_eq [of ok "{Chan_block}"] unbuffered_init_fails [of ok "{Chan_block}"]
      by (auto simp: chan_init_def chan_dispose_def chan_is_buffered_def empty_chan_def Let_def split: prod.splits if_splits)
  next
    case pos: True
    show ?thesis
    proof (cases "queue_init (ok Queue_block) junk capacity")
      case (Inl e)
      then show ?thesis
        using True pos by (simp add: chan_init_def buffered_chan_init_def)
    next
      case (Inr q)
      then show ?thesis
        using True pos unbuffered_init_eq [of ok "{Queue_block, Chan_block}"] unbuffered_init_fails [of ok "{Queue_block, Chan_block}"]
        by (auto simp: chan_init_def buffered_chan_init_def chan_dispose_def chan_is_buffered_def empty_chan_def Let_def
            split: prod.splits if_splits)
    qed
  qed
qed (simp add: chan_init_def)

lemma chan_init_buffered:
  assumes "chan_init ok junk capacity live = (Inr c, live')" "0 < capacity" "length (junk capacity) = capacity"
  shows "\<exists>q. c = empty_chan\<lparr>queue := Some q\<rparr> \<and> queue_inv q \<and> queue_list q = [] \<and> ring_capacity q = int capacity"
proof (cases "queue_init (ok Queue_block) junk capacity")
  case (Inr q)
  then have "c = empty_chan\<lparr>queue := Some q\<rparr>"
    using assms by (auto simp: chan_init_def buffered_chan_init_def Let_def split: prod.splits if_splits)
  then show ?thesis
    using queue_init_inv [OF Inr assms(3)] by blast
qed (use assms in \<open>auto simp: chan_init_def buffered_chan_init_def Let_def split: prod.splits if_splits\<close>)

section \<open>Threads on a buffered channel\<close>

text \<open>
  Any number of threads send, receive and close. A sender has passed the test of \<open>chan_send\<close>
  and not yet taken the mutex (\<open>entering\<close>), or waits in \<open>buffered_chan_send\<close> (\<open>sending\<close>); \<open>receiving\<close>
  counts the receivers that wait. \<open>sent\<close> and \<open>received\<close> record the values of the calls that
  returned 0, in order, \<open>None\<close> being a receive that gave \<open>NULL\<close>. \<open>refused\<close> counts the sends that
  passed the test of \<open>chan_send\<close> and returned -1, \<open>ended\<close> the receives that returned -1.
\<close>

record 'a chan_run =
  the_chan :: "'a chan_t"
  entering :: "'a list"
  sending :: "'a list"
  receiving :: nat
  sent :: "'a list"
  received :: "'a option list"
  refused :: nat
  ended :: nat

definition without :: "nat \<Rightarrow> 'a list \<Rightarrow> 'a list" where
  "without i xs = take i xs @ drop (Suc i) xs"

definition send_done :: "'a \<Rightarrow> (errno + unit) option \<Rightarrow> 'a chan_run \<Rightarrow> 'a chan_run" where
  "send_done v r s = (case r of None \<Rightarrow> s\<lparr>sending := sending s @ [v]\<rparr> | Some (Inl e) \<Rightarrow> s\<lparr>refused := refused s + 1\<rparr>
     | Some (Inr u) \<Rightarrow> s\<lparr>sent := sent s @ [v]\<rparr>)"

definition recv_done :: "(errno + 'a option) option \<Rightarrow> 'a chan_run \<Rightarrow> 'a chan_run" where
  "recv_done r s = (case r of None \<Rightarrow> s\<lparr>receiving := receiving s + 1\<rparr> | Some (Inl e) \<Rightarrow> s\<lparr>ended := ended s + 1\<rparr>
     | Some (Inr v) \<Rightarrow> s\<lparr>received := received s @ [v]\<rparr>)"

inductive chan_step :: "'a chan_run \<Rightarrow> 'a chan_run \<Rightarrow> bool" where
  check: "chan_is_closed (the_chan s) = 0 \<Longrightarrow> chan_step s (s\<lparr>entering := entering s @ [v]\<rparr>)"
| enter: "i < length (entering s) \<Longrightarrow> buffered_chan_send False (entering s ! i) (the_chan s) = Inr (r, c) \<Longrightarrow>
    chan_step s (send_done (entering s ! i) r (s\<lparr>the_chan := c, entering := without i (entering s)\<rparr>))"
| resume: "i < length (sending s) \<Longrightarrow> 0 < woken (w_cond (the_chan s)) \<Longrightarrow>
    buffered_chan_send True (sending s ! i) (the_chan s) = Inr (r, c) \<Longrightarrow>
    chan_step s (send_done (sending s ! i) r (s\<lparr>the_chan := c, sending := without i (sending s)\<rparr>))"
| receive: "buffered_chan_recv False (the_chan s) = Inr (r, c) \<Longrightarrow> chan_step s (recv_done r (s\<lparr>the_chan := c\<rparr>))"
| resume_receive: "0 < receiving s \<Longrightarrow> 0 < woken (r_cond (the_chan s)) \<Longrightarrow> buffered_chan_recv True (the_chan s) = Inr (r, c) \<Longrightarrow>
    chan_step s (recv_done r (s\<lparr>the_chan := c, receiving := receiving s - 1\<rparr>))"
| spurious_send: "0 < sleepers (w_cond (the_chan s)) \<Longrightarrow>
    chan_step s (s\<lparr>the_chan := (the_chan s)\<lparr>w_cond := cond_spurious (w_cond (the_chan s))\<rparr>\<rparr>)"
| spurious_receive: "0 < sleepers (r_cond (the_chan s)) \<Longrightarrow>
    chan_step s (s\<lparr>the_chan := (the_chan s)\<lparr>r_cond := cond_spurious (r_cond (the_chan s))\<rparr>\<rparr>)"
| close: "chan_step s (s\<lparr>the_chan := snd (chan_close (the_chan s))\<rparr>)"

text \<open>Threads that sleep without having been woken always have company: as many woken threads
  as there are free slots, or values.\<close>

definition waits_ok :: "int \<Rightarrow> int \<Rightarrow> 'a chan_t \<Rightarrow> nat \<Rightarrow> nat \<Rightarrow> bool" where
  "waits_ok n capacity c n_send n_recv \<longleftrightarrow>
     w_waiting c = int n_send \<and> n_send = sleepers (w_cond c) + woken (w_cond c)
     \<and> r_waiting c = int n_recv \<and> n_recv = sleepers (r_cond c) + woken (r_cond c)
     \<and> (0 < sleepers (w_cond c) \<longrightarrow> capacity - n \<le> int (woken (w_cond c)))
     \<and> (0 < sleepers (r_cond c) \<longrightarrow> n \<le> int (woken (r_cond c)))
     \<and> (closed c \<noteq> 0 \<longrightarrow> sleepers (r_cond c) = 0)"

definition chan_inv :: "int \<Rightarrow> 'a chan_run \<Rightarrow> bool" where
  "chan_inv cap s \<longleftrightarrow> (\<exists>q. queue (the_chan s) = Some q \<and> queue_inv q \<and> ring_capacity q = cap
     \<and> map Some (sent s) = received s @ map Some (queue_list q) \<and> refused s = 0 \<and> (0 < ended s \<longrightarrow> closed (the_chan s) \<noteq> 0)
     \<and> waits_ok (ring_size q) cap (the_chan s) (length (sending s)) (receiving s))"

lemma length_without: "i < length xs \<Longrightarrow> length (without i xs) = length xs - 1"
  by (simp add: without_def)

text \<open>One send and one receive, on the buffer and the counters.\<close>

lemma send_effect:
  assumes q: "queue c = Some q" "queue_inv q" "ring_capacity q = cap" "0 < cap"
    and w: "waits_ok (ring_size q) cap c (n_send + of_bool wake) n_recv" "wake \<Longrightarrow> 0 < woken (w_cond c)"
    and send: "buffered_chan_send wake v c = Inr (r, c')"
  shows "closed c' = closed c \<and> ((r = None \<and> queue c' = Some q \<and> waits_ok (ring_size q) cap c' (n_send + 1) n_recv)
    \<or> (\<exists>q'. r = Some (Inr ()) \<and> queue c' = Some q' \<and> queue_inv q' \<and> ring_capacity q' = cap
         \<and> queue_list q' = queue_list q @ [v] \<and> waits_ok (ring_size q') cap c' n_send n_recv))"
proof (cases "ring_size q = cap")
  case True
  then have r: "r = None" "queue c' = Some q" "closed c' = closed c"
    using send q by (cases wake; auto simp: buffered_chan_send_def chan_queue_def Let_def)+
  have "waits_ok (ring_size q) cap c' (n_send + 1) n_recv"
    using send q w True
    by (cases wake) (auto simp: waits_ok_def buffered_chan_send_def chan_queue_def cond_wait_def cond_wake_def Let_def)
  then show ?thesis
    using r by simp
next
  case False
  then have "\<not> queue_at_capacity q"
    using q by (auto simp: queue_at_capacity_def queue_inv_def)
  then obtain q' where q': "queue_add v q = Inr q'"
    by (auto simp: queue_add_def Let_def)
  note add = queue_add_list [OF q(2) q']
  have size: "ring_size q' = ring_size q + 1"
    using q' by (auto simp: queue_add_def Let_def split: if_splits)
  have c': "r = Some (Inr ())" "queue c' = Some q'" "closed c' = closed c"
    using send q(1,3) q' False by (cases wake; auto simp: buffered_chan_send_def chan_queue_def Let_def split: if_splits)+
  define c0 where "c0 = (if wake then c\<lparr>w_cond := cond_wake (w_cond c), w_waiting := w_waiting c - 1\<rparr> else c)\<lparr>queue := Some q'\<rparr>"
  have c0: "c' = (if 0 < r_waiting c0 then c0\<lparr>r_cond := cond_signal (r_cond c0)\<rparr> else c0)"
    using send q(1,3) q' False by (cases wake) (auto simp: buffered_chan_send_def chan_queue_def c0_def Let_def)
  have "w_waiting c0 = int n_send" "n_send = sleepers (w_cond c0) + woken (w_cond c0)" "r_waiting c0 = int n_recv"
    "n_recv = sleepers (r_cond c0) + woken (r_cond c0)" "0 < sleepers (w_cond c0) \<longrightarrow> cap - ring_size q \<le> int (woken (w_cond c0)) + 1"
    "0 < sleepers (r_cond c0) \<longrightarrow> ring_size q \<le> int (woken (r_cond c0))" "closed c0 \<noteq> 0 \<longrightarrow> sleepers (r_cond c0) = 0"
    using w by (cases wake; auto simp: waits_ok_def c0_def cond_wake_def)+
  then have "waits_ok (ring_size q') cap c' n_send n_recv"
    by (cases "0 < sleepers (r_cond c0)") (auto simp: waits_ok_def c0 cond_signal_def size)
  then show ?thesis
    using c' add q(3) by auto
qed

lemma recv_effect:
  assumes q: "queue c = Some q" "queue_inv q" "ring_capacity q = cap" "0 < cap"
    and w: "waits_ok (ring_size q) cap c n_send (n_recv + of_bool wake)" "wake \<Longrightarrow> 0 < woken (r_cond c)"
    and recv: "buffered_chan_recv wake c = Inr (r, c')"
  shows "closed c' = closed c \<and> ((r = None \<and> queue c' = Some q \<and> waits_ok (ring_size q) cap c' n_send (n_recv + 1))
    \<or> (r = Some (Inl EPIPE) \<and> closed c \<noteq> 0 \<and> queue c' = Some q \<and> queue_list q = [] \<and> waits_ok (ring_size q) cap c' n_send n_recv)
    \<or> (\<exists>q' x. r = Some (Inr (Some x)) \<and> queue c' = Some q' \<and> queue_inv q' \<and> ring_capacity q' = cap
         \<and> queue_list q = x # queue_list q' \<and> waits_ok (ring_size q') cap c' n_send n_recv))"
proof (cases "ring_size q = 0")
  case True
  then have "queue_list q = []"
    by (simp add: queue_list_def)
  moreover have "queue c' = Some q" "closed c' = closed c"
    using recv q True by (cases wake; auto simp: buffered_chan_recv_def chan_queue_def Let_def split: if_splits)+
  moreover have "r = None \<and> waits_ok (ring_size q) cap c' n_send (n_recv + 1)
      \<or> r = Some (Inl EPIPE) \<and> closed c \<noteq> 0 \<and> waits_ok (ring_size q) cap c' n_send n_recv"
    using recv q w True
    by (cases wake) (auto simp: waits_ok_def buffered_chan_recv_def chan_queue_def cond_wait_def cond_wake_def Let_def split: if_splits)
  ultimately show ?thesis
    by auto
next
  case False
  obtain msg q' where q': "queue_remove q = (msg, q')"
    by fastforce
  note rem = queue_remove_list [OF q(2) q']
  have size: "ring_size q' = ring_size q - 1" "0 < ring_size q"
    using q' False q(2) by (auto simp: queue_remove_def queue_inv_def Let_def split: if_splits)
  then have "queue_list q \<noteq> []"
    by (metis length_queue_list length_0_conv zero_less_nat_eq less_irrefl)
  then obtain x where x: "msg = Some x" "queue_list q = x # queue_list q'"
    using rem(1,4) by (cases "queue_list q") auto
  have c': "r = Some (Inr (Some x))" "queue c' = Some q'" "closed c' = closed c"
    using recv q(1) q' False x(1) by (cases wake; auto simp: buffered_chan_recv_def chan_queue_def Let_def split: if_splits)+
  define c0 where "c0 = (if wake then c\<lparr>r_cond := cond_wake (r_cond c), r_waiting := r_waiting c - 1\<rparr> else c)\<lparr>queue := Some q'\<rparr>"
  have c0: "c' = (if 0 < w_waiting c0 then c0\<lparr>w_cond := cond_signal (w_cond c0)\<rparr> else c0)"
    using recv q(1) q' False by (cases wake) (auto simp: buffered_chan_recv_def chan_queue_def c0_def Let_def)
  have "w_waiting c0 = int n_send" "n_send = sleepers (w_cond c0) + woken (w_cond c0)" "r_waiting c0 = int n_recv"
    "n_recv = sleepers (r_cond c0) + woken (r_cond c0)" "0 < sleepers (w_cond c0) \<longrightarrow> cap - ring_size q \<le> int (woken (w_cond c0))"
    "0 < sleepers (r_cond c0) \<longrightarrow> ring_size q \<le> int (woken (r_cond c0)) + 1" "closed c0 \<noteq> 0 \<longrightarrow> sleepers (r_cond c0) = 0"
    using w by (cases wake; auto simp: waits_ok_def c0_def cond_wake_def)+
  then have "waits_ok (ring_size q') cap c' n_send n_recv"
    by (cases "0 < sleepers (w_cond c0)") (auto simp: waits_ok_def c0 cond_signal_def size)
  then show ?thesis
    using c' x(2) rem(2,3) q(3) by auto
qed


lemma chan_inv_step:
  assumes cap: "0 < cap" and inv: "chan_inv cap s" and step: "chan_step s s'"
  shows "chan_inv cap s'"
proof -
  obtain q where q: "queue (the_chan s) = Some q" "queue_inv q" "ring_capacity q = cap" "map Some (sent s) = received s @ map Some (queue_list q)"
      "refused s = 0" "0 < ended s \<longrightarrow> closed (the_chan s) \<noteq> 0"
    and w: "waits_ok (ring_size q) cap (the_chan s) (length (sending s)) (receiving s)"
    using inv by (auto simp: chan_inv_def)
  from step show ?thesis
  proof cases
    case (check v)
    then show ?thesis
      using q w by (auto simp: chan_inv_def)
  next
    case (enter i r c)
    have "waits_ok (ring_size q) cap (the_chan s) (length (sending s) + of_bool False) (receiving s)"
      using w by simp
    from send_effect [OF q(1-3) cap this _ enter(3)] show ?thesis
      using q(2-6) by (auto simp: enter(1) chan_inv_def send_done_def)
  next
    case (resume i r c)
    have "waits_ok (ring_size q) cap (the_chan s) (length (without i (sending s)) + of_bool True) (receiving s)"
    proof -
      have "length (without i (sending s)) + of_bool True = length (sending s)"
        unfolding length_without [OF resume(2)] using resume(2) by auto
      then show ?thesis
        using w by simp
    qed
    from send_effect [OF q(1-3) cap this _ resume(4)] show ?thesis
      using q(2-6) resume(3) by (auto simp: resume(1) chan_inv_def send_done_def)
  next
    case (receive r c)
    have "waits_ok (ring_size q) cap (the_chan s) (length (sending s)) (receiving s + of_bool False)"
      using w by simp
    from recv_effect [OF q(1-3) cap this _ receive(2)] show ?thesis
      using q(2-6) by (auto simp: receive(1) chan_inv_def recv_done_def)
  next
    case (resume_receive r c)
    have "waits_ok (ring_size q) cap (the_chan s) (length (sending s)) (receiving s - 1 + of_bool True)"
      using w resume_receive(2) by simp
    from recv_effect [OF q(1-3) cap this _ resume_receive(4)] show ?thesis
      using q(2-6) resume_receive(3) by (auto simp: resume_receive(1) chan_inv_def recv_done_def)
  next
    case spurious_send
    have "waits_ok (ring_size q) cap ((the_chan s)\<lparr>w_cond := cond_spurious (w_cond (the_chan s))\<rparr>) (length (sending s)) (receiving s)"
      using w spurious_send(2) by (auto simp: waits_ok_def cond_spurious_def)
    then show ?thesis
      using q by (auto simp: spurious_send(1) chan_inv_def)
  next
    case spurious_receive
    have "waits_ok (ring_size q) cap ((the_chan s)\<lparr>r_cond := cond_spurious (r_cond (the_chan s))\<rparr>) (length (sending s)) (receiving s)"
      using w spurious_receive(2) by (auto simp: waits_ok_def cond_spurious_def)
    then show ?thesis
      using q by (auto simp: spurious_receive(1) chan_inv_def)
  next
    case close
    have "waits_ok (ring_size q) cap (snd (chan_close (the_chan s))) (length (sending s)) (receiving s)"
      using w by (auto simp: waits_ok_def chan_close_def cond_broadcast_def)
    moreover have "queue (snd (chan_close (the_chan s))) = Some q"
      using q(1) by (simp add: chan_close_def)
    moreover have "closed (snd (chan_close (the_chan s))) \<noteq> 0"
      by (simp add: chan_close_def)
    ultimately show ?thesis
      using q by (auto simp: close chan_inv_def)
  qed
qed

interpretation capacity_system: step_system chan_step "\<lambda>s. 0 < cap \<and> chan_inv cap s" for cap
  by unfold_locales (auto dest: chan_inv_step)

definition chan_start :: "'a chan_t \<Rightarrow> 'a chan_run" where
  "chan_start c = \<lparr>the_chan = c, entering = [], sending = [], receiving = 0, sent = [], received = [], refused = 0, ended = 0\<rparr>"

lemma chan_reachable:
  assumes "chan_init ok junk capacity live = (Inr c, live')" "0 < capacity" "length (junk capacity) = capacity"
    and "chan_step\<^sup>*\<^sup>* (chan_start c) s"
  shows "chan_inv (int capacity) s"
proof -
  obtain q where "c = empty_chan\<lparr>queue := Some q\<rparr>" "queue_inv q" "queue_list q = []" "ring_capacity q = int capacity"
    using chan_init_buffered [OF assms(1-3)] by blast
  moreover have "ring_size q = 0"
    using \<open>queue_list q = []\<close> \<open>queue_inv q\<close> by (auto simp: queue_list_def queue_inv_def)
  ultimately have "chan_inv (int capacity) (chan_start c)"
    by (simp add: chan_inv_def chan_start_def waits_ok_def empty_chan_def cond_init_def)
  then show ?thesis
    using capacity_system.reachable_inv [OF assms(4), of "int capacity"] assms(2) by simp
qed

text \<open>
  C17: A buffered channel is a bounded queue between threads. Whatever threads send, receive
  and close, in every interleaving, with every order of wakeups and with spurious ones, the
  values of the sends that returned 0 are the values of the receives that returned 0, in the
  same order, followed by those in the buffer, which never holds more than the capacity. No
  receive returns 0 without a value, no send that passed the test for a closed channel
  returns -1, and a receive returns -1 only when the channel has been closed.
\<close>
theorem buffered_chan_fifo:
  assumes "chan_init ok junk capacity live = (Inr c, live')" "0 < capacity" "length (junk capacity) = capacity"
    and "chan_step\<^sup>*\<^sup>* (chan_start c) s"
  shows "\<exists>buffer. map Some (sent s) = received s @ map Some buffer \<and> length buffer \<le> capacity
    \<and> chan_size (the_chan s) = Inr (int (length buffer))
    \<and> refused s = 0 \<and> (0 < ended s \<longrightarrow> chan_is_closed (the_chan s) \<noteq> 0)"
proof -
  obtain q where q: "queue (the_chan s) = Some q" "queue_inv q" "ring_capacity q = int capacity"
    "map Some (sent s) = received s @ map Some (queue_list q)" "refused s = 0" "0 < ended s \<longrightarrow> closed (the_chan s) \<noteq> 0"
    using chan_reachable [OF assms] by (auto simp: chan_inv_def)
  then show ?thesis
    by (intro exI [of _ "queue_list q"])
      (auto simp: queue_inv_def chan_size_def chan_is_buffered_def chan_queue_def chan_is_closed_def)
qed

text \<open>A channel of capacity 1: a receiver waits, a value is sent, the receiver is woken and takes it.\<close>

definition ring_of :: "nat list \<Rightarrow> nat queue_t" where
  "ring_of xs = \<lparr>ring_size = int (length (filter (\<lambda>x. x \<noteq> 0) xs)), ring_next = 0, ring_capacity = int (length xs), ring_data = xs\<rparr>"

definition sample_chan :: "nat \<Rightarrow> int \<Rightarrow> cond \<Rightarrow> nat chan_t" where
  "sample_chan x n cv = empty_chan\<lparr>queue := Some (ring_of [x]), r_waiting := n, r_cond := cv\<rparr>"

definition sample_run :: "nat chan_t \<Rightarrow> nat \<Rightarrow> nat list \<Rightarrow> nat option list \<Rightarrow> nat chan_run" where
  "sample_run c n ss rs = \<lparr>the_chan = c, entering = [], sending = [], receiving = n, sent = ss, received = rs, refused = 0, ended = 0\<rparr>"

lemmas sample_defs = sample_chan_def sample_run_def chan_start_def empty_chan_def cond_init_def ring_of_def chan_queue_def
  buffered_chan_send_def buffered_chan_recv_def send_done_def recv_done_def without_def
  cond_wait_def cond_signal_def cond_wake_def queue_add_def queue_at_capacity_def queue_remove_def chan_is_closed_def Let_def

lemma sample_chan_init:
  "chan_init (\<lambda>_. True) (\<lambda>n. replicate n 0) 1 {} =
     (Inr (sample_chan 0 0 cond_init), {Chan_block, Queue_block, W_mu, R_mu, M_mu, R_cond, W_cond})"
  by (auto simp: chan_init_def buffered_chan_init_def queue_init_def max_capacity_def unbuffered_chan_init_def sample_defs)

lemma sample_chan_woken:
  "chan_step\<^sup>*\<^sup>* (chan_start (sample_chan 0 0 cond_init)) (sample_run (sample_chan 7 1 \<lparr>sleepers = 0, woken = 1\<rparr>) 1 [7] [])"
proof -
  let ?s0 = "chan_start (sample_chan 0 0 cond_init)"
  let ?s1 = "sample_run (sample_chan 0 1 \<lparr>sleepers = 1, woken = 0\<rparr>) 1 [] []"
  have "chan_step ?s0 ?s1"
    using chan_step.receive [of ?s0 None "sample_chan 0 1 \<lparr>sleepers = 1, woken = 0\<rparr>"] by (simp add: sample_defs)
  moreover have "chan_step ?s1 (?s1\<lparr>entering := [7]\<rparr>)"
    using chan_step.check [of ?s1 7] by (simp add: sample_defs)
  moreover have "chan_step (?s1\<lparr>entering := [7]\<rparr>) (sample_run (sample_chan 7 1 \<lparr>sleepers = 0, woken = 1\<rparr>) 1 [7] [])"
    using chan_step.enter [of 0 "?s1\<lparr>entering := [7]\<rparr>" "Some (Inr ())" "sample_chan 7 1 \<lparr>sleepers = 0, woken = 1\<rparr>"]
    by (simp add: sample_defs)
  ultimately show ?thesis
    by (meson converse_rtranclp_into_rtranclp r_into_rtranclp)
qed

lemma sample_chan_taken:
  "chan_step\<^sup>*\<^sup>* (chan_start (sample_chan 0 0 cond_init)) (sample_run (empty_chan\<lparr>queue := Some ((ring_of [7])\<lparr>ring_size := 0\<rparr>)\<rparr>) 0 [7] [Some 7])"
proof -
  let ?s = "sample_run (sample_chan 7 1 \<lparr>sleepers = 0, woken = 1\<rparr>) 1 [7] []"
  have "chan_step ?s (sample_run (empty_chan\<lparr>queue := Some ((ring_of [7])\<lparr>ring_size := 0\<rparr>)\<rparr>) 0 [7] [Some 7])"
    using chan_step.resume_receive [of ?s "Some (Inr (Some 7))" "empty_chan\<lparr>queue := Some ((ring_of [7])\<lparr>ring_size := 0\<rparr>)\<rparr>"]
    by (simp add: sample_defs)
  then show ?thesis
    using sample_chan_woken by (rule rtranclp.rtrancl_into_rtrancl [rotated])
qed

lemma buffered_chan_fifo_witness:
  "\<exists>buffer. map Some [7] = [Some 7] @ map Some buffer
    \<and> chan_size (empty_chan\<lparr>queue := Some ((ring_of [7])\<lparr>ring_size := 0\<rparr>)\<rparr>) = Inr (int (length buffer))"
  using buffered_chan_fifo [OF sample_chan_init _ _ sample_chan_taken] by (auto simp: sample_run_def)

text \<open>
  C23: No wakeup is lost on a buffered channel. In every state that threads can reach, when the
  buffer holds a value and a receiver waits, some receiver has been woken; when the buffer
  has room and a sender waits, some sender has been woken; and once the channel is closed
  every waiting receiver has been woken. A woken thread can always go on: no call reads a
  queue that is not there.
\<close>
theorem buffered_chan_wakeups:
  assumes "chan_init ok junk capacity live = (Inr c, live')" "0 < capacity" "length (junk capacity) = capacity"
    and "chan_step\<^sup>*\<^sup>* (chan_start c) s"
  shows "(chan_can_recv (the_chan s) = Inr True \<and> 0 < receiving s \<longrightarrow> 0 < woken (r_cond (the_chan s)))
    \<and> (chan_can_send (the_chan s) = Inr True \<and> sending s \<noteq> [] \<longrightarrow> 0 < woken (w_cond (the_chan s)))
    \<and> (closed (the_chan s) \<noteq> 0 \<longrightarrow> woken (r_cond (the_chan s)) = receiving s)
    \<and> returns (buffered_chan_send wake v (the_chan s)) \<and> returns (buffered_chan_recv wake (the_chan s))"
proof -
  obtain q where q: "queue (the_chan s) = Some q" "queue_inv q" "ring_capacity q = int capacity"
    and w: "waits_ok (ring_size q) (int capacity) (the_chan s) (length (sending s)) (receiving s)"
    using chan_reachable [OF assms] by (auto simp: chan_inv_def)
  have "returns (buffered_chan_send wake v (the_chan s))"
    using q(1) by (cases wake) (auto simp: buffered_chan_send_def chan_queue_def Let_def split: prod.split)
  moreover have "returns (buffered_chan_recv wake (the_chan s))"
    using q(1) by (cases wake) (auto simp: buffered_chan_recv_def chan_queue_def Let_def split: prod.split)
  moreover have "chan_can_recv (the_chan s) = Inr True \<and> 0 < receiving s \<longrightarrow> 0 < woken (r_cond (the_chan s))"
    using w q by (auto simp: waits_ok_def chan_can_recv_def chan_size_def chan_is_buffered_def chan_queue_def)
  moreover have "chan_can_send (the_chan s) = Inr True \<and> sending s \<noteq> [] \<longrightarrow> 0 < woken (w_cond (the_chan s))"
    using w q by (cases "0 < sleepers (w_cond (the_chan s))")
      (auto simp: waits_ok_def chan_can_send_def chan_is_buffered_def chan_queue_def simp flip: length_greater_0_conv)
  moreover have "closed (the_chan s) \<noteq> 0 \<longrightarrow> woken (r_cond (the_chan s)) = receiving s"
    using w by (auto simp: waits_ok_def)
  ultimately show ?thesis
    by blast
qed

lemma buffered_chan_wakeups_witness:
  "0 < woken (r_cond (sample_chan 7 1 \<lparr>sleepers = 0, woken = 1\<rparr>))
    \<and> returns (buffered_chan_recv True (sample_chan 7 1 \<lparr>sleepers = 0, woken = 1\<rparr>))"
proof -
  have "chan_can_recv (sample_chan 7 1 \<lparr>sleepers = 0, woken = 1\<rparr>) = Inr True"
    by (simp add: chan_can_recv_def chan_is_buffered_def chan_size_def sample_defs)
  then show ?thesis
    using buffered_chan_wakeups [OF sample_chan_init _ _ sample_chan_woken, of True 7] by (simp add: sample_run_def)
qed


section \<open>Threads on an unbuffered channel\<close>

text \<open>
  While the channel is open. The sender holds \<open>w_mu\<close> until it returns, so at most one sender and
  one receiver are in their calls; others wait for the mutex. \<open>started\<close> are the values of
  the senders that got it, \<open>returned\<close> counts the calls of \<open>unbuffered_chan_send\<close> that returned 0,
  \<open>early\<close> the senders that returned from their wait without a signal.
\<close>

record 'a meeting =
  meet_chan :: "'a chan_t"
  sender :: "'a option"
  receiver :: bool
  started :: "'a list"
  returned :: nat
  taken :: "'a option list"
  early :: nat

inductive meet_step :: "'a meeting \<Rightarrow> 'a meeting \<Rightarrow> bool" where
  send: "\<not> w_mu (meet_chan s) \<Longrightarrow> unbuffered_chan_send False v (meet_chan s) = (None, c) \<Longrightarrow>
    meet_step s (s\<lparr>meet_chan := c, sender := Some v, started := started s @ [v]\<rparr>)"
| send_return: "sender s = Some v \<Longrightarrow> 0 < woken (w_cond (meet_chan s)) \<Longrightarrow>
    unbuffered_chan_send True v (meet_chan s) = (Some (Inr ()), c) \<Longrightarrow>
    meet_step s (s\<lparr>meet_chan := c, sender := None, returned := returned s + 1\<rparr>)"
| receive_wait: "\<not> r_mu (meet_chan s) \<Longrightarrow> unbuffered_chan_recv False (meet_chan s) = (None, c) \<Longrightarrow>
    meet_step s (s\<lparr>meet_chan := c, receiver := True\<rparr>)"
| receive: "\<not> r_mu (meet_chan s) \<Longrightarrow> unbuffered_chan_recv False (meet_chan s) = (Some (Inr x), c) \<Longrightarrow>
    meet_step s (s\<lparr>meet_chan := c, taken := taken s @ [x]\<rparr>)"
| receive_wait_again: "receiver s \<Longrightarrow> 0 < woken (r_cond (meet_chan s)) \<Longrightarrow> unbuffered_chan_recv True (meet_chan s) = (None, c) \<Longrightarrow>
    meet_step s (s\<lparr>meet_chan := c\<rparr>)"
| receive_return: "receiver s \<Longrightarrow> 0 < woken (r_cond (meet_chan s)) \<Longrightarrow> unbuffered_chan_recv True (meet_chan s) = (Some (Inr x), c) \<Longrightarrow>
    meet_step s (s\<lparr>meet_chan := c, receiver := False, taken := taken s @ [x]\<rparr>)"
| spurious_receive: "0 < sleepers (r_cond (meet_chan s)) \<Longrightarrow>
    meet_step s (s\<lparr>meet_chan := (meet_chan s)\<lparr>r_cond := cond_spurious (r_cond (meet_chan s))\<rparr>\<rparr>)"
| spurious_send: "0 < sleepers (w_cond (meet_chan s)) \<Longrightarrow>
    meet_step s (s\<lparr>meet_chan := (meet_chan s)\<lparr>w_cond := cond_spurious (w_cond (meet_chan s))\<rparr>, early := early s + 1\<rparr>)"

text \<open>
  \<open>pending\<close>: the sender's value has not been taken; then it still sleeps, unless it woke up
  without a signal.
\<close>

definition meet_ok :: "'a meeting \<Rightarrow> bool" where
  "meet_ok s \<longleftrightarrow> (let c = meet_chan s; pending = (0 < w_waiting c) in
     closed c = 0 \<and> (w_mu c \<longleftrightarrow> sender s \<noteq> None) \<and> (r_mu c \<longleftrightarrow> receiver s)
     \<and> r_waiting c = of_bool (receiver s) \<and> sleepers (r_cond c) + woken (r_cond c) = of_bool (receiver s)
     \<and> sleepers (w_cond c) + woken (w_cond c) = of_bool (sender s \<noteq> None) \<and> w_waiting c = int (sleepers (w_cond c))
     \<and> (pending \<longrightarrow> chan_data c = sender s \<and> (receiver s \<longrightarrow> woken (r_cond c) = 1))
     \<and> map Some (started s) = taken s @ (if pending then [sender s] else [])
     \<and> length (started s) = returned s + of_bool (sender s \<noteq> None))"

definition meet_inv :: "'a meeting \<Rightarrow> bool" where
  "meet_inv s \<longleftrightarrow> (early s = 0 \<longrightarrow> meet_ok s)"

lemma meet_ok_step: "meet_ok s \<Longrightarrow> meet_step s s' \<Longrightarrow> early s' = early s \<Longrightarrow> meet_ok s'"
proof -
  assume inv: "meet_ok s" and step: "meet_step s s'" and e: "early s' = early s"
  note defs = meet_ok_def Let_def unbuffered_chan_send_def unbuffered_chan_recv_def cond_wait_def cond_wake_def cond_signal_def
  from step show ?thesis
  proof cases
    case (send v c)
    then show ?thesis
      using inv by (cases "receiver s") (auto simp: defs split: if_splits)
  next
    case (send_return v c)
    then show ?thesis
      using inv by (auto simp: defs split: if_splits)
  next
    case (receive_wait c)
    then show ?thesis
      using inv by (auto simp: defs split: if_splits)
  next
    case (receive x c)
    then show ?thesis
      using inv by (cases "sender s") (auto simp: defs split: if_splits)
  next
    case (receive_wait_again c)
    then show ?thesis
      using inv by (auto simp: defs split: if_splits)
  next
    case (receive_return x c)
    then show ?thesis
      using inv by (cases "sender s") (auto simp: defs split: if_splits)
  next
    case spurious_receive
    then show ?thesis
      using inv by (cases "receiver s") (auto simp: meet_ok_def Let_def cond_spurious_def)
  next
    case spurious_send
    then show ?thesis
      using e by simp
  qed
qed

lemma meet_inv_step: "meet_inv s \<Longrightarrow> meet_step s s' \<Longrightarrow> meet_inv s'"
proof -
  assume inv: "meet_inv s" and step: "meet_step s s'"
  have "early s' = early s \<or> early s' = early s + 1"
    using step by cases simp_all
  then show ?thesis
    using inv meet_ok_step [OF _ step] by (auto simp: meet_inv_def)
qed

interpretation meeting: step_system meet_step meet_inv
  by unfold_locales (rule meet_inv_step)

definition meet_start :: "'a chan_t \<Rightarrow> 'a meeting" where
  "meet_start c = \<lparr>meet_chan = c, sender = None, receiver = False, started = [], returned = 0, taken = [], early = 0\<rparr>"

lemma chan_init_unbuffered:
  "chan_init ok junk 0 live = (Inr c, live') \<Longrightarrow> c = empty_chan"
  by (auto simp: chan_init_def Let_def split: prod.splits if_splits)



text \<open>
  C40: \<open>chan_close\<close> makes a waiting unbuffered send report success for a value that nobody
  received: the sender is woken and returns 0, and every receive afterwards fails.
\<close>
theorem unbuffered_close_loses_value:
  assumes "\<not> w_mu c" "closed c = 0" "w_waiting c = 0" "w_cond c = cond_init"
  shows "\<exists>c1 c2 c3. chan_send v c = Inr (None, c1) \<and> chan_close c1 = (Inr (), c2) \<and> 0 < woken (w_cond c2)
      \<and> unbuffered_chan_send True v c2 = (Some (Inr ()), c3)
      \<and> fst (unbuffered_chan_recv wake c1) \<noteq> Some (Inl EPIPE) \<and> fst (unbuffered_chan_recv wake c3) = Some (Inl EPIPE)
    \<or> chan_is_buffered c"
proof (cases "chan_is_buffered c")
  case False
  then show ?thesis
    using assms
    by (cases wake) (auto simp: chan_send_def chan_is_closed_def chan_is_buffered_def unbuffered_chan_send_def chan_close_def cond_broadcast_def
        cond_wait_def cond_init_def unbuffered_chan_recv_def Let_def)
qed simp

lemma unbuffered_close_loses_value_witness:
  "\<exists>c1 c2 c3. chan_send (7 :: nat) empty_chan = Inr (None, c1) \<and> chan_close c1 = (Inr (), c2)
      \<and> unbuffered_chan_send True 7 c2 = (Some (Inr ()), c3) \<and> fst (unbuffered_chan_recv False c3) = Some (Inl EPIPE)"
  using unbuffered_close_loses_value [of "empty_chan :: nat chan_t" 7 False]
  by (auto simp: empty_chan_def chan_is_buffered_def)

section \<open>Typed round trips\<close>

lemma wrapped_roundtrip:
  assumes c: "queue c = Some q" "queue_inv q" "queue_list q = []" "0 < ring_capacity q" "closed c = 0"
    and p: "p \<noteq> 0" "blk p = None"
  shows "\<exists>c1 c2. send_wrapped p data blk c = Inr (Some (Inr ()), blk(p \<mapsto> data), c1)
    \<and> recv_wrapped (length data) (blk(p \<mapsto> data)) c1 = Inr (Some (Inr (Some data)), blk, c2) \<and> closed c2 = 0"
proof -
  have size: "ring_size q = 0"
    using c(2,3) by (auto simp: queue_list_def queue_inv_def)
  then have "\<not> queue_at_capacity q"
    using c(4) by (simp add: queue_at_capacity_def)
  then obtain q1 where q1: "queue_add p q = Inr q1"
    by (auto simp: queue_add_def Let_def)
  note add = queue_add_list [OF c(2) q1]
  define c1 where "c1 = (if 0 < r_waiting c then c\<lparr>queue := Some q1, r_cond := cond_signal (r_cond c)\<rparr> else c\<lparr>queue := Some q1\<rparr>)"
  have send: "chan_send p c = Inr (Some (Inr ()), c1)"
    using c size q1 by (auto simp: chan_send_def chan_is_closed_def chan_is_buffered_def buffered_chan_send_def chan_queue_def c1_def)
  obtain msg q2 where q2: "queue_remove q1 = (msg, q2)"
    by fastforce
  have "msg = Some p"
    using queue_remove_list(4) [OF add(2) q2] add(1) c(3) by simp
  moreover have "ring_size q1 \<noteq> 0"
    using add(1) by (auto simp: queue_list_def)
  moreover have "queue c1 = Some q1" "closed c1 = 0"
    using c(5) by (simp_all add: c1_def)
  ultimately obtain c2 where recv: "chan_recv c1 = Inr (Some (Inr (Some p)), c2)" "closed c2 = 0"
    using q2 by (auto simp: chan_recv_def chan_is_buffered_def buffered_chan_recv_def chan_queue_def Let_def)
  have "blk(p := None) = blk"
    using p(2) by (simp add: fun_upd_idem)
  then show ?thesis
    using send recv p by (intro exI [of _ c1] exI [of _ c2]) (simp add: send_wrapped_def recv_wrapped_def mem_read_def)
qed

text \<open>
  A value that \<open>chan_send_int32\<close> puts into an open, empty buffered channel is what
  \<open>chan_recv_int32\<close> takes out, and the block that carried it is freed: memory is as before.
\<close>
lemma chan_int32_roundtrip:
  assumes "queue c = Some q" "queue_inv q" "queue_list q = []" "0 < ring_capacity q" "closed c = 0" "p \<noteq> 0" "blk p = None"
  shows "\<exists>blk1 c1 c2. chan_send_int32 p v blk c = Inr (Some (Inr ()), blk1, c1)
    \<and> chan_recv_int32 blk1 c1 = Inr (Some (Inr (Some v)), blk, c2)"
proof -
  obtain c1 c2 where "send_wrapped p (bytes32 v) blk c = Inr (Some (Inr ()), blk(p \<mapsto> bytes32 v), c1)"
    "recv_wrapped 4 (blk(p \<mapsto> bytes32 v)) c1 = Inr (Some (Inr (Some (bytes32 v))), blk, c2)"
    using wrapped_roundtrip [of c q p blk "bytes32 v", OF assms] by auto
  then show ?thesis
    by (intro exI [of _ "blk(p \<mapsto> bytes32 v)"] exI [of _ c1] exI [of _ c2]) (simp add: chan_send_int32_def chan_recv_int32_def)
qed

lemma chan_int32_roundtrip_witness:
  "\<exists>blk1 c1 c2. chan_send_int32 8 5 (\<lambda>_. None) (empty_chan\<lparr>queue := Some \<lparr>ring_size = 0, ring_next = 0, ring_capacity = 1, ring_data = [0]\<rparr>\<rparr>)
      = Inr (Some (Inr ()), blk1, c1) \<and> chan_recv_int32 blk1 c1 = Inr (Some (Inr (Some 5)), (\<lambda>_. None), c2)"
  by (rule chan_int32_roundtrip [where q = "\<lparr>ring_size = 0, ring_next = 0, ring_capacity = 1, ring_data = [0]\<rparr>"])
    (simp_all add: queue_inv_def queue_list_def empty_chan_def)

end
