(* ===== verification/Aco.thy ===== *)
theory Aco
  imports Tcp_Prelude
begin

text \<open>
  \<open>libaco/aco.c\<close>, \<open>libaco/aco.h\<close> and the switch of \<open>libaco/acosw.S\<close>, for x86-64: coroutines
  that take turns on share stacks. The stack of a coroutine that loses its share stack is
  copied to a block of its own and copied back when it is resumed. Structures live in
  maps from addresses; memory is a map from the address of a block to its bytes, so an
  address inside a block is written as the block and the address. The results of \<open>malloc\<close>,
  \<open>mmap\<close>, \<open>sysconf\<close>, \<open>mprotect\<close> and \<open>munmap\<close> are arguments. \<open>assert\<close> is the override of
  \<open>aco_assert_override.h\<close>: it aborts. The processor is the list of the nine registers that a
  switch saves, in the order of the source.
\<close>

section \<open>Structures\<close>

definition ACO_REG_IDX_RETADDR :: nat where "ACO_REG_IDX_RETADDR = 4"
definition ACO_REG_IDX_SP :: nat where "ACO_REG_IDX_SP = 5"
definition ACO_REG_IDX_FPU :: nat where "ACO_REG_IDX_FPU = 8"

lemmas reg_idx = ACO_REG_IDX_RETADDR_def ACO_REG_IDX_SP_def ACO_REG_IDX_FPU_def

record aco_save_stack_t =
  sv_ptr :: u64
  sv_sz :: u64
  valid_sz :: u64
  max_cpsz :: u64
  ct_save :: u64
  ct_restore :: u64

record aco_share_stack_t =
  sh_ptr :: u64
  sh_sz :: u64
  align_highptr :: u64
  align_retptr :: u64
  align_validsz :: u64
  align_limit :: u64
  owner :: u64
  guard_page_enabled :: bool
  real_ptr :: u64
  real_sz :: u64

record aco_t =
  reg :: "u64 list"
  main_co :: u64
  co_arg :: u64
  is_end :: bool
  fp :: u64
  save_stack :: aco_save_stack_t
  share_stack :: u64

record aco_state =
  cos :: "u64 \<Rightarrow> aco_t option"
  stks :: "u64 \<Rightarrow> aco_share_stack_t option"
  blks :: "u64 \<Rightarrow> bytes option"
  aco_gtls_co :: u64
  aco_gtls_last_word_fp :: u64
  aco_gtls_fpucw_mxcsr :: u64
  cpu :: "u64 list"

definition assertE :: "bool \<Rightarrow> unit outcome" where
  "assertE b = requireE b Abort"

lemma assertE_simps [simp]: "assertE True = Inr ()" "assertE b = Inr u \<longleftrightarrow> b"
  by (simp_all add: assertE_def)

definition set_co :: "u64 \<Rightarrow> (aco_t \<Rightarrow> aco_t) \<Rightarrow> aco_state \<Rightarrow> aco_state outcome" where
  "set_co c f st = bindE (derefE (cos st c)) (\<lambda>C. Inr (st\<lparr>cos := (cos st)(c \<mapsto> f C)\<rparr>))"

definition set_stk ::
  "u64 \<Rightarrow> (aco_share_stack_t \<Rightarrow> aco_share_stack_t) \<Rightarrow> aco_state \<Rightarrow> aco_state outcome" where
  "set_stk p f st = bindE (derefE (stks st p)) (\<lambda>S. Inr (st\<lparr>stks := (stks st)(p \<mapsto> f S)\<rparr>))"

section \<open>Copying\<close>

text \<open>
  \<open>aco_amd64_inline_short_aligned_memcpy\<close>: the nine cases load as many 16-byte registers
  as the size has whole units, store them, and then move the last eight bytes.
\<close>

primrec load_units :: "bytes \<Rightarrow> nat \<Rightarrow> nat \<Rightarrow> bytes list outcome" where
  "load_units s off 0 = Inr []"
| "load_units s off (Suc n) =
     bindE (mem_read s off 16) (\<lambda>xmm. bindE (load_units s (off + 16) n) (\<lambda>xs. Inr (xmm # xs)))"

primrec store_units :: "bytes list \<Rightarrow> bytes \<Rightarrow> nat \<Rightarrow> bytes outcome" where
  "store_units [] d off = Inr d"
| "store_units (xmm # xs) d off = bindE (mem_write d off xmm) (\<lambda>d. store_units xs d (off + 16))"

definition short_aligned_test_ok :: "u64 \<Rightarrow> u64 \<Rightarrow> u64 \<Rightarrow> bool" where
  "short_aligned_test_ok dst src sz \<longleftrightarrow>
     src AND 0xf = 0 \<and> dst AND 0xf = 0
     \<and> sz AND 0xf = 0x8 \<and> 0 \<le> drop_bit 4 sz \<and> drop_bit 4 sz \<le> 8"

definition short_aligned_memcpy :: "bytes \<Rightarrow> nat \<Rightarrow> bytes \<Rightarrow> nat \<Rightarrow> u64 \<Rightarrow> bytes outcome" where
  "short_aligned_memcpy d doff s soff sz =
     (let n = unat (drop_bit 4 sz)
      in bindE (if n \<le> 8 then bindE (load_units s soff n) (\<lambda>xs. store_units xs d doff) else Inr d)
           (\<lambda>d. bindE (mem_read s (soff + unat sz - 8) 8) (\<lambda>q. mem_write d (doff + unat sz - 8) q)))"

definition memcpy_blk :: "bytes \<Rightarrow> nat \<Rightarrow> bytes \<Rightarrow> nat \<Rightarrow> u64 \<Rightarrow> bytes outcome" where
  "memcpy_blk d doff s soff sz = bindE (mem_read s soff (unat sz)) (\<lambda>q. mem_write d doff q)"

text \<open>
  The blocks of the destination \<open>dst\<close> and of the source \<open>src\<close> start at \<open>db\<close> and \<open>sb\<close>; the
  program copies between different blocks only, and one block counts as an overlap.
\<close>

definition memcpy_drop_in :: "u64 \<Rightarrow> u64 \<Rightarrow> u64 \<Rightarrow> u64 \<Rightarrow> u64 \<Rightarrow> aco_state \<Rightarrow> aco_state outcome" where
  "memcpy_drop_in db dst sb src sz st =
     bindE (requireE (db \<noteq> sb) (Undefined Overlap)) (\<lambda>_.
     bindE (derefE (blks st sb)) (\<lambda>s.
     bindE (derefE (blks st db)) (\<lambda>d.
     bindE ((if short_aligned_test_ok dst src sz then short_aligned_memcpy else memcpy_blk)
              d (unat (dst - db)) s (unat (src - sb)) sz)
       (\<lambda>d. Inr (st\<lparr>blks := (blks st)(db \<mapsto> d)\<rparr>)))))"

definition memcpy_at :: "u64 \<Rightarrow> u64 \<Rightarrow> u64 \<Rightarrow> u64 \<Rightarrow> u64 \<Rightarrow> aco_state \<Rightarrow> aco_state outcome" where
  "memcpy_at db dst sb src sz st =
     bindE (requireE (db \<noteq> sb) (Undefined Overlap)) (\<lambda>_.
     bindE (derefE (blks st sb)) (\<lambda>s.
     bindE (derefE (blks st db)) (\<lambda>d.
     bindE (memcpy_blk d (unat (dst - db)) s (unat (src - sb)) sz)
       (\<lambda>d. Inr (st\<lparr>blks := (blks st)(db \<mapsto> d)\<rparr>)))))"

section \<open>Threads and share stacks\<close>

definition aco_thread_init :: "u64 \<Rightarrow> aco_state \<Rightarrow> aco_state" where
  "aco_thread_init last_word_co_fp st =
     (let st = st\<lparr>aco_gtls_fpucw_mxcsr := cpu st ! ACO_REG_IDX_FPU\<rparr>
      in if last_word_co_fp \<noteq> 0 then st\<lparr>aco_gtls_last_word_fp := last_word_co_fp\<rparr> else st)"

text \<open>The function that a stored pointer stands for is an argument.\<close>

definition aco_default_protector_last_word :: "aco_state \<Rightarrow> aco_state outcome" where
  "aco_default_protector_last_word st = Inl Abort"

definition aco_funcp_protector ::
  "(u64 \<Rightarrow> aco_state \<Rightarrow> aco_state outcome) \<Rightarrow> aco_state \<Rightarrow> aco_state outcome" where
  "aco_funcp_protector run st =
     bindE (if aco_gtls_last_word_fp st \<noteq> 0 then run (aco_gtls_last_word_fp st) st
            else aco_default_protector_last_word st) (\<lambda>_. Inl Abort)"

definition safe_add_assert :: "u64 \<Rightarrow> u64 \<Rightarrow> unit outcome" where
  "safe_add_assert a b = assertE (a \<le> a + b)"

text \<open>The size with the guard page, and the page size: the first part of \<open>aco_share_stack_new2\<close>.\<close>

definition guarded_size :: "u64 \<Rightarrow> u64 \<Rightarrow> u64 outcome" where
  "guarded_size sz pgsz =
     bindE (assertE (0 <s pgsz \<and> (pgsz - 1) AND pgsz = 0)) (\<lambda>_.
     bindE (assertE (drop_bit 1 (push_bit 1 pgsz) = pgsz)) (\<lambda>_.
       if sz \<le> pgsz then Inr (push_bit 1 pgsz)
       else
         bindE
           (if sz AND (pgsz - 1) \<noteq> 0 then
              (let new_sz = sz AND NOT (pgsz - 1)
               in bindE (assertE (pgsz \<le> new_sz)) (\<lambda>_.
                  bindE (safe_add_assert new_sz (push_bit 1 pgsz)) (\<lambda>_.
                  bindE (assertE (sz div pgsz + 2 = (new_sz + push_bit 1 pgsz) div pgsz)) (\<lambda>_.
                    Inr (new_sz + push_bit 1 pgsz)))))
            else
              bindE (safe_add_assert sz pgsz) (\<lambda>_.
              bindE (assertE (sz div pgsz + 1 = (sz + pgsz) div pgsz)) (\<lambda>_. Inr (sz + pgsz))))
           (\<lambda>sz. bindE (assertE (1 < sz div pgsz \<and> sz AND (pgsz - 1) = 0)) (\<lambda>_. Inr sz))))"

definition share_stack_size :: "u64 \<Rightarrow> bool \<Rightarrow> u64 \<Rightarrow> (u64 \<times> u64) outcome" where
  "share_stack_size sz guard pgsz =
     (let sz = (if sz = 0 then 1024 * 1024 * 2 else sz);
          sz = (if sz < 4096 then 4096 else sz)
      in bindE (assertE (0 < sz)) (\<lambda>_.
           if guard then bindE (guarded_size sz pgsz) (\<lambda>sz. Inr (sz, pgsz)) else Inr (sz, 0)))"

definition bytes64 :: "u64 \<Rightarrow> bytes" where
  "bytes64 w = map (\<lambda>i. ucast (drop_bit (8 * i) w)) [0..<8]"

text \<open>
  \<open>malloc\<close> returns \<open>p\<close> for the structure, \<open>mmap\<close> or \<open>malloc\<close> the address \<open>a\<close> for the stack,
  filled with \<open>fill\<close> in the case of \<open>malloc\<close>; \<open>ok\<close> says that \<open>mprotect\<close> returns 0. The block
  of a guarded stack starts behind the guard page, which is not writable.
\<close>

definition stack_block ::
  "u64 \<Rightarrow> bool \<Rightarrow> u64 \<Rightarrow> u64 \<Rightarrow> bool \<Rightarrow> (nat \<Rightarrow> u8) \<Rightarrow> (aco_share_stack_t \<times> bytes) outcome" where
  "stack_block sz guard u_pgsz a ok fill =
     (if guard then
        bindE (assertE (a \<noteq> -1)) (\<lambda>_.
        bindE (assertE ok) (\<lambda>_.
        bindE (assertE (push_bit 1 u_pgsz \<le> sz)) (\<lambda>_.
          Inr (\<lparr>sh_ptr = a + u_pgsz, sh_sz = sz - u_pgsz, align_highptr = 0, align_retptr = 0,
                 align_validsz = 0, align_limit = 0, owner = 0, guard_page_enabled = True,
                 real_ptr = a, real_sz = sz\<rparr>, replicate (unat (sz - u_pgsz)) 0))))
      else
        bindE (assertE (a \<noteq> 0)) (\<lambda>_.
          Inr (\<lparr>sh_ptr = a, sh_sz = sz, align_highptr = 0, align_retptr = 0,
                 align_validsz = 0, align_limit = 0, owner = 0, guard_page_enabled = False,
                 real_ptr = 0, real_sz = 0\<rparr>, map fill [0..<unat sz])))"

text \<open>The last part: the aligned top of the stack and the address of the protector in it.\<close>

definition align_stack :: "u64 \<Rightarrow> aco_share_stack_t \<Rightarrow> bytes \<Rightarrow> (aco_share_stack_t \<times> bytes) outcome" where
  "align_stack protector S blk =
     (let u_p = sh_sz S - push_bit 1 8 + sh_ptr S;
          u_p = push_bit 4 (drop_bit 4 u_p);
          S = S\<lparr>align_highptr := u_p, align_retptr := u_p - 8\<rparr>
      in bindE (mem_write blk (unat (align_retptr S - sh_ptr S)) (bytes64 protector)) (\<lambda>blk.
         bindE (assertE (16 + push_bit 1 8 + 8 < sh_sz S)) (\<lambda>_.
           Inr (S\<lparr>align_limit := sh_sz S - 16 - push_bit 1 8\<rparr>, blk))))"

definition aco_share_stack_new2 ::
  "u64 \<Rightarrow> u64 \<Rightarrow> bool \<Rightarrow> u64 \<Rightarrow> u64 \<Rightarrow> u64 \<Rightarrow> bool \<Rightarrow> (nat \<Rightarrow> u8) \<Rightarrow> aco_state
    \<Rightarrow> (u64 \<times> aco_state) outcome" where
  "aco_share_stack_new2 protector sz guard pgsz p a ok fill st =
     bindE (share_stack_size sz guard pgsz) (\<lambda>(sz, u_pgsz).
     bindE (assertE (p \<noteq> 0)) (\<lambda>_.
     bindE (stack_block sz guard u_pgsz a ok fill) (\<lambda>(S, blk).
     bindE (align_stack protector S blk) (\<lambda>(S, blk).
       Inr (p, st\<lparr>stks := (stks st)(p \<mapsto> S), blks := (blks st)(sh_ptr S \<mapsto> blk)\<rparr>)))))"

definition aco_share_stack_new ::
  "u64 \<Rightarrow> u64 \<Rightarrow> u64 \<Rightarrow> u64 \<Rightarrow> u64 \<Rightarrow> bool \<Rightarrow> (nat \<Rightarrow> u8) \<Rightarrow> aco_state \<Rightarrow> (u64 \<times> aco_state) outcome"
  where "aco_share_stack_new protector sz = aco_share_stack_new2 protector sz True"

definition aco_share_stack_destroy :: "u64 \<Rightarrow> bool \<Rightarrow> aco_state \<Rightarrow> aco_state outcome" where
  "aco_share_stack_destroy p unmapped st =
     bindE (assertE (p \<noteq> 0)) (\<lambda>_.
     bindE (derefE (stks st p)) (\<lambda>S.
     bindE (assertE (sh_ptr S \<noteq> 0)) (\<lambda>_.
     bindE (if guard_page_enabled S then assertE unmapped else Inr ()) (\<lambda>_.
       Inr (st\<lparr>stks := (stks st)(p := None), blks := (blks st)(sh_ptr S := None)\<rparr>)))))"

section \<open>Coroutines\<close>

definition zero_save_stack :: aco_save_stack_t where
  "zero_save_stack =
     \<lparr>sv_ptr = 0, sv_sz = 0, valid_sz = 0, max_cpsz = 0, ct_save = 0, ct_restore = 0\<rparr>"

text \<open>\<open>malloc\<close> returns \<open>p\<close> for the structure and \<open>a\<close>, filled with \<open>fill\<close>, for the save stack.\<close>

definition aco_create ::
  "u64 \<Rightarrow> u64 \<Rightarrow> u64 \<Rightarrow> u64 \<Rightarrow> u64 \<Rightarrow> u64 \<Rightarrow> u64 \<Rightarrow> (nat \<Rightarrow> u8) \<Rightarrow> aco_state \<Rightarrow> (u64 \<times> aco_state) outcome"
  where
  "aco_create main_co0 share_stack0 save_stack_sz fp0 arg0 p a fill st =
     bindE (assertE (p \<noteq> 0)) (\<lambda>_.
       if main_co0 \<noteq> 0 then
         bindE (assertE (share_stack0 \<noteq> 0)) (\<lambda>_.
         bindE (derefE (stks st share_stack0)) (\<lambda>S.
           let rg = (replicate 9 0)[ACO_REG_IDX_RETADDR := fp0, ACO_REG_IDX_SP := align_retptr S,
                      ACO_REG_IDX_FPU := aco_gtls_fpucw_mxcsr st];
               save_stack_sz = (if save_stack_sz = 0 then 64 else save_stack_sz)
           in bindE (assertE (a \<noteq> 0)) (\<lambda>_.
                Inr (p, st\<lparr>cos := (cos st)(p \<mapsto>
                       \<lparr>reg = rg, main_co = main_co0, co_arg = arg0, is_end = False, fp = fp0,
                        save_stack = zero_save_stack\<lparr>sv_ptr := a, sv_sz := save_stack_sz\<rparr>,
                        share_stack = share_stack0\<rparr>),
                     blks := (blks st)(a \<mapsto> map fill [0..<unat save_stack_sz])\<rparr>))))
       else
         Inr (p, st\<lparr>cos := (cos st)(p \<mapsto>
                \<lparr>reg = replicate 9 0, main_co = 0, co_arg = arg0, is_end = False, fp = fp0,
                 save_stack = zero_save_stack, share_stack = 0\<rparr>)\<rparr>))"

text \<open>
  The switch stores the registers in the structure of the coroutine that is left and loads
  them from the one that is entered; the return address and the stack pointer that are
  stored are those of its caller behind the call.
\<close>

definition acosw :: "u64 \<Rightarrow> u64 \<Rightarrow> aco_state \<Rightarrow> aco_state outcome" where
  "acosw from_co to_co st =
     bindE (set_co from_co (\<lambda>C. C\<lparr>reg := cpu st\<rparr>) st) (\<lambda>st.
     bindE (derefE (cos st to_co)) (\<lambda>T. Inr (st\<lparr>cpu := reg T\<rparr>)))"

text \<open>Doubling the size of the save stack.\<close>

function grown_size :: "u64 \<Rightarrow> u64 \<Rightarrow> u64 outcome" where
  "grown_size sz needed =
     (let sz = push_bit 1 sz
      in bindE (assertE (0 < sz)) (\<lambda>_. if needed \<le> sz then Inr sz else grown_size sz needed))"
  by pat_completeness auto

lemma shift_out: "\<exists>n. push_bit n (w :: u64) = 0"
  by (rule exI [of _ 64]) (auto intro!: bit_word_eqI simp: bit_simps)

lemma least_shift:
  fixes w :: u64
  assumes "push_bit 1 w \<noteq> 0"
  shows "(LEAST n. push_bit n (push_bit 1 w) = 0) < (LEAST n. push_bit n w = 0)"
proof -
  let ?k = "LEAST n. push_bit n w = 0"
  have k: "push_bit ?k w = 0"
    using shift_out by (rule LeastI_ex)
  with assms obtain j where j: "?k = Suc j"
    by (cases ?k) auto
  with k have "push_bit j (push_bit 1 w) = 0"
    by (simp add: push_bit_push_bit)
  then have "(LEAST n. push_bit n (push_bit 1 w) = 0) \<le> j"
    by (rule Least_le)
  with j show ?thesis
    by simp
qed

termination grown_size
  by (relation "measure (\<lambda>(sz, needed). LEAST n. push_bit n sz = 0)")
    (auto simp: word_neq_0_conv intro!: least_shift [simplified])

declare grown_size.simps [simp del]

text \<open>
  The first half of \<open>aco_resume\<close>: the owner \<open>c\<close> of the share stack \<open>p\<close> saves its part of it;
  \<open>a\<close>, filled with \<open>fill\<close>, is what \<open>malloc\<close> returns when the save stack has to grow.
\<close>

definition grow_save_stack :: "u64 \<Rightarrow> u64 \<Rightarrow> (nat \<Rightarrow> u8) \<Rightarrow> aco_state \<Rightarrow> aco_state outcome" where
  "grow_save_stack c a fill st =
     bindE (derefE (cos st c)) (\<lambda>C.
       let V = save_stack C in
       if sv_sz V < valid_sz V then
         let st = st\<lparr>blks := (blks st)(sv_ptr V := None)\<rparr> in
         bindE (grown_size (sv_sz V) (valid_sz V)) (\<lambda>sz.
         bindE (assertE (a \<noteq> 0)) (\<lambda>_.
         bindE (set_co c (\<lambda>C. C\<lparr>save_stack := V\<lparr>sv_ptr := a, sv_sz := sz\<rparr>\<rparr>) st) (\<lambda>st.
           Inr (st\<lparr>blks := (blks st)(a \<mapsto> map fill [0..<unat sz])\<rparr>))))
       else Inr st)"

definition save_owner :: "u64 \<Rightarrow> u64 \<Rightarrow> u64 \<Rightarrow> (nat \<Rightarrow> u8) \<Rightarrow> aco_state \<Rightarrow> aco_state outcome" where
  "save_owner p c a fill st =
     bindE (derefE (cos st c)) (\<lambda>C.
     bindE (assertE (share_stack C = p)) (\<lambda>_.
     bindE (derefE (stks st p)) (\<lambda>S.
     let sp = reg C ! ACO_REG_IDX_SP in
     bindE (assertE (sp \<le> align_retptr S \<and> align_highptr S - align_limit S \<le> sp)) (\<lambda>_.
     bindE (set_co c (\<lambda>C. C\<lparr>save_stack := (save_stack C)\<lparr>valid_sz := align_retptr S - sp\<rparr>\<rparr>) st) (\<lambda>st.
     bindE (grow_save_stack c a fill st) (\<lambda>st.
     bindE (derefE (cos st c)) (\<lambda>C.
     let V = save_stack C in
     bindE
       (if 0 < valid_sz V then
          bindE (memcpy_drop_in (sv_ptr V) (sv_ptr V) (sh_ptr S) sp (valid_sz V) st)
            (set_co c (\<lambda>C. C\<lparr>save_stack := (save_stack C)\<lparr>ct_save := ct_save (save_stack C) + 1\<rparr>\<rparr>))
        else Inr st) (\<lambda>st.
     bindE
       (if max_cpsz V < valid_sz V
        then set_co c (\<lambda>C. C\<lparr>save_stack := (save_stack C)\<lparr>max_cpsz := valid_sz V\<rparr>\<rparr>) st
        else Inr st)
       (set_stk p (\<lambda>S. S\<lparr>owner := 0, align_validsz := 0\<rparr>))))))))))"

text \<open>The second half: the coroutine \<open>c\<close> gets its stack back.\<close>

definition restore_stack :: "u64 \<Rightarrow> u64 \<Rightarrow> aco_state \<Rightarrow> aco_state outcome" where
  "restore_stack p c st =
     bindE (derefE (cos st c)) (\<lambda>C.
     bindE (derefE (stks st p)) (\<lambda>S.
     bindE (assertE (owner S = 0)) (\<lambda>_.
     let V = save_stack C in
     bindE (assertE (valid_sz V \<le> align_limit S - 8)) (\<lambda>_.
     bindE
       (if 0 < valid_sz V then
          bindE (memcpy_drop_in (sh_ptr S) (align_retptr S - valid_sz V) (sv_ptr V) (sv_ptr V) (valid_sz V) st)
            (set_co c (\<lambda>C. C\<lparr>save_stack := (save_stack C)\<lparr>ct_restore := ct_restore (save_stack C) + 1\<rparr>\<rparr>))
        else Inr st) (\<lambda>st.
     bindE
       (if max_cpsz V < valid_sz V
        then set_co c (\<lambda>C. C\<lparr>save_stack := (save_stack C)\<lparr>max_cpsz := valid_sz V\<rparr>\<rparr>) st
        else Inr st)
       (set_stk p (\<lambda>S. S\<lparr>align_validsz := valid_sz V + 8, owner := c\<rparr>)))))))"

definition claim_stack :: "u64 \<Rightarrow> u64 \<Rightarrow> (nat \<Rightarrow> u8) \<Rightarrow> aco_state \<Rightarrow> aco_state outcome" where
  "claim_stack c a fill st =
     bindE (derefE (cos st c)) (\<lambda>C.
     let p = share_stack C in
     bindE (derefE (stks st p)) (\<lambda>S.
       if owner S \<noteq> c then
         bindE (if owner S \<noteq> 0 then save_owner p (owner S) a fill st else Inr st)
           (restore_stack p c)
       else Inr st))"

text \<open>\<open>aco_resume\<close> up to the switch into the coroutine, and behind the return from it.\<close>

definition aco_resume :: "u64 \<Rightarrow> u64 \<Rightarrow> (nat \<Rightarrow> u8) \<Rightarrow> aco_state \<Rightarrow> aco_state outcome" where
  "aco_resume c a fill st =
     bindE (assertE (c \<noteq> 0)) (\<lambda>_.
     bindE (derefE (cos st c)) (\<lambda>C.
     bindE (assertE (main_co C \<noteq> 0 \<and> \<not> is_end C)) (\<lambda>_.
     bindE (claim_stack c a fill st) (\<lambda>st.
       acosw (main_co C) c (st\<lparr>aco_gtls_co := c\<rparr>)))))"

definition aco_resumed :: "u64 \<Rightarrow> aco_state \<Rightarrow> aco_state outcome" where
  "aco_resumed c st = bindE (derefE (cos st c)) (\<lambda>C. Inr (st\<lparr>aco_gtls_co := main_co C\<rparr>))"

definition aco_yield1 :: "u64 \<Rightarrow> aco_state \<Rightarrow> aco_state outcome" where
  "aco_yield1 yield_co st =
     bindE (assertE (yield_co \<noteq> 0)) (\<lambda>_.
     bindE (derefE (cos st yield_co)) (\<lambda>C.
     bindE (assertE (main_co C \<noteq> 0)) (\<lambda>_. acosw yield_co (main_co C) st)))"

definition aco_yield :: "aco_state \<Rightarrow> aco_state outcome" where
  "aco_yield st = aco_yield1 (aco_gtls_co st) st"

definition aco_get_arg :: "aco_state \<Rightarrow> u64 outcome" where
  "aco_get_arg st = bindE (derefE (cos st (aco_gtls_co st))) (\<lambda>C. Inr (co_arg C))"

definition aco_get_co :: "aco_state \<Rightarrow> u64" where
  "aco_get_co st = aco_gtls_co st"

definition aco_is_main_co :: "aco_t \<Rightarrow> bool" where
  "aco_is_main_co C \<longleftrightarrow> main_co C = 0"

text \<open>\<open>aco_exit1\<close> up to its switch; a return from that switch aborts.\<close>

definition aco_exit1 :: "u64 \<Rightarrow> aco_state \<Rightarrow> aco_state outcome" where
  "aco_exit1 c st =
     bindE (set_co c (\<lambda>C. C\<lparr>is_end := True\<rparr>) st) (\<lambda>st.
     bindE (derefE (cos st c)) (\<lambda>C.
     bindE (derefE (stks st (share_stack C))) (\<lambda>S.
     bindE (assertE (owner S = c)) (\<lambda>_.
     bindE (set_stk (share_stack C) (\<lambda>S. S\<lparr>owner := 0, align_validsz := 0\<rparr>) st)
       (aco_yield1 c)))))"

definition aco_exit :: "aco_state \<Rightarrow> aco_state outcome" where
  "aco_exit st = aco_exit1 (aco_gtls_co st) st"

definition aco_destroy :: "u64 \<Rightarrow> aco_state \<Rightarrow> aco_state outcome" where
  "aco_destroy c st =
     bindE (assertE (c \<noteq> 0)) (\<lambda>_.
     bindE (derefE (cos st c)) (\<lambda>C.
       if aco_is_main_co C then Inr (st\<lparr>cos := (cos st)(c := None)\<rparr>)
       else
         bindE (derefE (stks st (share_stack C))) (\<lambda>S.
         bindE
           (if owner S = c then set_stk (share_stack C) (\<lambda>S. S\<lparr>owner := 0, align_validsz := 0\<rparr>) st
            else Inr st) (\<lambda>st.
           Inr (st\<lparr>blks := (blks st)(sv_ptr (save_stack C) := None), cos := (cos st)(c := None)\<rparr>)))))"

section \<open>The short copy equals the copy\<close>

lemma load_units_eq:
  "load_units s off n =
     (if off + 16 * n \<le> length s \<or> n = 0 then Inr (map (\<lambda>i. take 16 (drop (off + 16 * i) s)) [0..<n])
      else Inl (Undefined OutOfBounds))"
proof (induction n arbitrary: off)
  case (Suc n)
  have "map (\<lambda>i. take 16 (drop (off + 16 * i) s)) [0..<Suc n]
      = take 16 (drop off s) # map (\<lambda>i. take 16 (drop (off + 16 + 16 * i) s)) [0..<n]"
    by (simp add: upt_conv_Cons map_Suc_upt [symmetric] add.assoc del: upt_Suc)
  then show ?case
    by (auto simp: Suc.IH mem_read_def simp del: upt_Suc)
qed simp

lemma store_units_eq:
  assumes "\<forall>x \<in> set xs. length x = 16"
  shows "store_units xs d off =
    (if xs = [] then Inr d else mem_write d off (concat xs))"
  using assms
proof (induction xs arbitrary: d off)
  case (Cons x xs)
  have len: "length (concat xs) = 16 * length xs"
    using Cons.prems by (induction xs) auto
  from Cons show ?case
    by (auto simp: mem_write_def len ac_simps)
qed simp

lemma concat_units:
  "off + 16 * n \<le> length s \<Longrightarrow>
     concat (map (\<lambda>i. take 16 (drop (off + 16 * i) s)) [0..<n]) = take (16 * n) (drop off s)"
  by (induction n) (simp_all add: add.commute [of _ off] take_add [of "16 * _" 16, unfolded add.commute [of "16 * _" 16]])

text \<open>A write in two parts.\<close>

lemma mem_write_split:
  "bindE (mem_write d off x) (\<lambda>d. mem_write d (off + length x) y) = mem_write d off (x @ y)"
  by (auto simp: mem_write_def ac_simps)

lemma short_size:
  assumes "short_aligned_test_ok dst src sz"
  shows "unat sz = 16 * unat (drop_bit 4 sz) + 8" "unat (drop_bit 4 sz) \<le> 8"
proof -
  from assms have low: "sz AND 0xf = 0x8" and high: "drop_bit 4 sz \<le> 8"
    by (simp_all add: short_aligned_test_ok_def)
  from low have "take_bit 4 sz = 8"
    by (simp add: take_bit_eq_mask mask_eq_exp_minus_1)
  then have "unat sz mod 16 = 8"
    using unsigned_take_bit_eq [of 4 sz, where 'a = nat] by (simp add: take_bit_eq_mod)
  moreover have "unat (drop_bit 4 sz) = unat sz div 16"
    by (simp add: drop_bit_eq_div unat_div)
  ultimately show "unat sz = 16 * unat (drop_bit 4 sz) + 8"
    by presburger
  from high show "unat (drop_bit 4 sz) \<le> 8"
    by (simp add: word_le_nat_alt)
qed

lemma short_memcpy_eq:
  assumes "short_aligned_test_ok dst src sz"
  shows "short_aligned_memcpy d doff s soff sz = memcpy_blk d doff s soff sz"
proof -
  define n where "n = unat (drop_bit 4 sz)"
  have sz: "unat sz = 16 * n + 8" and n: "n \<le> 8"
    using short_size [OF assms] by (simp_all add: n_def)
  let ?u = "take (16 * n) (drop soff s)" and ?q = "take 8 (drop (soff + 16 * n) s)"
  show ?thesis
  proof (cases "soff + unat sz \<le> length s")
    case True
    have all: "take (unat sz) (drop soff s) = ?u @ ?q"
      using take_add [of "16 * n" 8 "drop soff s"] by (simp add: sz add.commute [of soff])
    have "bindE (load_units s soff n) (\<lambda>xs. store_units xs d doff)
        = (if n = 0 then Inr d else mem_write d doff ?u)"
      using True by (simp add: load_units_eq store_units_eq concat_units sz)
    moreover have "mem_write d doff [] = Inr d \<or> \<not> doff \<le> length d"
      by (auto simp: mem_write_def)
    ultimately show ?thesis
      using True n mem_write_split [of d doff ?u ?q]
      by (auto simp: short_aligned_memcpy_def memcpy_blk_def Let_def n_def [symmetric] sz mem_read_def take_add
          all mem_write_def add.commute [of _ soff])
  next
    case False
    then show ?thesis
      using n by (auto simp: short_aligned_memcpy_def memcpy_blk_def Let_def n_def [symmetric] sz mem_read_def
          load_units_eq store_units_eq mem_write_def)
  qed
qed

text \<open>
  C31: the copy specialised for short aligned sizes and the general one are the same
  function of memory: they write the same bytes and are undefined in the same cases.
\<close>

theorem memcpy_drop_in_equiv: "memcpy_drop_in db dst sb src sz st = memcpy_at db dst sb src sz st"
  by (simp add: memcpy_drop_in_def memcpy_at_def short_memcpy_eq if_distribR cong: if_cong)

lemma memcpy_ok:
  assumes "blks st sb = Some s" "blks st db = Some d" "db \<noteq> sb"
    and "unat (src - sb) + unat sz \<le> length s" "unat (dst - db) + unat sz \<le> length d"
  shows "memcpy_drop_in db dst sb src sz st = Inr (st\<lparr>blks := (blks st)(db \<mapsto>
    take (unat (dst - db)) d @ take (unat sz) (drop (unat (src - sb)) s)
      @ drop (unat (dst - db) + unat sz) d)\<rparr>)"
proof -
  have "min (length s - unat (src - sb)) (unat sz) = unat sz"
    using assms(4) by simp
  with assms show ?thesis
    by (simp add: memcpy_drop_in_def short_memcpy_eq memcpy_blk_def mem_read_def mem_write_def)
qed

section \<open>Geometry of a share stack\<close>

text \<open>
  The stack lies in its block, below the word with the address of the protector, which
  is the return address of the function of a coroutine.
\<close>

definition stack_ok :: "aco_share_stack_t \<Rightarrow> bool" where
  "stack_ok S \<longleftrightarrow>
     unat (sh_ptr S) + unat (sh_sz S) \<le> 2 ^ 63 \<and> 40 < unat (sh_sz S)
     \<and> unat (align_highptr S) = 16 * ((unat (sh_ptr S) + unat (sh_sz S) - 16) div 16)
     \<and> align_retptr S = align_highptr S - 8 \<and> align_limit S = sh_sz S - 32"

definition sp_ok :: "aco_share_stack_t \<Rightarrow> u64 \<Rightarrow> bool" where
  "sp_ok S sp \<longleftrightarrow> sp \<le> align_retptr S \<and> align_highptr S - align_limit S \<le> sp"

lemma unat_minus_le: "b \<le> a \<Longrightarrow> unat (a - b) = unat a - unat b" for a b :: u64
  by (simp add: unat_sub word_le_nat_alt)

lemma stack_ok_nat:
  assumes "stack_ok S"
  shows "unat (align_retptr S) = unat (align_highptr S) - 8"
    and "unat (align_limit S) = unat (sh_sz S) - 32"
    and "unat (align_highptr S - align_limit S) = unat (align_highptr S) + 32 - unat (sh_sz S)"
    and "unat (sh_ptr S) < unat (align_highptr S) + 32 - unat (sh_sz S)"
    and "unat (align_highptr S) + 16 \<le> unat (sh_ptr S) + unat (sh_sz S)"
proof -
  have hi: "unat (align_highptr S) + 16 \<le> unat (sh_ptr S) + unat (sh_sz S)"
    and lo: "unat (sh_ptr S) + unat (sh_sz S) < unat (align_highptr S) + 32"
    and sz: "40 < unat (sh_sz S)"
    using assms by (auto simp: stack_ok_def)
  show "unat (align_retptr S) = unat (align_highptr S) - 8"
    using assms lo sz by (simp add: stack_ok_def unat_minus_le word_le_nat_alt)
  show lim: "unat (align_limit S) = unat (sh_sz S) - 32"
    using assms sz by (simp add: stack_ok_def unat_minus_le word_le_nat_alt)
  have "unat (align_limit S) \<le> unat (align_highptr S)"
    using lim lo by linarith
  then show "unat (align_highptr S - align_limit S) = unat (align_highptr S) + 32 - unat (sh_sz S)"
    using lim sz by (simp add: unat_minus_le word_le_nat_alt)
  show "unat (sh_ptr S) < unat (align_highptr S) + 32 - unat (sh_sz S)"
    using lo sz by linarith
  show "unat (align_highptr S) + 16 \<le> unat (sh_ptr S) + unat (sh_sz S)"
    by (rule hi)
qed

lemma sp_ok_nat:
  assumes "stack_ok S" "sp_ok S sp"
  shows "unat (sp - sh_ptr S) = unat sp - unat (sh_ptr S)"
    and "unat (align_retptr S - sp) = unat (align_retptr S) - unat sp"
    and "unat (align_retptr S - sh_ptr S) = unat (align_retptr S) - unat (sh_ptr S)"
    and "unat (sh_ptr S) < unat sp" "unat sp \<le> unat (align_retptr S)"
    and "unat (align_retptr S) + 24 \<le> unat (sh_ptr S) + unat (sh_sz S)"
    and "align_retptr S - sp \<le> align_limit S - 8"
    and "unat (align_retptr S - sp) < 2 ^ 63"
proof -
  note geo = stack_ok_nat [OF assms(1)]
  have sz: "40 < unat (sh_sz S)" "unat (sh_ptr S) + unat (sh_sz S) \<le> 2 ^ 63"
    using assms(1) by (simp_all add: stack_ok_def)
  have le: "unat sp \<le> unat (align_retptr S)"
    and ge: "unat (align_highptr S) + 32 - unat (sh_sz S) \<le> unat sp"
    using assms(2) geo(3) by (simp_all add: sp_ok_def word_le_nat_alt)
  show above: "unat (sh_ptr S) < unat sp"
    using ge geo(4) by linarith
  show "unat sp \<le> unat (align_retptr S)"
    by (rule le)
  show "unat (sp - sh_ptr S) = unat sp - unat (sh_ptr S)"
    using above by (simp add: unat_minus_le word_le_nat_alt)
  show d: "unat (align_retptr S - sp) = unat (align_retptr S) - unat sp"
    using le by (simp add: unat_minus_le word_le_nat_alt)
  show "unat (align_retptr S - sh_ptr S) = unat (align_retptr S) - unat (sh_ptr S)"
    using above le by (simp add: unat_minus_le word_le_nat_alt)
  show room: "unat (align_retptr S) + 24 \<le> unat (sh_ptr S) + unat (sh_sz S)"
    using geo sz above le by linarith
  have "unat (align_limit S - 8) = unat (sh_sz S) - 40"
    using geo(2) sz by (simp add: unat_minus_le word_le_nat_alt)
  then have "unat (align_retptr S - sp) \<le> unat (align_limit S - 8)"
    using d ge geo(1) by linarith
  then show "align_retptr S - sp \<le> align_limit S - 8"
    by (simp add: word_le_nat_alt)
  show "unat (align_retptr S - sp) < 2 ^ 63"
    using d room sz above by linarith
qed

lemma sp_ok_retptr [simp]:
  assumes "stack_ok S"
  shows "sp_ok S (align_retptr S)"
proof -
  have "40 < unat (sh_sz S)"
    using assms by (simp add: stack_ok_def)
  with stack_ok_nat [OF assms] have "unat (align_highptr S - align_limit S) \<le> unat (align_retptr S)"
    by linarith
  then show ?thesis
    by (simp add: sp_ok_def word_le_nat_alt)
qed

text \<open>What the last part of \<open>aco_share_stack_new2\<close> makes of a block.\<close>

lemma unat_align16: "unat (push_bit 4 (drop_bit 4 (w :: u64))) = 16 * (unat w div 16)"
proof -
  have "unat w div 16 * 16 < 2 ^ 64"
    using unsigned_less [of w, where 'a = nat] by (simp add: le_less_trans [OF div_times_less_eq_dividend])
  then show ?thesis
    by (simp add: push_bit_eq_mult drop_bit_eq_div unat_word_ariths unat_div)
qed

lemma align_stack_ok:
  assumes "unat (sh_ptr S) + unat (sh_sz S) \<le> 2 ^ 63" "40 < unat (sh_sz S)" "length blk = unat (sh_sz S)"
  obtains S' blk' where "align_stack protector S blk = Inr (S', blk')" "stack_ok S'"
    "sh_ptr S' = sh_ptr S" "sh_sz S' = sh_sz S" "owner S' = owner S" "length blk' = length blk"
    "take 8 (drop (unat (align_retptr S' - sh_ptr S')) blk') = bytes64 protector"
proof -
  define u where "u = push_bit 4 (drop_bit 4 (sh_sz S - 16 + sh_ptr S))"
  have "unat (sh_sz S - 16 + sh_ptr S) = unat (sh_ptr S) + unat (sh_sz S) - 16"
    using assms(1,2) by (simp add: unat_word_ariths unat_minus_le word_le_nat_alt)
  then have u: "unat u = 16 * ((unat (sh_ptr S) + unat (sh_sz S) - 16) div 16)"
    by (simp add: u_def unat_align16)
  define S' where "S' = S\<lparr>align_highptr := u, align_retptr := u - 8, align_limit := sh_sz S - 32\<rparr>"
  have ok: "stack_ok S'"
    using assms by (simp add: stack_ok_def S'_def u)
  have bound: "unat (align_retptr S' - sh_ptr S) + 8 \<le> length blk"
    using sp_ok_nat(3,4,6) [OF ok sp_ok_retptr [OF ok]] assms(3) by (simp add: S'_def)
  let ?blk = "take (unat (align_retptr S' - sh_ptr S)) blk @ bytes64 protector
      @ drop (unat (align_retptr S' - sh_ptr S) + 8) blk"
  have w: "mem_write blk (unat (u - 8 - sh_ptr S)) (bytes64 protector) = Inr ?blk"
    using bound by (simp add: mem_write_def S'_def bytes64_def)
  have "align_stack protector S blk = Inr (S', ?blk)"
    using assms(2) w by (simp add: align_stack_def Let_def flip: u_def) (simp add: S'_def word_less_nat_alt)
  then show thesis
    using ok by (rule that) (use bound in \<open>simp_all add: S'_def bytes64_def\<close>)
qed

section \<open>The size of a share stack\<close>

lemma unat_two_power: "k < 64 \<Longrightarrow> unat (2 ^ k :: u64) = 2 ^ k"
proof -
  assume "k < 64"
  then have "(2::nat) ^ k < 2 ^ 64"
    by (intro power_strict_increasing) simp_all
  then have "unat (word_of_nat (2 ^ k) :: u64) = 2 ^ k"
    unfolding unat_of_nat by simp
  then show ?thesis
    by simp
qed

lemma double_fits: "k \<le> 61 \<Longrightarrow> drop_bit 1 (push_bit 1 (2 ^ k :: u64)) = 2 ^ k"
  using unat_two_power [of "Suc k"] unat_two_power [of k]
  by (intro word_unat_eq_iff [THEN iffD2]) (simp add: push_bit_eq_mult drop_bit_eq_div unat_div mult.commute)

lemma two_power_positive: "k \<le> 61 \<Longrightarrow> 0 <s (2 ^ k :: u64)"
proof -
  assume "k \<le> 61"
  then have "(2::int) ^ k < 2 ^ 63"
    by (intro power_strict_increasing) simp_all
  moreover have "- (2 ^ 63) \<le> (2::int) ^ k"
    by (rule order_trans [of _ 0]) simp_all
  ultimately have "sint (word_of_int (2 ^ k) :: u64) = 2 ^ k"
    unfolding signed_of_int by (simp add: signed_take_bit_int_eq_self)
  then show ?thesis
    by (simp add: word_sless_alt)
qed

lemma round_down: "x AND NOT (2 ^ k - 1) = x - take_bit k x" for x :: u64
proof -
  have "take_bit k x + (x AND NOT (mask k)) = take_bit k x OR (x AND NOT (mask k))"
    by (rule disjunctive_add) (auto simp: bit_simps)
  also have "\<dots> = x"
    by (rule bit_word_eqI) (auto simp: bit_simps)
  finally show ?thesis
    by (simp add: mask_eq_exp_minus_1 algebra_simps)
qed

lemma unat_take_bit: "unat (take_bit k x) = unat x mod 2 ^ k" for x :: u64
  unfolding unsigned_take_bit_eq by (simp only: take_bit_eq_mod)

lemma and_two_power: "x AND (2 ^ k - 1) = take_bit k x" for x :: u64
  by (simp add: take_bit_eq_mask mask_eq_exp_minus_1)

lemma power_of_two_test: "(2 ^ k - 1) AND 2 ^ k = (0 :: u64)"
  by (rule bit_word_eqI) (auto simp: bit_simps simp flip: mask_eq_exp_minus_1)

lemma unat_plus_fits: "unat a + unat b < 2 ^ 64 \<Longrightarrow> unat (a + b) = unat a + unat b" for a b :: u64
  by (simp add: unat_word_ariths)

text \<open>With a page size that is a power of two, all assertions hold and the size is a number of whole pages.\<close>

definition guarded_pages :: "nat \<Rightarrow> nat \<Rightarrow> nat" where
  "guarded_pages n P = P * (n div P + (if n mod P = 0 then 1 else 2))"

lemma guarded_size_eq:
  assumes "k \<le> 61" "0 < sz" "unat sz + 2 * 2 ^ k < 2 ^ 64"
  shows "\<exists>r. guarded_size sz (2 ^ k) = Inr r \<and> unat r = guarded_pages (unat sz) (2 ^ k)"
proof -
  let ?p = "2 ^ k :: u64" and ?P = "2 ^ k :: nat"
  define q r where "q = unat sz div ?P" and "r = unat sz mod ?P"
  have n: "unat sz = ?P * q + r" and rP: "r < ?P" and n0: "0 < unat sz"
    using assms(2) by (simp_all add: q_def r_def word_less_nat_alt)
  have p: "unat ?p = ?P"
    using assms(1) by (simp add: unat_two_power)
  have pp: "unat (push_bit 1 ?p) = 2 * ?P"
    using assms(1) unat_two_power [of "Suc k"] by (simp add: push_bit_eq_mult mult.commute)
  have low: "unat (take_bit k sz) = r"
    by (simp add: unat_take_bit r_def del: take_bit_eq_mod)
  have start: "guarded_size sz ?p = (if sz \<le> ?p then Inr (push_bit 1 ?p) else bindE
       (if take_bit k sz \<noteq> 0 then
          (let new_sz = sz - take_bit k sz
           in bindE (assertE (?p \<le> new_sz)) (\<lambda>_.
              bindE (safe_add_assert new_sz (push_bit 1 ?p)) (\<lambda>_.
              bindE (assertE (sz div ?p + 2 = (new_sz + push_bit 1 ?p) div ?p)) (\<lambda>_.
                Inr (new_sz + push_bit 1 ?p)))))
        else
          bindE (safe_add_assert sz ?p) (\<lambda>_.
          bindE (assertE (sz div ?p + 1 = (sz + ?p) div ?p)) (\<lambda>_. Inr (sz + ?p))))
       (\<lambda>sz. bindE (assertE (1 < sz div ?p \<and> take_bit k sz = 0)) (\<lambda>_. Inr sz)))"
    using assms(1) unfolding guarded_size_def
    by (simp only: double_fits two_power_positive power_of_two_test and_two_power round_down assertE_simps
        simp_thms bindE_simps)
  show ?thesis
  proof (cases "sz \<le> ?p")
    case True
    then have "unat sz \<le> ?P"
      by (simp add: word_le_nat_alt p)
    then have "guarded_pages (unat sz) ?P = 2 * ?P"
      using n0 by (cases "unat sz = ?P") (simp_all add: guarded_pages_def)
    with True pp show ?thesis
      by (simp add: start)
  next
    case False
    then have big: "?P < unat sz"
      by (simp add: word_le_nat_alt p)
    then have q1: "1 \<le> q"
      using div_le_mono [of ?P "unat sz" ?P] by (simp add: q_def)
    have "1 * (q + 2) \<le> ?P * (q + 2)"
      by (rule mult_le_mono1) simp
    also have "\<dots> < 2 ^ 64"
      using assms(3) n by simp
    finally have qb: "q + 2 < 2 ^ 64"
      by simp
    have fin: "bindE (assertE (1 < w div ?p \<and> take_bit k w = 0)) (\<lambda>_. Inr w) = Inr w"
      if "unat w = ?P * j" "1 < j" for w j
    proof -
      have "1 < unat (w div ?p)"
        using that by (simp add: unat_div p)
      moreover have "unat (take_bit k w) = 0"
        using that by (simp add: unat_take_bit del: take_bit_eq_mod)
      ultimately show ?thesis
        by (simp add: word_less_nat_alt unat_eq_0)
    qed
    show ?thesis
    proof (cases "r = 0")
      case True
      then have z: "take_bit k sz = 0"
        using low by (simp add: unat_eq_0)
      have sum: "unat (sz + ?p) = ?P * (q + 1)"
        using assms(3) n True by (subst unat_plus_fits) (simp_all add: p)
      have "unat (sz div ?p + 1) = unat ((sz + ?p) div ?p)"
        using sum n True qb by (subst unat_plus_fits) (simp_all add: unat_div p)
      then have "sz div ?p + 1 = (sz + ?p) div ?p"
        by (simp only: word_unat_eq_iff)
      then show ?thesis
        using False z sum fin [OF sum] q1 True
        by (simp add: start safe_add_assert_def word_le_nat_alt n guarded_pages_def p)
    next
      case r0: False
      then have z: "take_bit k sz \<noteq> 0"
        using low by auto
      have new: "unat (sz - take_bit k sz) = ?P * q"
        using low n by (subst unat_minus_le) (simp_all add: word_le_nat_alt)
      have sum: "unat (sz - take_bit k sz + push_bit 1 ?p) = ?P * (q + 2)"
        using assms(3) n new pp by (subst unat_plus_fits) simp_all
      have "unat (sz div ?p + 2) = unat ((sz - take_bit k sz + push_bit 1 ?p) div ?p)"
        using sum n rP qb by (subst unat_plus_fits) (simp_all add: unat_div p)
      then have "sz div ?p + 2 = (sz - take_bit k sz + push_bit 1 ?p) div ?p"
        by (simp only: word_unat_eq_iff)
      then show ?thesis
        using False z new sum fin [OF sum] q1 r0 rP
        by (simp add: start safe_add_assert_def word_le_nat_alt n guarded_pages_def p Let_def)
    qed
  qed
qed

text \<open>
  The size a caller gets at least, the size of the memory that is asked for, and the
  offset of the stack in it.
\<close>

definition asked_size :: "u64 \<Rightarrow> nat" where
  "asked_size sz = (if sz = 0 then 2 * 1024 * 1024 else max 4096 (unat sz))"

definition reserved_size :: "u64 \<Rightarrow> bool \<Rightarrow> nat \<Rightarrow> nat" where
  "reserved_size sz guard P = (if guard then guarded_pages (asked_size sz) P else asked_size sz)"

lemma guarded_pages_ge:
  assumes "0 < P" "0 < n"
  shows "n + P \<le> guarded_pages n P" "2 * P \<le> guarded_pages n P"
proof -
  define q m where "q = n div P" and "m = n mod P"
  have n: "n = P * q + m" and m: "m < P"
    using assms(1) by (simp_all add: q_def m_def)
  have eq: "guarded_pages n P = P * q + P + (if m = 0 then 0 else P)"
    by (simp add: guarded_pages_def q_def m_def)
  then show "n + P \<le> guarded_pages n P"
    using n m by simp
  have "m = 0 \<Longrightarrow> 1 \<le> q"
    using n assms(2) by (cases q) simp_all
  then have "m = 0 \<Longrightarrow> P * 1 \<le> P * q"
    by (intro mult_le_mono2)
  then show "2 * P \<le> guarded_pages n P"
    using eq by simp
qed

lemma share_stack_size_eq:
  assumes "k \<le> 61" "asked_size sz + 2 * 2 ^ k < 2 ^ 64"
  obtains r where "share_stack_size sz guard (2 ^ k) = Inr (r, if guard then 2 ^ k else 0)"
    "unat r = reserved_size sz guard (2 ^ k)"
proof -
  define n where "n = (let sz = (if sz = 0 then 1024 * 1024 * 2 else sz) in if sz < 4096 then 4096 else sz)"
  have n: "unat n = asked_size sz"
    by (auto simp: n_def asked_size_def Let_def word_less_nat_alt max_def)
  have n0: "0 < n"
    by (auto simp: n_def Let_def word_less_nat_alt)
  obtain r where "guarded_size n (2 ^ k) = Inr r" "unat r = guarded_pages (unat n) (2 ^ k)"
    using guarded_size_eq [of k n] assms n n0 by auto
  then show thesis
    using that [of "if guard then r else n"] n n0
    by (simp add: share_stack_size_def n_def [unfolded Let_def, symmetric] reserved_size_def)
qed

text \<open>The block behind a stack ends where the reserved memory ends; a guard page is cut off its
  start.\<close>

lemma stack_block_ok:
  assumes "k \<le> 61" "a \<noteq> 0" "a \<noteq> -1" "ok" "unat a + unat r \<le> 2 ^ 63"
    and ur: "unat r = reserved_size sz guard (2 ^ k)"
  shows "\<exists>S blk. stack_block r guard (if guard then 2 ^ k else 0) a ok fill = Inr (S, blk)
    \<and> unat (sh_ptr S) + unat (sh_sz S) = unat a + unat r \<and> asked_size sz \<le> unat (sh_sz S)
    \<and> length blk = unat (sh_sz S) \<and> owner S = 0"
proof (cases guard)
  case True
  have p: "unat (2 ^ k :: u64) = 2 ^ k" and pp: "unat (push_bit 1 (2 ^ k :: u64)) = 2 * 2 ^ k"
    using assms(1) unat_two_power [of k] unat_two_power [of "Suc k"] by (simp_all add: push_bit_eq_mult mult.commute)
  have "40 < asked_size sz"
    by (simp add: asked_size_def less_max_iff_disj)
  then have ge: "asked_size sz + 2 ^ k \<le> unat r" "2 * 2 ^ k \<le> unat r"
    using True ur guarded_pages_ge [of "2 ^ k" "asked_size sz"] by (simp_all add: reserved_size_def)
  then have le: "2 ^ k \<le> unat r" "unat a + 2 ^ k < 2 ^ 64"
    using assms(5) by simp_all
  have sub: "unat (r - 2 ^ k) = unat r - 2 ^ k"
    using le(1) by (subst unat_minus_le) (simp_all only: word_le_nat_alt p)
  have add: "unat (a + 2 ^ k) = unat a + 2 ^ k"
    using le(2) by (subst unat_plus_fits) (simp_all only: p)
  have "push_bit 1 (2 ^ k) \<le> r"
    using ge(2) by (simp only: word_le_nat_alt pp)
  then have blk: "stack_block r guard (if guard then 2 ^ k else 0) a ok fill = Inr (\<lparr>sh_ptr = a + 2 ^ k,
      sh_sz = r - 2 ^ k, align_highptr = 0, align_retptr = 0, align_validsz = 0, align_limit = 0, owner = 0,
      guard_page_enabled = True, real_ptr = a, real_sz = r\<rparr>, replicate (unat (r - 2 ^ k)) 0)"
    using True assms(3,4) by (simp only: stack_block_def if_True assertE_simps bindE_simps not_False_eq_True)
  have "unat (a + 2 ^ k) + unat (r - 2 ^ k) = unat a + unat r" "asked_size sz \<le> unat (r - 2 ^ k)"
    using ge(1) le(1) unfolding add sub by linarith+
  then show ?thesis
    unfolding blk by simp
next
  case False
  with assms(2) ur show ?thesis
    by (simp add: stack_block_def reserved_size_def)
qed

text \<open>
  C32: creating a share stack succeeds when the page size is a power of two, memory is
  granted and the sizes stay below half of the address space: no assertion fails, the usable
  block is at least as large as asked for (2 MB by default, at least 4096 bytes), the first
  stack pointer lies inside it behind a 16-byte aligned address, and the word there holds the address of the protector.
\<close>

theorem share_stack_new2_layout:
  assumes "k \<le> 61" "asked_size sz + 2 * 2 ^ k < 2 ^ 64" "p \<noteq> 0" "a \<noteq> 0" "a \<noteq> -1" "ok"
    and "unat a + reserved_size sz guard (2 ^ k) \<le> 2 ^ 63"
  shows "\<exists>S blk st'. aco_share_stack_new2 protector sz guard (2 ^ k) p a ok fill st = Inr (p, st')
    \<and> stks st' p = Some S \<and> blks st' (sh_ptr S) = Some blk
    \<and> stack_ok S \<and> length blk = unat (sh_sz S) \<and> asked_size sz \<le> length blk \<and> owner S = 0
    \<and> take 8 (drop (unat (align_retptr S - sh_ptr S)) blk) = bytes64 protector"
proof -
  obtain r where r: "share_stack_size sz guard (2 ^ k) = Inr (r, if guard then 2 ^ k else 0)"
    and ur: "unat r = reserved_size sz guard (2 ^ k)"
    using share_stack_size_eq [OF assms(1,2)] by blast
  obtain S blk where S: "stack_block r guard (if guard then 2 ^ k else 0) a ok fill = Inr (S, blk)"
    "unat (sh_ptr S) + unat (sh_sz S) = unat a + unat r" "asked_size sz \<le> unat (sh_sz S)"
    "length blk = unat (sh_sz S)" "owner S = 0"
    using stack_block_ok [OF assms(1,4-6) _ ur, of fill] assms(7) ur by auto
  have "40 < asked_size sz"
    by (simp add: asked_size_def less_max_iff_disj)
  then have "unat (sh_ptr S) + unat (sh_sz S) \<le> 2 ^ 63" "40 < unat (sh_sz S)"
    using S(2,3) assms(7) ur by linarith+
  from align_stack_ok [OF this S(4)] obtain S' blk' where S': "align_stack protector S blk = Inr (S', blk')"
    "stack_ok S'" "sh_sz S' = sh_sz S" "owner S' = owner S" "length blk' = length blk"
    "take 8 (drop (unat (align_retptr S' - sh_ptr S')) blk') = bytes64 protector"
    by metis
  have "aco_share_stack_new2 protector sz guard (2 ^ k) p a ok fill st
      = Inr (p, st\<lparr>stks := (stks st)(p \<mapsto> S'), blks := (blks st)(sh_ptr S' \<mapsto> blk')\<rparr>)"
    using assms(3) by (simp add: aco_share_stack_new2_def r S(1) S'(1))
  then show ?thesis
    using S' S(3-5) by simp
qed

theorem share_stack_new2_layout_witness:
  "\<exists>S blk st'. aco_share_stack_new2 99 10000 True 4096 32 65536 True (\<lambda>_. 0)
      \<lparr>cos = (\<lambda>_. None), stks = (\<lambda>_. None), blks = (\<lambda>_. None), aco_gtls_co = 0, aco_gtls_last_word_fp = 0,
       aco_gtls_fpucw_mxcsr = 0, cpu = []\<rparr> = Inr (32, st')
    \<and> stks st' 32 = Some S \<and> blks st' (sh_ptr S) = Some blk \<and> 10000 \<le> length blk"
  using share_stack_new2_layout [of 12 10000 32 65536 True True 99 "\<lambda>_. 0"
      "\<lparr>cos = (\<lambda>_. None), stks = (\<lambda>_. None), blks = (\<lambda>_. None), aco_gtls_co = 0, aco_gtls_last_word_fp = 0,
       aco_gtls_fpucw_mxcsr = 0, cpu = []\<rparr>"]
  by (auto simp: asked_size_def reserved_size_def guarded_pages_def)

end
