(* ===== verification/Coroutines.thy ===== *)
theory Coroutines
  imports Aco
begin

text \<open>
  The coroutines of \<open>libaco\<close> that share stacks behave as if each had a stack of its own.
  A step relation lets the main coroutine create and destroy stacks and coroutines and
  resume them, and lets the running coroutine do anything to its registers and to its
  part of the share stack until it yields or exits.
\<close>

section \<open>Stacks of coroutines\<close>

definition block :: "aco_state \<Rightarrow> u64 \<Rightarrow> bytes" where
  "block st a = (case blks st a of None \<Rightarrow> [] | Some b \<Rightarrow> b)"

text \<open>The bytes from the stack pointer to the first word of a stack.\<close>

definition segment :: "bytes \<Rightarrow> aco_share_stack_t \<Rightarrow> u64 \<Rightarrow> bytes" where
  "segment b S sp = take (unat (align_retptr S - sp)) (drop (unat (sp - sh_ptr S)) b)"

text \<open>The stack of a suspended coroutine, wherever it is, and the one of the running coroutine.\<close>

definition private_stack :: "aco_state \<Rightarrow> u64 \<Rightarrow> bytes" where
  "private_stack st c =
     (case cos st c of None \<Rightarrow> [] | Some C \<Rightarrow>
      case stks st (share_stack C) of None \<Rightarrow> [] | Some S \<Rightarrow>
        if owner S = c then segment (block st (sh_ptr S)) S (reg C ! ACO_REG_IDX_SP)
        else take (unat (valid_sz (save_stack C))) (block st (sv_ptr (save_stack C))))"

definition live_stack :: "aco_state \<Rightarrow> u64 \<Rightarrow> bytes" where
  "live_stack st c =
     (case cos st c of None \<Rightarrow> [] | Some C \<Rightarrow>
      case stks st (share_stack C) of None \<Rightarrow> [] | Some S \<Rightarrow>
        segment (block st (sh_ptr S)) S (cpu st ! ACO_REG_IDX_SP))"

section \<open>Well-formed states\<close>

text \<open>A block is used by one share stack or by one coroutine.\<close>

definition uses :: "aco_state \<Rightarrow> u64 + u64 \<Rightarrow> u64 \<Rightarrow> bool" where
  "uses st h a =
     (case h of
        Inl p \<Rightarrow> (\<exists>S. stks st p = Some S \<and> sh_ptr S = a)
      | Inr c \<Rightarrow> (\<exists>C. cos st c = Some C \<and> main_co C \<noteq> 0 \<and> sv_ptr (save_stack C) = a))"

definition stk_ok :: "u64 \<Rightarrow> aco_state \<Rightarrow> u64 \<Rightarrow> aco_share_stack_t \<Rightarrow> bool" where
  "stk_ok protector st p S \<longleftrightarrow>
     p \<noteq> 0 \<and> stack_ok S \<and> sh_ptr S \<noteq> 0
     \<and> (\<exists>b. blks st (sh_ptr S) = Some b \<and> length b = unat (sh_sz S)
          \<and> take 8 (drop (unat (align_retptr S - sh_ptr S)) b) = bytes64 protector)
     \<and> (owner S \<noteq> 0 \<longrightarrow> (\<exists>C. cos st (owner S) = Some C \<and> main_co C \<noteq> 0 \<and> share_stack C = p))"

definition co_ok :: "u64 \<Rightarrow> u64 \<Rightarrow> aco_state \<Rightarrow> u64 \<Rightarrow> aco_t \<Rightarrow> bool" where
  "co_ok m run st c C \<longleftrightarrow>
     c \<noteq> 0 \<and> c \<noteq> m \<and> main_co C = m
     \<and> (\<exists>b. blks st (sv_ptr (save_stack C)) = Some b \<and> length b = unat (sv_sz (save_stack C)))
     \<and> 0 < sv_sz (save_stack C)
     \<and> (\<exists>S. stks st (share_stack C) = Some S
          \<and> (is_end C \<longrightarrow> owner S \<noteq> c)
          \<and> (c = run \<longrightarrow> owner S = c \<and> length (cpu st) = 9 \<and> sp_ok S (cpu st ! ACO_REG_IDX_SP))
          \<and> (c \<noteq> run \<and> \<not> is_end C \<longrightarrow> length (reg C) = 9 \<and> sp_ok S (reg C ! ACO_REG_IDX_SP)
               \<and> (owner S \<noteq> c \<longrightarrow> valid_sz (save_stack C) \<le> sv_sz (save_stack C)
                    \<and> valid_sz (save_stack C) = align_retptr S - reg C ! ACO_REG_IDX_SP)))"

definition aco_wf :: "u64 \<Rightarrow> u64 \<Rightarrow> u64 \<Rightarrow> aco_state \<Rightarrow> bool" where
  "aco_wf protector m run st \<longleftrightarrow>
     m \<noteq> 0 \<and> (\<exists>M. cos st m = Some M \<and> main_co M = 0)
     \<and> (run \<noteq> 0 \<longrightarrow> aco_gtls_co st = run \<and> (\<exists>C. cos st run = Some C \<and> main_co C \<noteq> 0))
     \<and> (\<forall>p S. stks st p = Some S \<longrightarrow> stk_ok protector st p S)
     \<and> (\<forall>c C. cos st c = Some C \<and> c \<noteq> m \<longrightarrow> co_ok m run st c C)
     \<and> (\<forall>h h' a. uses st h a \<and> uses st h' a \<longrightarrow> h = h')"

text \<open>What a step that only moves stacks keeps.\<close>

definition same_ctx :: "aco_state \<Rightarrow> aco_state \<Rightarrow> bool" where
  "same_ctx st st' \<longleftrightarrow>
     (\<forall>c. map_option (\<lambda>C. C\<lparr>save_stack := zero_save_stack\<rparr>) (cos st' c)
        = map_option (\<lambda>C. C\<lparr>save_stack := zero_save_stack\<rparr>) (cos st c))
     \<and> (\<forall>c C. cos st c = Some C \<and> main_co C \<noteq> 0 \<and> \<not> is_end C \<longrightarrow> private_stack st' c = private_stack st c)
     \<and> cpu st' = cpu st \<and> aco_gtls_co st' = aco_gtls_co st"

section \<open>What saving and restoring do\<close>

lemma grown_size_ok: "0 < sz \<Longrightarrow> sz < needed \<Longrightarrow> unat needed \<le> 2 ^ 63 \<Longrightarrow>
    \<exists>r. grown_size sz needed = Inr r \<and> needed \<le> r \<and> 0 < r"
proof (induction sz needed rule: grown_size.induct)
  case (1 sz needed)
  have d: "unat (push_bit 1 sz) = 2 * unat sz"
    using "1.prems" by (simp add: push_bit_eq_mult unat_word_ariths word_less_nat_alt)
  then have pos: "0 < push_bit 1 sz"
    using "1.prems"(1) by (simp add: word_less_nat_alt)
  show ?case
  proof (cases "needed \<le> push_bit 1 sz")
    case True
    with pos show ?thesis
      by (subst grown_size.simps) (simp del: push_bit_of_1)
  next
    case False
    then have "\<exists>r. grown_size (push_bit 1 sz) needed = Inr r \<and> needed \<le> r \<and> 0 < r"
      using "1.IH" [of "push_bit 1 sz" "()"] pos "1.prems"(3) by (simp add: assertE_def)
    with False pos show ?thesis
      by (subst grown_size.simps) simp
  qed
qed

text \<open>Two states that agree but for coroutines, stacks and blocks.\<close>

definition same_thread :: "aco_state \<Rightarrow> aco_state \<Rightarrow> bool" where
  "same_thread st st' \<longleftrightarrow> cpu st' = cpu st \<and> aco_gtls_co st' = aco_gtls_co st"

lemma grow_effect:
  assumes "cos st c = Some C" "0 < sv_sz (save_stack C)" "unat (valid_sz (save_stack C)) \<le> 2 ^ 63" "a \<noteq> 0"
    and "blks st (sv_ptr (save_stack C)) = Some b" "length b = unat (sv_sz (save_stack C))"
  obtains st' V b' where "grow_save_stack c a fill st = Inr st'"
    "cos st' = (cos st)(c \<mapsto> C\<lparr>save_stack := V\<rparr>)" "stks st' = stks st" "same_thread st st'"
    "valid_sz V = valid_sz (save_stack C)" "valid_sz V \<le> sv_sz V" "0 < sv_sz V"
    "blks st' (sv_ptr V) = Some b'" "length b' = unat (sv_sz V)"
    "sv_ptr V = sv_ptr (save_stack C) \<or> sv_ptr V = a"
    "\<And>x. x \<noteq> sv_ptr V \<Longrightarrow> x \<noteq> sv_ptr (save_stack C) \<Longrightarrow> blks st' x = blks st x"
proof (cases "sv_sz (save_stack C) < valid_sz (save_stack C)")
  case True
  obtain r where r: "grown_size (sv_sz (save_stack C)) (valid_sz (save_stack C)) = Inr r"
    "valid_sz (save_stack C) \<le> r" "0 < r"
    using grown_size_ok [OF assms(2) True assms(3)] by blast
  let ?V = "(save_stack C)\<lparr>sv_ptr := a, sv_sz := r\<rparr>"
  let ?st = "st\<lparr>blks := (blks st)(sv_ptr (save_stack C) := None, a \<mapsto> map fill [0..<unat r]),
    cos := (cos st)(c \<mapsto> C\<lparr>save_stack := ?V\<rparr>)\<rparr>"
  have run: "grow_save_stack c a fill st = Inr ?st"
    using assms(1,4) True r(1) by (simp add: grow_save_stack_def set_co_def Let_def)
  show thesis
    by (rule that [OF run, of ?V "map fill [0..<unat r]"]) (use r in \<open>simp_all add: same_thread_def\<close>)
next
  case False
  then have run: "grow_save_stack c a fill st = Inr st"
    using assms(1) by (simp add: grow_save_stack_def)
  show thesis
    by (rule that [OF run, of "save_stack C" b]) (use assms False in \<open>simp_all add: same_thread_def fun_upd_idem\<close>)
qed

lemma save_owner_effect:
  assumes S: "stks st p = Some S" "stack_ok S" "blks st (sh_ptr S) = Some d" "length d = unat (sh_sz S)"
    and C: "cos st c = Some C" "share_stack C = p" "sp_ok S (reg C ! ACO_REG_IDX_SP)"
    and V: "0 < sv_sz (save_stack C)" "blks st (sv_ptr (save_stack C)) = Some b" "length b = unat (sv_sz (save_stack C))"
    and a: "a \<noteq> 0" "a \<noteq> sh_ptr S" "sv_ptr (save_stack C) \<noteq> sh_ptr S"
  obtains st' V b' where "save_owner p c a fill st = Inr st'"
    "cos st' = (cos st)(c \<mapsto> C\<lparr>save_stack := V\<rparr>)"
    "stks st' = (stks st)(p \<mapsto> S\<lparr>owner := 0, align_validsz := 0\<rparr>)" "same_thread st st'"
    "valid_sz V = align_retptr S - reg C ! ACO_REG_IDX_SP" "valid_sz V \<le> sv_sz V" "0 < sv_sz V"
    "blks st' (sv_ptr V) = Some b'" "length b' = unat (sv_sz V)"
    "take (unat (valid_sz V)) b' = segment d S (reg C ! ACO_REG_IDX_SP)"
    "sv_ptr V = sv_ptr (save_stack C) \<or> sv_ptr V = a"
    "\<And>x. x \<noteq> sv_ptr V \<Longrightarrow> x \<noteq> sv_ptr (save_stack C) \<Longrightarrow> blks st' x = blks st x"
proof -
  let ?sp = "reg C ! ACO_REG_IDX_SP"
  let ?v = "align_retptr S - ?sp"
  let ?C = "C\<lparr>save_stack := (save_stack C)\<lparr>valid_sz := ?v\<rparr>\<rparr>"
  let ?st = "st\<lparr>cos := (cos st)(c \<mapsto> ?C)\<rparr>"
  note geo = sp_ok_nat [OF S(2) C(3)]
  obtain st1 V b1 where g: "grow_save_stack c a fill ?st = Inr st1"
    "cos st1 = (cos ?st)(c \<mapsto> ?C\<lparr>save_stack := V\<rparr>)" "stks st1 = stks ?st" "same_thread ?st st1"
    "valid_sz V = ?v" "valid_sz V \<le> sv_sz V" "0 < sv_sz V"
    "blks st1 (sv_ptr V) = Some b1" "length b1 = unat (sv_sz V)"
    "sv_ptr V = sv_ptr (save_stack C) \<or> sv_ptr V = a"
    "\<And>x. x \<noteq> sv_ptr V \<Longrightarrow> x \<noteq> sv_ptr (save_stack C) \<Longrightarrow> blks st1 x = blks ?st x"
    by (rule grow_effect [of ?st c ?C a b fill]) (use V a geo(8) in \<open>simp_all\<close>)
  have d1: "blks st1 (sh_ptr S) = Some d" and ne: "sv_ptr V \<noteq> sh_ptr S"
    using g(10) g(11) [of "sh_ptr S"] a S(3) by auto
  have len: "unat (?sp - sh_ptr S) + unat ?v \<le> length d"
    using geo S(4) by linarith
  let ?b = "segment d S ?sp @ drop (unat ?v) b1"
  have seg: "length (segment d S ?sp) = unat ?v"
    using len by (simp add: segment_def)
  have cp: "memcpy_drop_in (sv_ptr V) (sv_ptr V) (sh_ptr S) ?sp ?v st1
      = Inr (st1\<lparr>blks := (blks st1)(sv_ptr V \<mapsto> ?b)\<rparr>)"
    using memcpy_ok [OF d1 g(8) ne len] g(5,6,9) by (simp add: segment_def word_le_nat_alt)
  define V2 where "V2 = (if 0 < ?v then V\<lparr>ct_save := ct_save V + 1\<rparr> else V)"
  define V3 where "V3 = (if max_cpsz V < ?v then V2\<lparr>max_cpsz := ?v\<rparr> else V2)"
  define b' where "b' = (if 0 < ?v then ?b else b1)"
  define st2 where "st2 = (if 0 < ?v then st1\<lparr>blks := (blks st1)(sv_ptr V \<mapsto> ?b)\<rparr> else st1)"
  define st3 where "st3 = st2\<lparr>cos := (cos st)(c \<mapsto> C\<lparr>save_stack := V3\<rparr>),
    stks := (stks st)(p \<mapsto> S\<lparr>owner := 0, align_validsz := 0\<rparr>)\<rparr>"
  let ?A = "st2\<lparr>cos := (cos st)(c \<mapsto> C\<lparr>save_stack := V2\<rparr>)\<rparr>"
  let ?B = "st2\<lparr>cos := (cos st)(c \<mapsto> C\<lparr>save_stack := V3\<rparr>)\<rparr>"
  have cos1: "cos st1 = (cos st)(c \<mapsto> C\<lparr>save_stack := V\<rparr>)"
    using g(2) by simp
  have A: "(if 0 < valid_sz V then bindE (memcpy_drop_in (sv_ptr V) (sv_ptr V) (sh_ptr S) ?sp (valid_sz V) st1)
      (set_co c (\<lambda>C. C\<lparr>save_stack := (save_stack C)\<lparr>ct_save := ct_save (save_stack C) + 1\<rparr>\<rparr>)) else Inr st1) = Inr ?A"
    unfolding g(5) cp by (simp add: set_co_def cos1 st2_def V2_def)
  have B: "(if max_cpsz V < valid_sz V then set_co c (\<lambda>C. C\<lparr>save_stack := (save_stack C)\<lparr>max_cpsz := valid_sz V\<rparr>\<rparr>) ?A
      else Inr ?A) = Inr ?B"
    unfolding g(5) by (simp add: set_co_def V3_def)
  have "set_stk p (\<lambda>S. S\<lparr>owner := 0, align_validsz := 0\<rparr>) ?B = Inr st3"
    using g(3) S(1) by (simp add: set_stk_def st2_def st3_def)
  moreover have sel: "save_stack (C\<lparr>save_stack := V\<rparr>) = V"
    by simp
  ultimately have run: "save_owner p c a fill st = Inr st3"
    unfolding save_owner_def set_co_def [of _ _ st]
    using C(2) C(3) [unfolded sp_ok_def] by (simp only: C(1) S(1) derefE_simps bindE_simps assertE_simps Let_def g(1) cos1 fun_upd_same A B
        sel simp_thms)
  have V3: "sv_ptr V3 = sv_ptr V" "sv_sz V3 = sv_sz V" "valid_sz V3 = ?v"
    by (simp_all add: V3_def V2_def g(5))
  show thesis
  proof (rule that [OF run, of V3 b'])
    show "same_thread st st3"
      using g(4) by (simp add: same_thread_def st3_def st2_def)
    show "take (unat (valid_sz V3)) b' = segment d S ?sp"
      using seg by (auto simp: V3 b'_def word_neq_0_conv [symmetric] simp del: word_neq_0_conv)
    show "length b' = unat (sv_sz V3)"
      using seg g(5,6,9) by (simp add: V3 b'_def word_le_nat_alt)
    show "blks st3 x = blks st x" if "x \<noteq> sv_ptr V3" "x \<noteq> sv_ptr (save_stack C)" for x
      using that g(11) [of x] by (simp add: st3_def st2_def V3)
  qed (use g in \<open>simp_all add: V3 st3_def st2_def b'_def\<close>)
qed

lemma restore_effect:
  assumes S: "stks st p = Some S" "stack_ok S" "owner S = 0" "blks st (sh_ptr S) = Some d" "length d = unat (sh_sz S)"
    and C: "cos st c = Some C" "valid_sz (save_stack C) = align_retptr S - sp" "sp_ok S sp"
      "valid_sz (save_stack C) \<le> sv_sz (save_stack C)"
    and V: "blks st (sv_ptr (save_stack C)) = Some b" "length b = unat (sv_sz (save_stack C))"
      "sv_ptr (save_stack C) \<noteq> sh_ptr S"
  obtains st' V d' where "restore_stack p c st = Inr st'"
    "cos st' = (cos st)(c \<mapsto> C\<lparr>save_stack := V\<rparr>)"
    "stks st' = (stks st)(p \<mapsto> S\<lparr>align_validsz := valid_sz (save_stack C) + 8, owner := c\<rparr>)" "same_thread st st'"
    "sv_ptr V = sv_ptr (save_stack C)" "sv_sz V = sv_sz (save_stack C)"
    "blks st' = (blks st)(sh_ptr S \<mapsto> d')" "length d' = length d"
    "segment d' S sp = take (unat (valid_sz (save_stack C))) b"
    "drop (unat (align_retptr S - sh_ptr S)) d' = drop (unat (align_retptr S - sh_ptr S)) d"
proof -
  let ?V = "save_stack C"
  let ?v = "valid_sz ?V" and ?o = "unat (sp - sh_ptr S)"
  note geo = sp_ok_nat [OF S(2) C(3)]
  have end_off: "?o + unat ?v = unat (align_retptr S - sh_ptr S)"
    unfolding C(2) using geo(1-5) by linarith
  have len: "?o + unat ?v \<le> length d" "unat ?v \<le> length b"
    using geo S(5) V(2) C(4) unfolding end_off by (linarith, simp add: word_le_nat_alt)
  have dst: "align_retptr S - ?v = sp"
    by (simp add: C(2))
  have lim: "?v \<le> align_limit S - 8"
    using geo(7) by (simp add: C(2))
  define V2 where "V2 = (if 0 < ?v then ?V\<lparr>ct_restore := ct_restore ?V + 1\<rparr> else ?V)"
  define V3 where "V3 = (if max_cpsz ?V < ?v then V2\<lparr>max_cpsz := ?v\<rparr> else V2)"
  define d' where "d' = (if 0 < ?v then take ?o d @ take (unat ?v) b @ drop (?o + unat ?v) d else d)"
  define st2 where "st2 = (if 0 < ?v then st\<lparr>blks := (blks st)(sh_ptr S \<mapsto> d')\<rparr> else st)"
  let ?A = "st2\<lparr>cos := (cos st)(c \<mapsto> C\<lparr>save_stack := V2\<rparr>)\<rparr>"
  let ?B = "st2\<lparr>cos := (cos st)(c \<mapsto> C\<lparr>save_stack := V3\<rparr>)\<rparr>"
  define st3 where "st3 = ?B\<lparr>stks := (stks st)(p \<mapsto> S\<lparr>align_validsz := ?v + 8, owner := c\<rparr>)\<rparr>"
  have cp: "memcpy_drop_in (sh_ptr S) sp (sv_ptr ?V) (sv_ptr ?V) ?v st
      = Inr (st\<lparr>blks := (blks st)(sh_ptr S \<mapsto> take ?o d @ take (unat ?v) b @ drop (?o + unat ?v) d)\<rparr>)"
    using memcpy_ok [OF V(1) S(4) V(3) [symmetric], of "sv_ptr ?V" ?v sp] len by simp
  have A: "(if 0 < ?v then bindE (memcpy_drop_in (sh_ptr S) sp (sv_ptr ?V) (sv_ptr ?V) ?v st)
      (set_co c (\<lambda>C. C\<lparr>save_stack := (save_stack C)\<lparr>ct_restore := ct_restore (save_stack C) + 1\<rparr>\<rparr>)) else Inr st) = Inr ?A"
    unfolding cp by (simp add: set_co_def C(1) st2_def V2_def d'_def fun_upd_idem)
  have B: "(if max_cpsz ?V < ?v then set_co c (\<lambda>C. C\<lparr>save_stack := (save_stack C)\<lparr>max_cpsz := ?v\<rparr>\<rparr>) ?A
      else Inr ?A) = Inr ?B"
    by (simp add: set_co_def V3_def)
  have "set_stk p (\<lambda>S. S\<lparr>align_validsz := ?v + 8, owner := c\<rparr>) ?B = Inr st3"
    using S(1) by (simp add: set_stk_def st2_def st3_def)
  then have run: "restore_stack p c st = Inr st3"
    unfolding restore_stack_def using lim
    by (simp only: C(1) S(1,3) derefE_simps bindE_simps assertE_simps Let_def dst A B simp_thms)
  have d0: "\<not> 0 < ?v \<Longrightarrow> unat ?v = 0"
    by (simp add: word_less_nat_alt)
  show thesis
  proof (rule that [OF run, of V3 d'])
    show "same_thread st st3"
      by (simp add: same_thread_def st3_def st2_def)
    show "length d' = length d"
      using len by (simp add: d'_def)
    show "blks st3 = (blks st)(sh_ptr S \<mapsto> d')"
      using S(4) by (simp add: st3_def st2_def d'_def fun_upd_idem)
    show "segment d' S sp = take (unat ?v) b"
      using len d0 by (cases "0 < ?v") (simp_all add: segment_def C(2) [symmetric] d'_def)
    show "drop (unat (align_retptr S - sh_ptr S)) d' = drop (unat (align_retptr S - sh_ptr S)) d"
      using len by (simp add: d'_def end_off [symmetric])
  qed (simp_all add: st3_def V3_def V2_def)
qed

section \<open>Reading the invariant\<close>

lemma aco_wf_stk: "aco_wf protector m run st \<Longrightarrow> stks st p = Some S \<Longrightarrow> stk_ok protector st p S"
  by (simp add: aco_wf_def)

lemma aco_wf_co: "aco_wf protector m run st \<Longrightarrow> cos st c = Some C \<Longrightarrow> main_co C \<noteq> 0 \<Longrightarrow> co_ok m run st c C"
  unfolding aco_wf_def by (metis option.inject)

lemma aco_wf_uses: "aco_wf protector m run st \<Longrightarrow> uses st h a \<Longrightarrow> uses st h' a \<Longrightarrow> h = h'"
  unfolding aco_wf_def by blast

lemma uses_simps:
  "uses st (Inl p) a \<longleftrightarrow> (\<exists>S. stks st p = Some S \<and> sh_ptr S = a)"
  "uses st (Inr c) a \<longleftrightarrow> (\<exists>C. cos st c = Some C \<and> main_co C \<noteq> 0 \<and> sv_ptr (save_stack C) = a)"
  by (simp_all add: uses_def)

text \<open>Blocks of different users are different.\<close>

lemma aco_wf_distinct:
  assumes "aco_wf protector m run st"
  shows "stks st p = Some S \<Longrightarrow> cos st c = Some C \<Longrightarrow> main_co C \<noteq> 0 \<Longrightarrow> sv_ptr (save_stack C) \<noteq> sh_ptr S"
    and "stks st p = Some S \<Longrightarrow> stks st p' = Some S' \<Longrightarrow> p \<noteq> p' \<Longrightarrow> sh_ptr S \<noteq> sh_ptr S'"
    and "cos st c = Some C \<Longrightarrow> cos st c' = Some C' \<Longrightarrow> main_co C \<noteq> 0 \<Longrightarrow> main_co C' \<noteq> 0 \<Longrightarrow> c \<noteq> c'
      \<Longrightarrow> sv_ptr (save_stack C) \<noteq> sv_ptr (save_stack C')"
  using aco_wf_uses [OF assms, of "Inl p" _ "Inr c"] aco_wf_uses [OF assms, of "Inl p" _ "Inl p'"]
    aco_wf_uses [OF assms, of "Inr c" _ "Inr c'"]
  by (auto simp: uses_simps)

text \<open>A block that is used is allocated.\<close>

lemma aco_wf_allocated:
  assumes "aco_wf protector m run st" "uses st h a"
  shows "blks st a \<noteq> None"
proof (cases h)
  case (Inl p)
  then show ?thesis
    using assms aco_wf_stk [OF assms(1), of p] by (auto simp: uses_simps stk_ok_def)
next
  case (Inr c)
  then show ?thesis
    using assms aco_wf_co [OF assms(1), of c] by (auto simp: uses_simps co_ok_def)
qed

section \<open>Frames\<close>

text \<open>A share stack that differs only in its owner, which is not the coroutine \<open>c\<close>.\<close>

definition stk_sim :: "u64 \<Rightarrow> aco_share_stack_t \<Rightarrow> aco_share_stack_t \<Rightarrow> bool" where
  "stk_sim c S S' \<longleftrightarrow> (owner S' = c \<longleftrightarrow> owner S = c)
     \<and> sh_ptr S' = sh_ptr S \<and> sh_sz S' = sh_sz S \<and> align_highptr S' = align_highptr S
     \<and> align_retptr S' = align_retptr S \<and> align_limit S' = align_limit S"

lemma stk_sim_geometry:
  "stk_sim c S S' \<Longrightarrow> sp_ok S' = sp_ok S" "stk_sim c S S' \<Longrightarrow> segment b S' = segment b S"
  "stk_sim c S S' \<Longrightarrow> stack_ok S' = stack_ok S"
  by (auto simp: stk_sim_def sp_ok_def segment_def stack_ok_def fun_eq_iff)

lemma stk_sim_refl [simp]: "stk_sim c S S"
  by (simp add: stk_sim_def)

lemma stk_ok_frame:
  assumes "stk_ok protector st p S" "blks st' (sh_ptr S) = blks st (sh_ptr S)"
    and "\<And>C. owner S \<noteq> 0 \<Longrightarrow> cos st (owner S) = Some C \<Longrightarrow>
      \<exists>C'. cos st' (owner S) = Some C' \<and> main_co C' = main_co C \<and> share_stack C' = share_stack C"
  shows "stk_ok protector st' p S"
  using assms by (auto simp: stk_ok_def)

lemma co_ok_frame:
  assumes "co_ok m run st c C" "blks st' (sv_ptr (save_stack C)) = blks st (sv_ptr (save_stack C))"
    and "\<And>S. stks st (share_stack C) = Some S \<Longrightarrow> \<exists>S'. stks st' (share_stack C) = Some S' \<and> stk_sim c S S'"
    and "c = run \<Longrightarrow> cpu st' = cpu st"
  shows "co_ok m run st' c C"
proof -
  from assms(1) obtain S where S: "stks st (share_stack C) = Some S"
    by (auto simp: co_ok_def)
  from assms(3) [OF S] obtain S' where S': "stks st' (share_stack C) = Some S'" "stk_sim c S S'"
    by blast
  show ?thesis
    using assms(1,2,4) S S' stk_sim_geometry [OF S'(2)] by (auto simp: co_ok_def stk_sim_def)
qed

lemma private_frame:
  assumes "cos st' c = cos st c" "cos st c = Some C"
    and "\<And>S. stks st (share_stack C) = Some S \<Longrightarrow> \<exists>S'. stks st' (share_stack C) = Some S' \<and> stk_sim c S S'
      \<and> (if owner S = c then blks st' (sh_ptr S) = blks st (sh_ptr S)
         else blks st' (sv_ptr (save_stack C)) = blks st (sv_ptr (save_stack C)))"
    and "stks st (share_stack C) \<noteq> None"
  shows "private_stack st' c = private_stack st c"
proof -
  from assms(4) obtain S where S: "stks st (share_stack C) = Some S"
    by blast
  from assms(3) [OF S] obtain S' where S': "stks st' (share_stack C) = Some S'" "stk_sim c S S'"
    "if owner S = c then blks st' (sh_ptr S) = blks st (sh_ptr S)
         else blks st' (sv_ptr (save_stack C)) = blks st (sv_ptr (save_stack C))"
    by blast
  show ?thesis
    using assms(1,2) S S' stk_sim_geometry(2) [OF S'(2)]
    by (simp add: private_stack_def block_def stk_sim_def split: if_splits)
qed

lemma aco_wf_cases:
  assumes "aco_wf protector m run st"
  shows "m \<noteq> 0" "\<exists>M. cos st m = Some M \<and> main_co M = 0"
    "cos st c = Some C \<Longrightarrow> c \<noteq> m \<Longrightarrow> co_ok m run st c C" "cos st c = Some C \<Longrightarrow> c \<noteq> m \<Longrightarrow> main_co C = m"
    "cos st c = Some C \<Longrightarrow> main_co C \<noteq> 0 \<Longrightarrow> c \<noteq> m"
  using assms by (auto simp: aco_wf_def co_ok_def)

lemma aco_wfI:
  assumes "m \<noteq> 0" "\<exists>M. cos st m = Some M \<and> main_co M = 0"
    and "run \<noteq> 0 \<Longrightarrow> aco_gtls_co st = run \<and> (\<exists>C. cos st run = Some C \<and> main_co C \<noteq> 0)"
    and "\<And>p S. stks st p = Some S \<Longrightarrow> stk_ok protector st p S"
    and "\<And>c C. cos st c = Some C \<Longrightarrow> c \<noteq> m \<Longrightarrow> co_ok m run st c C"
    and "\<And>h h' a. uses st h a \<Longrightarrow> uses st h' a \<Longrightarrow> h = h'"
  shows "aco_wf protector m run st"
  unfolding aco_wf_def
  by (intro conjI allI impI; (elim conjE)?; (rule assms; assumption)?; (drule assms(3); (elim conjE)?; assumption)?)

text \<open>
  Moving the stack of one coroutine \<open>c\<close> between its share stack \<open>p\<close> and its save stack
  keeps the invariant and every stack, if it keeps the stack of \<open>c\<close>.
\<close>

lemma move_wf:
  assumes wf: "aco_wf protector m 0 st"
    and C: "cos st c = Some C" "main_co C \<noteq> 0" "stks st (share_stack C) = Some S"
    and cos': "cos st' = (cos st)(c \<mapsto> C\<lparr>save_stack := V\<rparr>)"
    and stks': "stks st' = (stks st)(share_stack C \<mapsto> S')" and thread: "same_thread st st'"
    and owners: "owner S \<in> {0, c}" "owner S' \<in> {0, c}" and geo: "stk_sim c S (S'\<lparr>owner := owner S\<rparr>)"
    and S': "stk_ok protector st' (share_stack C) S'" and C': "co_ok m 0 st' c (C\<lparr>save_stack := V\<rparr>)"
    and frame: "\<And>h x. uses st h x \<Longrightarrow> h \<noteq> Inr c \<Longrightarrow> h \<noteq> Inl (share_stack C) \<Longrightarrow> blks st' x = blks st x"
    and new: "sv_ptr V = sv_ptr (save_stack C) \<or> blks st (sv_ptr V) = None"
    and priv: "\<not> is_end C \<Longrightarrow> private_stack st' c = private_stack st c"
  shows "aco_wf protector m 0 st'" "same_ctx st st'"
proof -
  have cm: "c \<noteq> m" and c0: "c \<noteq> 0"
    using aco_wf_co [OF wf C(1,2)] by (simp_all add: co_ok_def)
  have sim: "stk_sim d S S'" if "d \<noteq> c" "d \<noteq> 0" for d
    using that owners geo by (auto simp: stk_sim_def)
  have sh: "sh_ptr S' = sh_ptr S"
    using geo by (simp add: stk_sim_def)
  have other: "\<exists>Q'. stks st' q = Some Q' \<and> stk_sim d Q Q'" if "stks st q = Some Q" "d \<noteq> c" "d \<noteq> 0" for q Q d
    using that sim C(3) by (auto simp: stks')
  have stk: "stk_ok protector st' q Q" if "stks st' q = Some Q" for q Q
  proof (cases "q = share_stack C")
    case False
    with that have q: "stks st q = Some Q"
      by (simp add: stks')
    show ?thesis
    proof (rule stk_ok_frame [OF aco_wf_stk [OF wf q]])
      show "blks st' (sh_ptr Q) = blks st (sh_ptr Q)"
        using q False by (intro frame [of "Inl q"]) (simp_all add: uses_simps)
    qed (use C(1) in \<open>auto simp: cos'\<close>)
  qed (use that S' in \<open>simp add: stks'\<close>)
  have co: "co_ok m 0 st' d D" if "cos st' d = Some D" "d \<noteq> m" for d D
  proof (cases "d = c")
    case False
    with that have d: "cos st d = Some D"
      by (simp add: cos')
    have ok: "co_ok m 0 st d D"
      by (rule aco_wf_cases(3) [OF wf d that(2)])
    then have "d \<noteq> 0" "main_co D \<noteq> 0"
      using aco_wf_cases(1) [OF wf] by (simp_all add: co_ok_def)
    with False d show ?thesis
      by (intro co_ok_frame [OF ok] frame [of "Inr d"] other) (auto simp: uses_simps)
  qed (use that C' in \<open>simp add: cos'\<close>)
  have old: "uses st h x \<or> h = Inr c \<and> blks st x = None" if "uses st' h x" for h x
    using that sh C new by (cases h) (auto simp: uses_simps cos' stks' split: if_splits)
  have one: "h = h'" if "uses st' h x" "uses st' h' x" for h h' x
    using old [OF that(1)] old [OF that(2)] aco_wf_uses [OF wf, of h x h'] aco_wf_allocated [OF wf, of _ x] by blast
  show "aco_wf protector m 0 st'"
    using aco_wf_cases(1,2) [OF wf] cm by (intro aco_wfI [OF _ _ _ stk co one]) (auto simp: cos')
  have "private_stack st' d = private_stack st d" if "cos st d = Some D" "main_co D \<noteq> 0" "\<not> is_end D" for d D
  proof (cases "d = c")
    case False
    have ok: "co_ok m 0 st d D"
      by (rule aco_wf_co [OF wf that(1,2)])
    then have d0: "d \<noteq> 0"
      by (simp add: co_ok_def)
    obtain Q where Q: "stks st (share_stack D) = Some Q"
      using ok by (auto simp: co_ok_def)
    have "owner Q = d \<Longrightarrow> share_stack D \<noteq> share_stack C"
      using Q C(3) owners False d0 by auto
    then show ?thesis
      using that False d0 Q other frame [of "Inl (share_stack D)" "sh_ptr Q"] frame [of "Inr d" "sv_ptr (save_stack D)"]
      by (intro private_frame [where C = D]) (auto simp: cos' uses_simps)
  qed (use that priv C(1) in simp)
  then show "same_ctx st st'"
    using thread C(1) by (auto simp: same_ctx_def same_thread_def cos')
qed

lemma evict_wf:
  assumes wf: "aco_wf protector m 0 st" and S: "stks st p = Some S" "owner S \<noteq> 0"
    and a: "a \<noteq> 0" "blks st a = None"
  obtains st' S' where "save_owner p (owner S) a fill st = Inr st'" "aco_wf protector m 0 st'" "same_ctx st st'"
    "stks st' p = Some S'" "owner S' = 0"
proof -
  let ?o = "owner S"
  have sok: "stk_ok protector st p S"
    by (rule aco_wf_stk [OF wf S(1)])
  then obtain C d where C: "cos st ?o = Some C" "main_co C \<noteq> 0" "share_stack C = p"
    and d: "stack_ok S" "blks st (sh_ptr S) = Some d" "length d = unat (sh_sz S)"
    using S(2) by (auto simp: stk_ok_def)
  have cok: "co_ok m 0 st ?o C"
    by (rule aco_wf_co [OF wf C(1,2)])
  then obtain b where sp: "sp_ok S (reg C ! ACO_REG_IDX_SP)" "length (reg C) = 9" and alive: "\<not> is_end C"
    and V: "0 < sv_sz (save_stack C)" "blks st (sv_ptr (save_stack C)) = Some b" "length b = unat (sv_sz (save_stack C))"
    using S C(3) by (auto simp: co_ok_def)
  have ne: "a \<noteq> sh_ptr S" "sv_ptr (save_stack C) \<noteq> sh_ptr S"
    using a(2) d(2) aco_wf_distinct(1) [OF wf S(1) C(1,2)] by auto
  obtain st' V b' where r: "save_owner p ?o a fill st = Inr st'"
    "cos st' = (cos st)(?o \<mapsto> C\<lparr>save_stack := V\<rparr>)"
    "stks st' = (stks st)(p \<mapsto> S\<lparr>owner := 0, align_validsz := 0\<rparr>)" "same_thread st st'"
    "valid_sz V = align_retptr S - reg C ! ACO_REG_IDX_SP" "valid_sz V \<le> sv_sz V" "0 < sv_sz V"
    "blks st' (sv_ptr V) = Some b'" "length b' = unat (sv_sz V)"
    "take (unat (valid_sz V)) b' = segment d S (reg C ! ACO_REG_IDX_SP)"
    "sv_ptr V = sv_ptr (save_stack C) \<or> sv_ptr V = a"
    "\<And>x. x \<noteq> sv_ptr V \<Longrightarrow> x \<noteq> sv_ptr (save_stack C) \<Longrightarrow> blks st' x = blks st x"
    by (rule save_owner_effect [OF S(1) d C(1,3) sp(1) V a(1) ne]) blast
  let ?S = "S\<lparr>owner := 0, align_validsz := 0\<rparr>"
  have apart: "x \<noteq> sv_ptr V \<and> x \<noteq> sv_ptr (save_stack C)" if "uses st h x" "h \<noteq> Inr ?o" for h x
  proof -
    have "uses st (Inr ?o) (sv_ptr (save_stack C))"
      using C by (simp add: uses_simps)
    then have "x \<noteq> sv_ptr (save_stack C)"
      using aco_wf_uses [OF wf that(1)] that(2) by blast
    moreover have "x \<noteq> a"
      using aco_wf_allocated [OF wf that(1)] a(2) by auto
    ultimately show ?thesis
      using r(11) by auto
  qed
  have sh: "blks st' (sh_ptr S) = Some d"
    using r(12) [of "sh_ptr S"] apart [of "Inl p" "sh_ptr S"] S(1) d(2) by (simp add: uses_simps)
  have Cs: "stks st (share_stack C) = Some S"
    using S(1) C(3) by simp
  have S': "stk_ok protector st' (share_stack C) ?S"
    using sok sh d(2,3) C(3) by (auto simp: stk_ok_def stack_ok_def)
  have C': "co_ok m 0 st' ?o (C\<lparr>save_stack := V\<rparr>)"
    using cok sp alive r(5-9) S(2) C(3) by (auto simp: co_ok_def r(3) sp_ok_def)
  have priv: "private_stack st' ?o = private_stack st ?o"
    using S C r(5,10) by (simp add: private_stack_def r(2,3) block_def r(8) d(2))
  have mv: "aco_wf protector m 0 st'" "same_ctx st st'"
    using move_wf [OF wf C(1,2) Cs r(2) _ r(4) _ _ _ S' C' _ _ priv] r(3,11,12) C(3) a(2) apart
    by (auto simp: stk_sim_def)
  show thesis
    by (rule that [OF r(1) mv, of ?S]) (use C(3) in \<open>simp_all add: r(3)\<close>)
qed

lemma restore_wf:
  assumes wf: "aco_wf protector m 0 st" and C: "cos st c = Some C" "main_co C \<noteq> 0" "\<not> is_end C"
    and S: "stks st (share_stack C) = Some S" "owner S = 0"
  obtains st' S' where "restore_stack (share_stack C) c st = Inr st'" "aco_wf protector m 0 st'" "same_ctx st st'"
    "stks st' (share_stack C) = Some S'" "owner S' = c"
proof -
  let ?p = "share_stack C" and ?sp = "reg C ! ACO_REG_IDX_SP"
  have sok: "stk_ok protector st ?p S"
    by (rule aco_wf_stk [OF wf S(1)])
  then obtain d where d: "stack_ok S" "blks st (sh_ptr S) = Some d" "length d = unat (sh_sz S)"
    by (auto simp: stk_ok_def)
  have cok: "co_ok m 0 st c C"
    by (rule aco_wf_co [OF wf C(1,2)])
  then obtain b where sp: "sp_ok S ?sp" "length (reg C) = 9" and c0: "c \<noteq> 0"
    and V: "blks st (sv_ptr (save_stack C)) = Some b" "length b = unat (sv_sz (save_stack C))"
      "valid_sz (save_stack C) = align_retptr S - ?sp" "valid_sz (save_stack C) \<le> sv_sz (save_stack C)"
    using S C(3) by (auto simp: co_ok_def)
  have ne: "sv_ptr (save_stack C) \<noteq> sh_ptr S"
    by (rule aco_wf_distinct(1) [OF wf S(1) C(1,2)])
  obtain st' V' d' where r: "restore_stack ?p c st = Inr st'"
    "cos st' = (cos st)(c \<mapsto> C\<lparr>save_stack := V'\<rparr>)"
    "stks st' = (stks st)(?p \<mapsto> S\<lparr>align_validsz := valid_sz (save_stack C) + 8, owner := c\<rparr>)" "same_thread st st'"
    "sv_ptr V' = sv_ptr (save_stack C)" "sv_sz V' = sv_sz (save_stack C)"
    "blks st' = (blks st)(sh_ptr S \<mapsto> d')" "length d' = length d"
    "segment d' S ?sp = take (unat (valid_sz (save_stack C))) b"
    "drop (unat (align_retptr S - sh_ptr S)) d' = drop (unat (align_retptr S - sh_ptr S)) d"
    by (rule restore_effect [OF S(1) d(1) S(2) d(2,3) C(1) V(3) sp(1) V(4,1,2) ne]) blast
  let ?S = "S\<lparr>align_validsz := valid_sz (save_stack C) + 8, owner := c\<rparr>"
  have S': "stk_ok protector st' ?p ?S"
    using sok d r(8,10) C by (auto simp: stk_ok_def stack_ok_def r(2,7))
  have C': "co_ok m 0 st' c (C\<lparr>save_stack := V'\<rparr>)"
    using cok sp C(3) V ne c0 by (auto simp: co_ok_def r(3,5,6,7) sp_ok_def)
  have priv: "private_stack st' c = private_stack st c"
    using S C c0 V(1) r(9) by (simp add: private_stack_def r(2,3,7) block_def segment_def)
  have frame: "blks st' x = blks st x" if "uses st h x" "h \<noteq> Inl ?p" for h x
    using aco_wf_uses [OF wf that(1), of "Inl ?p"] that(2) S(1) by (auto simp: r(7) uses_simps)
  have mv: "aco_wf protector m 0 st'" "same_ctx st st'"
    using move_wf [OF wf C(1,2) S(1) r(2,3,4) _ _ _ S' C' _ _ priv] r(5) S(2) frame
    by (auto simp: stk_sim_def)
  show thesis
    by (rule that [OF r(1) mv, of ?S]) (use C(3) in \<open>simp_all add: r(3)\<close>)
qed

section \<open>Resuming\<close>

definition alive :: "aco_state \<Rightarrow> u64 \<Rightarrow> bool" where
  "alive st c \<longleftrightarrow> (\<exists>C. cos st c = Some C \<and> main_co C \<noteq> 0 \<and> \<not> is_end C)"

text \<open>The registers and the stack of a suspended coroutine.\<close>

definition ctx :: "aco_state \<Rightarrow> u64 \<Rightarrow> u64 list \<times> bytes" where
  "ctx st c = (case cos st c of None \<Rightarrow> [] | Some C \<Rightarrow> reg C, private_stack st c)"

lemma same_ctx_co:
  assumes "same_ctx st st'" "cos st c = Some C"
  obtains V where "cos st' c = Some (C\<lparr>save_stack := V\<rparr>)"
proof -
  obtain C' where C': "cos st' c = Some C'" "C'\<lparr>save_stack := zero_save_stack\<rparr> = C\<lparr>save_stack := zero_save_stack\<rparr>"
    using assms unfolding same_ctx_def by (metis map_option_eq_Some option.simps(9))
  then have "C' = C\<lparr>save_stack := save_stack C'\<rparr>"
    by (cases C; cases C') simp
  with C'(1) show thesis
    by (intro that) simp
qed

lemma same_ctx_refl [simp]: "same_ctx st st"
  by (simp add: same_ctx_def)

lemma same_ctx_trans:
  assumes "same_ctx st st1" "same_ctx st1 st2"
  shows "same_ctx st st2"
proof -
  have "private_stack st2 c = private_stack st c" if C: "cos st c = Some C" "main_co C \<noteq> 0" "\<not> is_end C" for c C
  proof -
    obtain V where "cos st1 c = Some (C\<lparr>save_stack := V\<rparr>)"
      by (rule same_ctx_co [OF assms(1) C(1)])
    then show ?thesis
      using assms C by (simp add: same_ctx_def)
  qed
  then show ?thesis
    using assms by (auto simp: same_ctx_def)
qed

lemma claim_wf:
  assumes wf: "aco_wf protector m 0 st" and C: "cos st c = Some C" "main_co C \<noteq> 0" "\<not> is_end C"
    and a: "a \<noteq> 0" "blks st a = None"
  obtains st' S' where "claim_stack c a fill st = Inr st'" "aco_wf protector m 0 st'" "same_ctx st st'"
    "stks st' (share_stack C) = Some S'" "owner S' = c"
proof -
  have "co_ok m 0 st c C"
    by (rule aco_wf_co [OF wf C(1,2)])
  then obtain S where S: "stks st (share_stack C) = Some S"
    by (auto simp: co_ok_def)
  show thesis
  proof (cases "owner S = c")
    case True
    then have "claim_stack c a fill st = Inr st"
      by (simp add: claim_stack_def Let_def C(1) S)
    then show thesis
      using wf S True by (intro that) simp_all
  next
    case False
    obtain st1 S1 where st1: "(if owner S \<noteq> 0 then save_owner (share_stack C) (owner S) a fill st else Inr st) = Inr st1"
      "aco_wf protector m 0 st1" "same_ctx st st1" "stks st1 (share_stack C) = Some S1" "owner S1 = 0"
    proof (cases "owner S = 0")
      case True
      then show thesis
        using that wf S by simp
    next
      case False
      then show thesis
        using evict_wf [OF wf S False a] that by (metis (full_types))
    qed
    obtain V where C1: "cos st1 c = Some (C\<lparr>save_stack := V\<rparr>)"
      by (rule same_ctx_co [OF st1(3) C(1)])
    have "main_co (C\<lparr>save_stack := V\<rparr>) \<noteq> 0" "\<not> is_end (C\<lparr>save_stack := V\<rparr>)"
      "stks st1 (share_stack (C\<lparr>save_stack := V\<rparr>)) = Some S1"
      using C st1(4) by simp_all
    from restore_wf [OF st1(2) C1 this st1(5)] obtain st' S' where r:
      "restore_stack (share_stack C) c st1 = Inr st'" "aco_wf protector m 0 st'" "same_ctx st1 st'"
      "stks st' (share_stack C) = Some S'" "owner S' = c"
      by (metis aco_t.select_convs(7) aco_t.surjective aco_t.update_convs(6))
    have "claim_stack c a fill st = Inr st'"
      using False st1(1) r(1) by (simp add: claim_stack_def Let_def C(1) S)
    then show thesis
      by (rule that [OF _ r(2) same_ctx_trans [OF st1(3) r(3)] r(4,5)])
  qed
qed

lemma same_ctx_ctx:
  assumes "same_ctx st st'"
  shows "alive st' c = alive st c" "alive st c \<Longrightarrow> ctx st' c = ctx st c"
proof -
  have "map_option (\<lambda>C. C\<lparr>save_stack := zero_save_stack\<rparr>) (cos st' c)
      = map_option (\<lambda>C. C\<lparr>save_stack := zero_save_stack\<rparr>) (cos st c)"
    using assms by (simp add: same_ctx_def)
  then have nn: "cos st' c = None \<longleftrightarrow> cos st c = None"
    by (metis option.map_disc_iff)
  show "alive st' c = alive st c"
  proof (cases "cos st c")
    case (Some C)
    obtain V where "cos st' c = Some (C\<lparr>save_stack := V\<rparr>)"
      by (rule same_ctx_co [OF assms Some])
    with Some show ?thesis
      by (simp add: alive_def)
  qed (use nn in \<open>simp add: alive_def\<close>)
  show "ctx st' c = ctx st c" if alive: "alive st c"
  proof -
    obtain C where C: "cos st c = Some C" "main_co C \<noteq> 0" "\<not> is_end C"
      using alive by (auto simp: alive_def)
    obtain V where "cos st' c = Some (C\<lparr>save_stack := V\<rparr>)"
      by (rule same_ctx_co [OF assms C(1)])
    then show ?thesis
      using C assms by (simp add: ctx_def same_ctx_def)
  qed
qed

text \<open>Replacing the registers of one coroutine, of the processor and the running coroutine.\<close>

lemma switch_frames:
  assumes "cos st' = (cos st)(c \<mapsto> C\<lparr>reg := rg\<rparr>)" "cos st c = Some C" "stks st' = stks st" "blks st' = blks st"
  shows "uses st' = uses st" "stk_ok protector st p S \<Longrightarrow> stk_ok protector st' p S"
    "alive st' = alive st" "d \<noteq> c \<Longrightarrow> ctx st' d = ctx st d"
proof -
  show "uses st' = uses st"
    using assms by (auto simp: fun_eq_iff uses_def split: sum.splits)
  show "stk_ok protector st p S \<Longrightarrow> stk_ok protector st' p S"
    by (rule stk_ok_frame) (use assms in auto)
  show "alive st' = alive st"
    using assms by (auto simp: fun_eq_iff alive_def)
  show "d \<noteq> c \<Longrightarrow> ctx st' d = ctx st d"
    using assms by (auto simp: ctx_def private_stack_def block_def split: option.split)
qed

lemma resume_wf:
  assumes wf: "aco_wf protector m 0 st" and c: "alive st c" and a: "a \<noteq> 0" "blks st a = None"
  obtains st' M where "aco_resume c a fill st = Inr st'" "aco_wf protector m c st'"
    "cpu st' = fst (ctx st c)" "live_stack st' c = snd (ctx st c)" "aco_get_co st' = c"
    "\<And>d. alive st' d = alive st d" "\<And>d. alive st d \<Longrightarrow> d \<noteq> c \<Longrightarrow> ctx st' d = ctx st d"
    "cos st' m = Some M" "reg M = cpu st"
proof -
  obtain C where C: "cos st c = Some C" "main_co C \<noteq> 0" "\<not> is_end C"
    using c by (auto simp: alive_def)
  obtain st1 S where st1: "claim_stack c a fill st = Inr st1" "aco_wf protector m 0 st1" "same_ctx st st1"
    "stks st1 (share_stack C) = Some S" "owner S = c"
    by (rule claim_wf [OF wf C a])
  obtain V where C1: "cos st1 c = Some (C\<lparr>save_stack := V\<rparr>)"
    by (rule same_ctx_co [OF st1(3) C(1)])
  have ok: "co_ok m 0 st1 c (C\<lparr>save_stack := V\<rparr>)"
    by (rule aco_wf_co [OF st1(2) C1]) (simp add: C(2))
  obtain M where M: "cos st1 m = Some M" "main_co M = 0"
    using aco_wf_cases(2) [OF st1(2)] by blast
  have cm: "c \<noteq> m" "main_co C = m" "c \<noteq> 0"
    using ok by (simp_all add: co_ok_def)
  define st' where "st' = st1\<lparr>aco_gtls_co := c, cos := (cos st1)(m \<mapsto> M\<lparr>reg := cpu st1\<rparr>), cpu := reg C\<rparr>"
  have run: "aco_resume c a fill st = Inr st'"
    using C cm st1(1) M(1) C1 by (simp add: aco_resume_def acosw_def set_co_def st'_def)
  have fr: "cos st' = (cos st1)(m \<mapsto> M\<lparr>reg := cpu st1\<rparr>)" "stks st' = stks st1" "blks st' = blks st1"
    by (simp_all add: st'_def)
  note frames = switch_frames [OF fr(1) M(1) fr(2,3)]
  have co: "co_ok m c st' d D" if "cos st' d = Some D" "d \<noteq> m" for d D
  proof -
    have D: "cos st1 d = Some D"
      using that by (simp add: fr)
    have "co_ok m 0 st1 d D"
      by (rule aco_wf_cases(3) [OF st1(2) D that(2)])
    then have "co_ok m 0 st1 d D" .
    show ?thesis
    proof (cases "d = c")
      case True
      with D C1 have "D = C\<lparr>save_stack := V\<rparr>"
        by simp
      moreover have "cpu st' = reg C"
        by (simp add: st'_def)
      ultimately show ?thesis
        using True ok C(3) st1(4,5) by (auto simp: co_ok_def fr(2,3))
    next
      case False
      then show ?thesis
        using \<open>co_ok m 0 st1 d D\<close> by (auto simp: co_ok_def fr(2,3))
    qed
  qed
  have wf': "aco_wf protector m c st'"
  proof (rule aco_wfI)
    show "\<exists>M. cos st' m = Some M \<and> main_co M = 0"
      by (simp add: fr M(2))
    show "aco_gtls_co st' = c \<and> (\<exists>C. cos st' c = Some C \<and> main_co C \<noteq> 0)"
      using cm C1 C(2) by (simp add: st'_def)
  qed (use aco_wf_cases(1) [OF wf] frames(1,2) fr(2) aco_wf_stk [OF st1(2)] aco_wf_uses [OF st1(2)] co in auto)
  have same: "cpu st1 = cpu st"
    using st1(3) by (simp add: same_ctx_def)
  have priv: "private_stack st1 c = private_stack st c"
    using st1(3) C by (simp add: same_ctx_def)
  show thesis
  proof (rule that [OF run wf', of "M\<lparr>reg := cpu st\<rparr>"])
    show "cpu st' = fst (ctx st c)"
      by (simp add: st'_def ctx_def C(1))
    show "live_stack st' c = snd (ctx st c)"
      using priv C1 st1(4,5) cm by (simp add: live_stack_def ctx_def private_stack_def [of st1] fr block_def) (simp add: st'_def)
    show "aco_get_co st' = c"
      by (simp add: aco_get_co_def st'_def)
    show "alive st' d = alive st d" for d
      using frames(3) same_ctx_ctx(1) [OF st1(3)] by simp
    show "ctx st' d = ctx st d" if "alive st d" "d \<noteq> c" for d
    proof -
      have "d \<noteq> m"
        using that(1) aco_wf_cases(2) [OF wf] by (auto simp: alive_def)
      then show ?thesis
        using frames(4) same_ctx_ctx(2) [OF st1(3) that(1)] by simp
    qed
  qed (simp_all add: fr same)
qed

lemma yield_wf:
  assumes wf: "aco_wf protector m run st" and run: "run \<noteq> 0" and M: "cos st m = Some M"
  obtains st1 st' where "aco_yield st = Inr st1" "aco_resumed run st1 = Inr st'" "cpu st1 = reg M" "cpu st' = reg M"
    "aco_wf protector m 0 st'" "\<And>d. alive st' d = alive st d" "\<And>d. alive st d \<Longrightarrow> d \<noteq> run \<Longrightarrow> ctx st' d = ctx st d"
    "ctx st' run = (cpu st, live_stack st run)"
proof -
  obtain C where C: "cos st run = Some C" "main_co C \<noteq> 0" and gtls: "aco_gtls_co st = run"
    using wf run by (auto simp: aco_wf_def)
  have ok: "co_ok m run st run C"
    by (rule aco_wf_co [OF wf C])
  then obtain S where S: "stks st (share_stack C) = Some S" "owner S = run" "\<not> is_end C"
      "length (cpu st) = 9" "sp_ok S (cpu st ! ACO_REG_IDX_SP)"
    and cm: "main_co C = m" "run \<noteq> m"
    by (auto simp: co_ok_def)
  define st1 where "st1 = st\<lparr>cos := (cos st)(run \<mapsto> C\<lparr>reg := cpu st\<rparr>), cpu := reg M\<rparr>"
  define st' where "st' = st1\<lparr>aco_gtls_co := m\<rparr>"
  have r1: "aco_yield st = Inr st1"
    using C gtls run M cm by (simp add: aco_yield_def aco_yield1_def acosw_def set_co_def st1_def)
  have r2: "aco_resumed run st1 = Inr st'"
    by (simp add: aco_resumed_def st1_def st'_def cm)
  have fr: "cos st' = (cos st)(run \<mapsto> C\<lparr>reg := cpu st\<rparr>)" "stks st' = stks st" "blks st' = blks st"
    by (simp_all add: st'_def st1_def)
  note frames = switch_frames [OF fr(1) C(1) fr(2,3)]
  have co: "co_ok m 0 st' d D" if "cos st' d = Some D" "d \<noteq> m" for d D
  proof (cases "d = run")
    case True
    with that have "D = C\<lparr>reg := cpu st\<rparr>"
      by (simp add: fr)
    with True ok S show ?thesis
      by (auto simp: co_ok_def fr(2,3))
  next
    case False
    then have "cos st d = Some D"
      using that by (simp add: fr)
    from aco_wf_cases(3) [OF wf this that(2)] False show ?thesis
      by (auto simp: co_ok_def fr(2,3))
  qed
  have wf': "aco_wf protector m 0 st'"
  proof (rule aco_wfI)
    show "\<exists>M. cos st' m = Some M \<and> main_co M = 0"
      using aco_wf_cases(2) [OF wf] cm by (simp add: fr)
  qed (use aco_wf_cases(1) [OF wf] frames(1,2) fr(2) aco_wf_stk [OF wf] aco_wf_uses [OF wf] co in auto)
  show thesis
  proof (rule that [OF r1 r2 _ _ wf'])
    show "ctx st' run = (cpu st, live_stack st run)"
      using C(1) S by (simp add: ctx_def private_stack_def live_stack_def fr block_def)
  qed (simp_all add: frames(3,4), simp_all add: st1_def st'_def)
qed

section \<open>The other steps\<close>

text \<open>
  What the running coroutine may do: change its registers, within the limits of the stack
  for the stack pointer, and any byte of the block of its share stack below the word that
  the library keeps there.
\<close>

definition co_works :: "aco_state \<Rightarrow> aco_state \<Rightarrow> bool" where
  "co_works st st' \<longleftrightarrow>
     (\<exists>C S d d' regs. cos st (aco_gtls_co st) = Some C \<and> stks st (share_stack C) = Some S
        \<and> blks st (sh_ptr S) = Some d \<and> length d' = length d
        \<and> drop (unat (align_retptr S - sh_ptr S)) d' = drop (unat (align_retptr S - sh_ptr S)) d
        \<and> length regs = 9 \<and> sp_ok S (regs ! ACO_REG_IDX_SP)
        \<and> st' = st\<lparr>blks := (blks st)(sh_ptr S \<mapsto> d'), cpu := regs\<rparr>)"

lemma ctx_frame:
  assumes "co_ok m run st d D" "cos st d = Some D" "cos st' d = Some D"
    and "\<And>S. stks st (share_stack D) = Some S \<Longrightarrow> \<exists>S'. stks st' (share_stack D) = Some S' \<and> stk_sim d S S'
      \<and> (if owner S = d then blks st' (sh_ptr S) = blks st (sh_ptr S)
         else blks st' (sv_ptr (save_stack D)) = blks st (sv_ptr (save_stack D)))"
  shows "ctx st' d = ctx st d"
proof -
  have "stks st (share_stack D) \<noteq> None"
    using assms(1) by (auto simp: co_ok_def)
  with private_frame [of st' d st D] assms show ?thesis
    by (simp add: ctx_def)
qed

lemma alive_ok:
  assumes "aco_wf protector m run st" "alive st d"
  obtains D where "cos st d = Some D" "main_co D \<noteq> 0" "\<not> is_end D" "co_ok m run st d D" "d \<noteq> m" "d \<noteq> 0"
proof -
  obtain D where D: "cos st d = Some D" "main_co D \<noteq> 0" "\<not> is_end D"
    using assms(2) by (auto simp: alive_def)
  have ok: "co_ok m run st d D"
    by (rule aco_wf_co [OF assms(1) D(1,2)])
  then have "d \<noteq> m" "d \<noteq> 0"
    by (simp_all add: co_ok_def)
  with D ok show thesis
    by (rule that)
qed

lemma work_wf:
  assumes wf: "aco_wf protector m run st" and run: "run \<noteq> 0" and work: "co_works st st'"
  shows "aco_wf protector m run st'" "alive st' = alive st" "cos st' = cos st"
    "alive st d \<Longrightarrow> d \<noteq> run \<Longrightarrow> ctx st' d = ctx st d"
proof -
  have gtls: "aco_gtls_co st = run"
    using wf run by (auto simp: aco_wf_def)
  obtain C S d0 d' regs where w: "cos st run = Some C" "stks st (share_stack C) = Some S"
    "blks st (sh_ptr S) = Some d0" "length d' = length d0"
    "drop (unat (align_retptr S - sh_ptr S)) d' = drop (unat (align_retptr S - sh_ptr S)) d0"
    "length regs = 9" "sp_ok S (regs ! ACO_REG_IDX_SP)"
    and st': "st' = st\<lparr>blks := (blks st)(sh_ptr S \<mapsto> d'), cpu := regs\<rparr>"
    using work unfolding co_works_def gtls by blast
  have C0: "main_co C \<noteq> 0"
    using wf run w(1) by (auto simp: aco_wf_def)
  have own: "owner S = run"
    using aco_wf_co [OF wf w(1) C0] w(2) by (auto simp: co_ok_def)
  show cos': "cos st' = cos st"
    by (simp add: st')
  then show alive': "alive st' = alive st"
    by (simp add: alive_def fun_eq_iff)
  have use: "uses st' = uses st"
    by (auto simp: fun_eq_iff uses_def st' split: sum.split)
  have stk: "stk_ok protector st' q Q" if q: "stks st' q = Some Q" for q Q
  proof -
    have q': "stks st q = Some Q"
      using q by (simp add: st')
    show ?thesis
    proof (cases "q = share_stack C")
      case True
      with q' w(2) have "Q = S"
        by simp
      then show ?thesis
        using aco_wf_stk [OF wf q'] w(3-5) by (auto simp: stk_ok_def st')
    next
      case False
      then show ?thesis
        using aco_wf_distinct(2) [OF wf q' w(2)] by (intro stk_ok_frame [OF aco_wf_stk [OF wf q']]) (auto simp: st')
    qed
  qed
  have sv: "sv_ptr (save_stack D) \<noteq> sh_ptr S" if "cos st c = Some D" "main_co D \<noteq> 0" for c D
    by (rule aco_wf_distinct(1) [OF wf w(2) that])
  have co: "co_ok m run st' c D" if D: "cos st' c = Some D" "c \<noteq> m" for c D
  proof -
    have D': "cos st c = Some D"
      using D(1) by (simp add: st')
    have ok: "co_ok m run st c D"
      by (rule aco_wf_cases(3) [OF wf D' D(2)])
    then have "main_co D \<noteq> 0"
      using aco_wf_cases(1) [OF wf] by (simp add: co_ok_def)
    with sv [OF D'] ok w(1,2,6,7) D' show ?thesis
      by (cases "c = run") (auto simp: co_ok_def st')
  qed
  show "aco_wf protector m run st'"
  proof (rule aco_wfI)
    show "aco_gtls_co st' = run \<and> (\<exists>C. cos st' run = Some C \<and> main_co C \<noteq> 0)"
      using gtls w(1) C0 by (simp add: st')
  qed (use aco_wf_cases(1,2) [OF wf] stk co use cos' aco_wf_uses [OF wf] in auto)
  show "ctx st' d = ctx st d" if d: "alive st d" "d \<noteq> run"
  proof -
    obtain D where D: "cos st d = Some D" "main_co D \<noteq> 0" "co_ok m run st d D"
      using alive_ok [OF wf d(1)] by blast
    show ?thesis
    proof (rule ctx_frame [OF D(3,1)])
      fix Q
      assume Q: "stks st (share_stack D) = Some Q"
      show "\<exists>S'. stks st' (share_stack D) = Some S' \<and> stk_sim d Q S'
        \<and> (if owner Q = d then blks st' (sh_ptr Q) = blks st (sh_ptr Q)
           else blks st' (sv_ptr (save_stack D)) = blks st (sv_ptr (save_stack D)))"
        using Q sv [OF D(1,2)] own d(2) w(2) aco_wf_distinct(2) [OF wf Q w(2)]
        by (cases "share_stack D = share_stack C") (auto simp: st')
    qed (simp add: st' D(1))
  qed
qed

text \<open>A coroutine that gives up its share stack, by exit or destruction.\<close>

lemma release_wf:
  assumes wf: "aco_wf protector m run st" and C: "cos st c = Some C" "main_co C \<noteq> 0" "run \<in> {0, c}"
    and S: "stks st (share_stack C) = Some S"
    and stks': "stks st' = (if owner S = c then (stks st)(share_stack C \<mapsto> S\<lparr>owner := 0, align_validsz := 0\<rparr>) else stks st)"
    and cos': "\<And>d. d \<noteq> c \<Longrightarrow> cos st' d = cos st d"
    and own: "cos st' c = None \<and> blks st' = (blks st)(sv_ptr (save_stack C) := None)
      \<or> (\<exists>rg. cos st' c = Some (C\<lparr>is_end := True, reg := rg\<rparr>)) \<and> blks st' = blks st"
  shows "aco_wf protector m 0 st'" "alive st' d \<longleftrightarrow> alive st d \<and> d \<noteq> c" "alive st d \<Longrightarrow> d \<noteq> c \<Longrightarrow> ctx st' d = ctx st d"
proof -
  have ok: "co_ok m run st c C"
    by (rule aco_wf_co [OF wf C(1,2)])
  then have c: "c \<noteq> m" "c \<noteq> 0"
    by (simp_all add: co_ok_def)
  have sim: "\<exists>Q'. stks st' q = Some Q' \<and> stk_sim d Q Q'" if "stks st q = Some Q" "d \<noteq> c" "d \<noteq> 0" for q Q d
    using that S by (auto simp: stks' stk_sim_def)
  have blk: "blks st' x = blks st x" if "uses st h x" "h \<noteq> Inr c" for h x
    using own aco_wf_uses [OF wf that(1), of "Inr c"] that(2) C by (auto simp: uses_simps)
  have use: "uses st h x" if "uses st' h x" for h x
    using that C(1,2) S own cos'
    by (cases h; cases "h = Inr c") (auto simp: uses_simps stks' split: if_splits)
  have stk: "stk_ok protector st' q Q" if q: "stks st' q = Some Q" for q Q
  proof (cases "q = share_stack C \<and> owner S = c")
    case True
    then have Q: "Q = S\<lparr>owner := 0, align_validsz := 0\<rparr>"
      using q by (simp add: stks')
    have "blks st' (sh_ptr S) = blks st (sh_ptr S)"
      using S by (intro blk [of "Inl (share_stack C)"]) (simp_all add: uses_simps)
    with aco_wf_stk [OF wf S] True show ?thesis
      by (auto simp: stk_ok_def Q stack_ok_def)
  next
    case False
    then have q': "stks st q = Some Q"
      using q by (auto simp: stks' split: if_splits)
    have "owner Q \<noteq> c"
    proof
      assume "owner Q = c"
      with aco_wf_stk [OF wf q'] c C(1) have "share_stack C = q"
        by (auto simp: stk_ok_def)
      with False q' S \<open>owner Q = c\<close> show False
        by auto
    qed
    moreover have "blks st' (sh_ptr Q) = blks st (sh_ptr Q)"
      using q' by (intro blk [of "Inl q"]) (simp_all add: uses_simps)
    ultimately show ?thesis
      using cos' by (intro stk_ok_frame [OF aco_wf_stk [OF wf q']]) auto
  qed
  have co: "co_ok m 0 st' d D" if D: "cos st' d = Some D" "d \<noteq> m" for d D
  proof (cases "d = c")
    case True
    with D own have "\<exists>rg. D = C\<lparr>is_end := True, reg := rg\<rparr>" "blks st' = blks st"
      by auto
    with True ok c S show ?thesis
      by (auto simp: co_ok_def stks')
  next
    case False
    then have D': "cos st d = Some D"
      using D cos' by simp
    have okd: "co_ok m run st d D"
      by (rule aco_wf_cases(3) [OF wf D' D(2)])
    then have okd0: "co_ok m 0 st d D" and d: "d \<noteq> 0" "main_co D \<noteq> 0"
      using C(3) False aco_wf_cases(1) [OF wf] by (auto simp: co_ok_def)
    show ?thesis
      using False d D' by (intro co_ok_frame [OF okd0] sim blk [of "Inr d"]) (auto simp: uses_simps)
  qed
  show "aco_wf protector m 0 st'"
  proof (rule aco_wfI)
    show "\<exists>M. cos st' m = Some M \<and> main_co M = 0"
      using aco_wf_cases(2) [OF wf] cos' c by auto
  qed (use aco_wf_cases(1) [OF wf] stk co use aco_wf_uses [OF wf] in blast)+
  show "alive st' d \<longleftrightarrow> alive st d \<and> d \<noteq> c"
    using cos' [of d] own by (cases "d = c") (auto simp: alive_def)
  show "ctx st' d = ctx st d" if d: "alive st d" "d \<noteq> c"
  proof -
    obtain D where D: "cos st d = Some D" "main_co D \<noteq> 0" "co_ok m run st d D" "d \<noteq> 0"
      using alive_ok [OF wf d(1)] by blast
    show ?thesis
    proof (rule ctx_frame [OF D(3,1)])
      fix Q
      assume Q: "stks st (share_stack D) = Some Q"
      obtain Q' where "stks st' (share_stack D) = Some Q'" "stk_sim d Q Q'"
        using sim [OF Q d(2) D(4)] by blast
      moreover have "blks st' (sh_ptr Q) = blks st (sh_ptr Q)"
        using Q by (intro blk [of "Inl (share_stack D)"]) (simp_all add: uses_simps)
      moreover have "blks st' (sv_ptr (save_stack D)) = blks st (sv_ptr (save_stack D))"
        using D d(2) by (intro blk [of "Inr d"]) (simp_all add: uses_simps)
      ultimately show "\<exists>S'. stks st' (share_stack D) = Some S' \<and> stk_sim d Q S'
        \<and> (if owner Q = d then blks st' (sh_ptr Q) = blks st (sh_ptr Q)
           else blks st' (sv_ptr (save_stack D)) = blks st (sv_ptr (save_stack D)))"
        by auto
    qed (use cos' d(2) D(1) in simp)
  qed
qed

lemma exit_wf:
  assumes wf: "aco_wf protector m run st" and run: "run \<noteq> 0" and M: "cos st m = Some M"
    and e: "aco_exit st = Inr st1" "aco_resumed run st1 = Inr st'"
  shows "aco_wf protector m 0 st'" "alive st' d \<longleftrightarrow> alive st d \<and> d \<noteq> run" "alive st d \<Longrightarrow> d \<noteq> run \<Longrightarrow> ctx st' d = ctx st d"
    "cpu st1 = reg M"
proof -
  obtain C where C: "cos st run = Some C" "main_co C \<noteq> 0" and gtls: "aco_gtls_co st = run"
    using wf run by (auto simp: aco_wf_def)
  have ok: "co_ok m run st run C"
    by (rule aco_wf_co [OF wf C])
  then obtain S where S: "stks st (share_stack C) = Some S" "owner S = run" and cm: "main_co C = m" "run \<noteq> m"
    by (auto simp: co_ok_def)
  define st0 where "st0 = st\<lparr>cos := (cos st)(run \<mapsto> C\<lparr>is_end := True, reg := cpu st\<rparr>),
    stks := (stks st)(share_stack C \<mapsto> S\<lparr>owner := 0, align_validsz := 0\<rparr>), cpu := reg M\<rparr>"
  have "aco_exit st = Inr st0"
    using C(1) S M cm gtls run aco_wf_cases(1) [OF wf]
    by (simp add: aco_exit_def aco_exit1_def aco_yield1_def acosw_def set_co_def set_stk_def st0_def)
  then have st1: "st1 = st0"
    using e(1) by simp
  then have st': "st' = st0\<lparr>aco_gtls_co := m\<rparr>"
    using e(2) cm by (simp add: aco_resumed_def st0_def)
  show "cpu st1 = reg M"
    by (simp add: st1 st0_def)
  note rel = release_wf [OF wf C _ S(1), of st']
  show "aco_wf protector m 0 st'"
    by (rule rel(1)) (use S in \<open>auto simp: st' st0_def\<close>)
  show "alive st' d \<longleftrightarrow> alive st d \<and> d \<noteq> run"
    by (rule rel(2)) (use S in \<open>auto simp: st' st0_def\<close>)
  show "alive st d \<Longrightarrow> d \<noteq> run \<Longrightarrow> ctx st' d = ctx st d"
    by (rule rel(3)) (use S in \<open>auto simp: st' st0_def\<close>)
qed

lemma destroy_wf:
  assumes wf: "aco_wf protector m 0 st" and c: "c \<noteq> m" and e: "aco_destroy c st = Inr st'"
  shows "aco_wf protector m 0 st'" "alive st' d \<longleftrightarrow> alive st d \<and> d \<noteq> c" "alive st d \<Longrightarrow> d \<noteq> c \<Longrightarrow> ctx st' d = ctx st d"
proof -
  obtain C where C: "cos st c = Some C"
    using e by (auto simp: aco_destroy_def)
  then have ok: "co_ok m 0 st c C"
    using c by (rule aco_wf_cases(3) [OF wf])
  then have C0: "main_co C \<noteq> 0"
    using aco_wf_cases(1) [OF wf] by (simp add: co_ok_def)
  obtain S where S: "stks st (share_stack C) = Some S"
    using ok by (auto simp: co_ok_def)
  have st': "cos st' = (cos st)(c := None)" "blks st' = (blks st)(sv_ptr (save_stack C) := None)"
    "stks st' = (if owner S = c then (stks st)(share_stack C \<mapsto> S\<lparr>owner := 0, align_validsz := 0\<rparr>) else stks st)"
    using e C C0 S by (auto simp: aco_destroy_def aco_is_main_co_def set_stk_def split: if_splits)
  note rel = release_wf [OF wf C C0 _ S st'(3)]
  show "aco_wf protector m 0 st'"
    by (rule rel(1)) (simp_all add: st')
  show "alive st' d \<longleftrightarrow> alive st d \<and> d \<noteq> c"
    by (rule rel(2)) (simp_all add: st')
  show "alive st d \<Longrightarrow> d \<noteq> c \<Longrightarrow> ctx st' d = ctx st d"
    by (rule rel(3)) (simp_all add: st')
qed

text \<open>A new share stack or a new coroutine takes blocks that nobody uses.\<close>

lemma new_stack_wf:
  assumes wf: "aco_wf protector m 0 st" and p: "p \<noteq> 0" "stks st p = None"
    and S: "stack_ok S" "sh_ptr S \<noteq> 0" "owner S = 0" "blks st (sh_ptr S) = None"
    and b: "length b = unat (sh_sz S)" "take 8 (drop (unat (align_retptr S - sh_ptr S)) b) = bytes64 protector"
    and st': "st' = st\<lparr>stks := (stks st)(p \<mapsto> S), blks := (blks st)(sh_ptr S \<mapsto> b)\<rparr>"
  shows "aco_wf protector m 0 st'" "alive st' = alive st" "alive st d \<Longrightarrow> ctx st' d = ctx st d"
proof -
  have blk: "blks st' x = blks st x" if "uses st h x" for h x
    using aco_wf_allocated [OF wf that] S(4) by (auto simp: st')
  have sim: "stks st q = Some Q \<Longrightarrow> stks st' q = Some Q" for q Q
    using p(2) by (auto simp: st')
  have use: "uses st h x \<or> h = Inl p \<and> blks st x = None" if "uses st' h x" for h x
    using that S(4) by (cases h) (auto simp: uses_simps st' split: if_splits)
  have one: "h = h'" if "uses st' h x" "uses st' h' x" for h h' x
    using use [OF that(1)] use [OF that(2)] aco_wf_uses [OF wf, of h x h'] aco_wf_allocated [OF wf, of _ x] by blast
  have stk: "stk_ok protector st' q Q" if q: "stks st' q = Some Q" for q Q
  proof (cases "q = p")
    case True
    with q p S b show ?thesis
      by (auto simp: stk_ok_def st')
  next
    case False
    with q have q': "stks st q = Some Q"
      by (simp add: st')
    show ?thesis
      using q' by (intro stk_ok_frame [OF aco_wf_stk [OF wf q']] blk [of "Inl q"]) (auto simp: uses_simps st')
  qed
  have co: "co_ok m 0 st' d D" if D: "cos st' d = Some D" "d \<noteq> m" for d D
  proof -
    have D': "cos st d = Some D"
      using D by (simp add: st')
    have ok: "co_ok m 0 st d D"
      by (rule aco_wf_cases(3) [OF wf D' D(2)])
    then have d: "d \<noteq> 0" "main_co D \<noteq> 0"
      using aco_wf_cases(1) [OF wf] by (auto simp: co_ok_def)
    show ?thesis
      using d D' sim by (intro co_ok_frame [OF ok] blk [of "Inr d"]) (auto simp: uses_simps)
  qed
  show "aco_wf protector m 0 st'"
  proof (rule aco_wfI)
    show "\<exists>M. cos st' m = Some M \<and> main_co M = 0"
      using aco_wf_cases(2) [OF wf] by (simp add: st')
  qed (use aco_wf_cases(1) [OF wf] stk co one in blast)+
  show "alive st' = alive st"
    by (simp add: alive_def fun_eq_iff st')
  show "ctx st' d = ctx st d" if d: "alive st d"
  proof -
    obtain D where D: "cos st d = Some D" "main_co D \<noteq> 0" "co_ok m 0 st d D"
      using alive_ok [OF wf d] by blast
    show ?thesis
      using D sim blk [of "Inl (share_stack D)"] blk [of "Inr d"]
      by (intro ctx_frame [OF D(3,1)]) (auto simp: uses_simps st')
  qed
qed

lemma create_wf:
  assumes wf: "aco_wf protector m 0 st" and p: "cos st q = None" "blks st a = None"
    and e: "aco_create m sh sz f arg q a fill st = Inr (c, st')"
  shows "aco_wf protector m 0 st'" "alive st' d \<longleftrightarrow> alive st d \<or> d = c" "alive st d \<Longrightarrow> ctx st' d = ctx st d"
proof -
  have m: "m \<noteq> 0"
    by (rule aco_wf_cases(1) [OF wf])
  define sv where "sv = (if sz = 0 then 64 else sz)"
  have sv: "0 < sv"
    by (simp add: sv_def word_neq_0_conv [symmetric] del: word_neq_0_conv)
  obtain S where S: "stks st sh = Some S" and q: "q \<noteq> 0" "c = q" and st': "st' = st\<lparr>cos := (cos st)(q \<mapsto>
      \<lparr>reg = (replicate 9 0)[ACO_REG_IDX_RETADDR := f, ACO_REG_IDX_SP := align_retptr S, ACO_REG_IDX_FPU := aco_gtls_fpucw_mxcsr st],
       main_co = m, co_arg = arg, is_end = False, fp = f,
       save_stack = zero_save_stack\<lparr>sv_ptr := a, sv_sz := sv\<rparr>, share_stack = sh\<rparr>),
      blks := (blks st)(a \<mapsto> map fill [0..<unat sv])\<rparr>"
    using e m by (auto simp: aco_create_def Let_def sv_def)
  have Sok: "stk_ok protector st sh S"
    by (rule aco_wf_stk [OF wf S])
  have "owner S \<noteq> q"
    using Sok p(1) q(1) by (auto simp: stk_ok_def)
  have blk: "blks st' x = blks st x" if "uses st h x" for h x
    using aco_wf_allocated [OF wf that] p(2) by (auto simp: st')
  have use: "uses st h x \<or> h = Inr q \<and> blks st x = None" if "uses st' h x" for h x
    using that p(2) by (cases h) (auto simp: uses_simps st' split: if_splits)
  have one: "h = h'" if "uses st' h x" "uses st' h' x" for h h' x
    using use [OF that(1)] use [OF that(2)] aco_wf_uses [OF wf, of h x h'] aco_wf_allocated [OF wf, of _ x] by blast
  have stk: "stk_ok protector st' r R" if r: "stks st' r = Some R" for r R
  proof -
    have r': "stks st r = Some R"
      using r by (simp add: st')
    show ?thesis
      using r' p(1) by (intro stk_ok_frame [OF aco_wf_stk [OF wf r']] blk [of "Inl r"]) (auto simp: uses_simps st')
  qed
  have co: "co_ok m 0 st' d D" if D: "cos st' d = Some D" "d \<noteq> m" for d D
  proof (cases "d = q")
    case True
    have "sp_ok S (align_retptr S)"
      using Sok by (simp add: stk_ok_def)
    then show ?thesis
      using True D q sv S m \<open>owner S \<noteq> q\<close> by (auto simp: co_ok_def st' zero_save_stack_def reg_idx)
  next
    case False
    then have D': "cos st d = Some D"
      using D by (simp add: st')
    have ok: "co_ok m 0 st d D"
      by (rule aco_wf_cases(3) [OF wf D' D(2)])
    then have d: "d \<noteq> 0" "main_co D \<noteq> 0"
      using m by (auto simp: co_ok_def)
    show ?thesis
      using d D' by (intro co_ok_frame [OF ok] blk [of "Inr d"]) (auto simp: uses_simps st')
  qed
  show "aco_wf protector m 0 st'"
  proof (rule aco_wfI)
    show "\<exists>M. cos st' m = Some M \<and> main_co M = 0"
      using aco_wf_cases(2) [OF wf] p(1) by (auto simp: st')
  qed (use m stk co one in blast)+
  show "alive st' d \<longleftrightarrow> alive st d \<or> d = c"
    using m p(1) q(2) by (auto simp: alive_def st')
  show "ctx st' d = ctx st d" if d: "alive st d"
  proof -
    obtain D where D: "cos st d = Some D" "main_co D \<noteq> 0" "co_ok m 0 st d D"
      using alive_ok [OF wf d] by blast
    then show ?thesis
      using p(1) blk [of "Inl (share_stack D)"] blk [of "Inr d"]
      by (intro ctx_frame [OF D(3,1)]) (auto simp: uses_simps st')
  qed
qed

lemma free_stack_wf:
  assumes wf: "aco_wf protector m 0 st" and e: "aco_share_stack_destroy p u st = Inr st'"
    and unused: "\<And>c C. cos st c = Some C \<Longrightarrow> main_co C \<noteq> 0 \<Longrightarrow> share_stack C \<noteq> p"
  shows "aco_wf protector m 0 st'" "alive st' = alive st" "alive st d \<Longrightarrow> ctx st' d = ctx st d"
proof -
  obtain S where S: "stks st p = Some S"
    and st': "st' = st\<lparr>stks := (stks st)(p := None), blks := (blks st)(sh_ptr S := None)\<rparr>"
    using e by (auto simp: aco_share_stack_destroy_def split: if_splits)
  have blk: "blks st' x = blks st x" if "uses st h x" "h \<noteq> Inl p" for h x
    using aco_wf_uses [OF wf that(1), of "Inl p"] that(2) S by (auto simp: uses_simps st')
  have use: "uses st h x" if "uses st' h x" for h x
    using that by (cases h) (auto simp: uses_simps st' split: if_splits)
  have stk: "stk_ok protector st' q Q" if q: "stks st' q = Some Q" for q Q
  proof -
    have q': "stks st q = Some Q" "q \<noteq> p"
      using q by (auto simp: st' split: if_splits)
    then show ?thesis
      by (intro stk_ok_frame [OF aco_wf_stk [OF wf q'(1)]] blk [of "Inl q"]) (auto simp: uses_simps st')
  qed
  have sim: "share_stack D \<noteq> p \<Longrightarrow> stks st (share_stack D) = Some Q \<Longrightarrow> stks st' (share_stack D) = Some Q" for D Q
    by (simp add: st')
  have co: "co_ok m 0 st' d D" if D: "cos st' d = Some D" "d \<noteq> m" for d D
  proof -
    have D': "cos st d = Some D"
      using D by (simp add: st')
    have ok: "co_ok m 0 st d D"
      by (rule aco_wf_cases(3) [OF wf D' D(2)])
    then have d: "d \<noteq> 0" "main_co D \<noteq> 0"
      using aco_wf_cases(1) [OF wf] by (auto simp: co_ok_def)
    show ?thesis
      using d D' sim [OF unused [OF D' d(2)]]
      by (intro co_ok_frame [OF ok] blk [of "Inr d"]) (auto simp: uses_simps)
  qed
  show "aco_wf protector m 0 st'"
  proof (rule aco_wfI)
    show "\<exists>M. cos st' m = Some M \<and> main_co M = 0"
      using aco_wf_cases(2) [OF wf] by (simp add: st')
  qed (use aco_wf_cases(1) [OF wf] stk co use aco_wf_uses [OF wf] in blast)+
  show "alive st' = alive st"
    by (simp add: alive_def fun_eq_iff st')
  show "ctx st' d = ctx st d" if d: "alive st d"
  proof -
    obtain D where D: "cos st d = Some D" "main_co D \<noteq> 0" "co_ok m 0 st d D"
      using alive_ok [OF wf d] by blast
    show ?thesis
    proof (rule ctx_frame [OF D(3,1)])
      fix Q
      assume Q: "stks st (share_stack D) = Some Q"
      show "\<exists>S'. stks st' (share_stack D) = Some S' \<and> stk_sim d Q S'
        \<and> (if owner Q = d then blks st' (sh_ptr Q) = blks st (sh_ptr Q)
           else blks st' (sv_ptr (save_stack D)) = blks st (sv_ptr (save_stack D)))"
        using D Q sim [OF unused [OF D(1,2)] Q] unused [OF D(1,2)] blk [of "Inl (share_stack D)" "sh_ptr Q"]
          blk [of "Inr d" "sv_ptr (save_stack D)"]
        by (simp add: uses_simps)
    qed (simp add: st' D(1))
  qed
qed

section \<open>Every coroutine has its own stack\<close>

text \<open>
  A configuration is the running coroutine (0 for the main one), what every coroutine had
  in its registers and on its stack when it was last left, and the state. The allocator
  returns addresses that are not in use; the blocks lie in the lower half of the address space.
\<close>

type_synonym aco_config = "u64 \<times> (u64 \<Rightarrow> u64 list \<times> bytes) \<times> aco_state"

inductive aco_step :: "u64 \<Rightarrow> u64 \<Rightarrow> aco_config \<Rightarrow> aco_config \<Rightarrow> bool" for protector m where
  new_stack: "aco_share_stack_new2 protector sz guard pgsz p a ok fill st = Inr (q, st') \<Longrightarrow> stks st p = None \<Longrightarrow>
    (\<And>S. stks st' p = Some S \<Longrightarrow> blks st (sh_ptr S) = None \<and> sh_ptr S \<noteq> 0
       \<and> unat (sh_ptr S) + unat (sh_sz S) \<le> 2 ^ 63) \<Longrightarrow>
    aco_step protector m (0, saved, st) (0, saved, st')"
| free_stack: "aco_share_stack_destroy p u st = Inr st' \<Longrightarrow>
    (\<And>c C. cos st c = Some C \<Longrightarrow> main_co C \<noteq> 0 \<Longrightarrow> share_stack C \<noteq> p) \<Longrightarrow>
    aco_step protector m (0, saved, st) (0, saved, st')"
| create: "aco_create m sh sz f arg q a fill st = Inr (c, st') \<Longrightarrow> cos st q = None \<Longrightarrow> blks st a = None \<Longrightarrow>
    aco_step protector m (0, saved, st) (0, saved(c := ctx st' c), st')"
| resume: "aco_resume c a fill st = Inr st' \<Longrightarrow> alive st c \<Longrightarrow> a \<noteq> 0 \<Longrightarrow> blks st a = None \<Longrightarrow>
    aco_step protector m (0, saved, st) (c, saved(m := (cpu st, [])), st')"
| work: "c \<noteq> 0 \<Longrightarrow> co_works st st' \<Longrightarrow> aco_step protector m (c, saved, st) (c, saved, st')"
| yield: "c \<noteq> 0 \<Longrightarrow> aco_yield st = Inr st1 \<Longrightarrow> aco_resumed c st1 = Inr st' \<Longrightarrow>
    aco_step protector m (c, saved, st) (0, saved(c := (cpu st, live_stack st c)), st')"
| exit: "c \<noteq> 0 \<Longrightarrow> aco_exit st = Inr st1 \<Longrightarrow> aco_resumed c st1 = Inr st' \<Longrightarrow>
    aco_step protector m (c, saved, st) (0, saved, st')"
| destroy: "aco_destroy c st = Inr st' \<Longrightarrow> c \<noteq> m \<Longrightarrow> aco_step protector m (0, saved, st) (0, saved, st')"

inductive_cases aco_stepE: "aco_step protector m (run, saved, st) k"

text \<open>The thread has called \<open>aco_thread_init\<close> and created its main coroutine.\<close>

definition aco_started :: "u64 \<Rightarrow> aco_state \<Rightarrow> bool" where
  "aco_started m st \<longleftrightarrow>
     (\<exists>st0 last_word f arg a fill. cos st0 = (\<lambda>_. None) \<and> stks st0 = (\<lambda>_. None)
        \<and> aco_create 0 0 0 f arg m a fill (aco_thread_init last_word st0) = Inr (m, st))"

fun aco_inv :: "u64 \<Rightarrow> u64 \<Rightarrow> aco_config \<Rightarrow> bool" where
  "aco_inv protector m (run, saved, st) \<longleftrightarrow>
     aco_wf protector m run st \<and> (\<forall>d. alive st d \<and> d \<noteq> run \<longrightarrow> saved d = ctx st d)
     \<and> (run \<noteq> 0 \<longrightarrow> (\<exists>M. cos st m = Some M \<and> saved m = (reg M, [])))"

lemma started_inv: "aco_started m st \<Longrightarrow> aco_inv protector m (0, saved, st)"
proof -
  assume "aco_started m st"
  then obtain M where m: "m \<noteq> 0" and st: "cos st = [m \<mapsto> M]" "main_co M = 0" "stks st = (\<lambda>_. None)"
    by (auto simp: aco_started_def aco_create_def aco_thread_init_def Let_def split: if_splits)
  have none: "\<not> uses st h a" for h a
    using st by (cases h) (auto simp: uses_simps split: if_splits)
  have "aco_wf protector m 0 st"
    by (rule aco_wfI) (use m st none in \<open>auto split: if_splits\<close>)
  then show ?thesis
    using st by (auto simp: alive_def split: if_splits)
qed

lemma not_alive_main: "aco_wf protector m run st \<Longrightarrow> \<not> alive st m"
  using aco_wf_cases(2) by (fastforce simp: alive_def)

lemma alive_nonzero: "aco_wf protector m run st \<Longrightarrow> alive st d \<Longrightarrow> d \<noteq> 0"
  by (erule (1) alive_ok) simp

lemma step_keeps: "aco_step protector m k k' \<Longrightarrow> aco_inv protector m k \<Longrightarrow> aco_inv protector m k'"
proof (induction rule: aco_step.induct)
  case (new_stack sz guard pgsz p a ok fill st q st' saved)
  obtain r u S0 b0 S b where r: "share_stack_size sz guard pgsz = Inr (r, u)" "p \<noteq> 0"
    "stack_block r guard u a ok fill = Inr (S0, b0)" "align_stack protector S0 b0 = Inr (S, b)"
    and st': "st' = st\<lparr>stks := (stks st)(p \<mapsto> S), blks := (blks st)(sh_ptr S \<mapsto> b)\<rparr>"
    using new_stack(1) by (auto simp: aco_share_stack_new2_def)
  have S0: "length b0 = unat (sh_sz S0)" "owner S0 = 0"
    using r(3) by (auto simp: stack_block_def split: if_splits)
  have S: "sh_ptr S = sh_ptr S0" "sh_sz S = sh_sz S0" "40 < unat (sh_sz S0)"
    using r(4) by (auto simp: align_stack_def Let_def word_less_nat_alt)
  have alloc: "blks st (sh_ptr S) = None \<and> sh_ptr S \<noteq> 0 \<and> unat (sh_ptr S) + unat (sh_sz S) \<le> 2 ^ 63"
    by (rule new_stack(3)) (simp add: st')
  have "unat (sh_ptr S0) + unat (sh_sz S0) \<le> 2 ^ 63"
    using alloc S by simp
  then obtain S1 b1 where al: "align_stack protector S0 b0 = Inr (S1, b1)" "stack_ok S1" "owner S1 = owner S0"
    "length b1 = length b0" "take 8 (drop (unat (align_retptr S1 - sh_ptr S1)) b1) = bytes64 protector"
    by (rule align_stack_ok [OF _ S(3) S0(1), of protector]) blast
  have "S1 = S" "b1 = b"
    using al(1) r(4) by simp_all
  with al S0 S(2) have "stack_ok S" "owner S = 0" "length b = unat (sh_sz S)"
    "take 8 (drop (unat (align_retptr S - sh_ptr S)) b) = bytes64 protector"
    by simp_all
  moreover have wf: "aco_wf protector m 0 st"
    using new_stack(4) by simp
  ultimately have "aco_wf protector m 0 st'" "alive st' = alive st" "\<And>d. alive st d \<Longrightarrow> ctx st' d = ctx st d"
    using alloc by (auto intro!: new_stack_wf [OF _ r(2) new_stack(2) _ _ _ _ _ _ st'])
  then show ?case
    using new_stack(4) by simp
next
  case (free_stack p u st st' saved)
  from free_stack(3) have wf: "aco_wf protector m 0 st"
    by simp
  from free_stack_wf [OF wf free_stack(1,2)] free_stack(3) show ?case
    by simp
next
  case (create sh sz f arg q a fill st c st' saved)
  from create(4) have wf: "aco_wf protector m 0 st"
    by simp
  from create_wf [OF wf create(2,3,1)] create(4) show ?case
    by auto
next
  case (resume c a fill st st' saved)
  from resume(5) have wf: "aco_wf protector m 0 st"
    by simp
  obtain st2 M where r: "aco_resume c a fill st = Inr st2" "aco_wf protector m c st2"
    "\<And>d. alive st2 d = alive st d" "\<And>d. alive st d \<Longrightarrow> d \<noteq> c \<Longrightarrow> ctx st2 d = ctx st d"
    "cos st2 m = Some M" "reg M = cpu st"
    by (rule resume_wf [OF wf resume(2-4)]) blast
  have "st2 = st'"
    using r(1) resume(1) by simp
  then show ?case
    using r resume(5) not_alive_main [OF wf] alive_nonzero [OF wf] by auto
next
  case (work c st st' saved)
  from work(3) have wf: "aco_wf protector m c st"
    by simp
  from work_wf [OF wf work(1,2)] work(3) show ?case
    by auto
next
  case (yield c st st1 st' saved)
  from yield(4) have wf: "aco_wf protector m c st"
    by simp
  obtain M where M: "cos st m = Some M"
    using aco_wf_cases(2) [OF wf] by blast
  obtain s1 s2 where r: "aco_yield st = Inr s1" "aco_resumed c s1 = Inr s2" "aco_wf protector m 0 s2"
    "\<And>d. alive s2 d = alive st d" "\<And>d. alive st d \<Longrightarrow> d \<noteq> c \<Longrightarrow> ctx s2 d = ctx st d"
    "ctx s2 c = (cpu st, live_stack st c)"
    by (rule yield_wf [OF wf yield(1) M]) blast
  have "s2 = st'"
    using r(1,2) yield(2,3) by simp
  then show ?case
    using r yield(4) by auto
next
  case (exit c st st1 st' saved)
  from exit(4) have wf: "aco_wf protector m c st"
    by simp
  obtain M where M: "cos st m = Some M"
    using aco_wf_cases(2) [OF wf] by blast
  from exit_wf [OF wf exit(1) M exit(2,3)] exit(4) show ?case
    by auto
next
  case (destroy c st st' saved)
  from destroy(3) have wf: "aco_wf protector m 0 st"
    by simp
  from destroy_wf [OF wf destroy(2,1)] destroy(3) show ?case
    by auto
qed

interpretation aco: step_system "aco_step protector m" "aco_inv protector m" for protector m
  by unfold_locales (rule step_keeps)

lemma aco_reachable:
  assumes "aco_started m st0" "(aco_step protector m)\<^sup>*\<^sup>* (0, saved0, st0) (run, saved, st)"
  shows "aco_inv protector m (run, saved, st)"
  by (rule aco.reachable_inv [OF assms(2) started_inv [OF assms(1)]])

text \<open>
  C14: coroutines that share stacks do not disturb each other. In every state that can be
  reached, with any number of coroutines on any number of share stacks, a live coroutine
  can be resumed and then has the registers and the stack, byte for byte, with which it was
  last left, and a coroutine that runs can yield, which gives the main coroutine its registers back.
\<close>

theorem coroutine_stacks_private:
  assumes "aco_started m st0" "(aco_step protector m)\<^sup>*\<^sup>* (0, saved0, st0) (run, saved, st)"
  shows "(run = 0 \<longrightarrow> (\<forall>c a fill. alive st c \<and> a \<noteq> 0 \<and> blks st a = None \<longrightarrow>
      (\<exists>st'. aco_resume c a fill st = Inr st' \<and> (cpu st', live_stack st' c) = saved c \<and> aco_get_co st' = c)))
    \<and> (run \<noteq> 0 \<longrightarrow> (\<exists>st'. aco_yield st = Inr st' \<and> cpu st' = fst (saved m)))"
proof (intro conjI allI impI; (elim conjE)?)
  note inv = aco_reachable [OF assms]
  show "\<exists>st'. aco_resume c a fill st = Inr st' \<and> (cpu st', live_stack st' c) = saved c \<and> aco_get_co st' = c"
    if run: "run = 0" and c: "alive st c" and a: "a \<noteq> 0" "blks st a = None" for c a fill
  proof -
    have wf: "aco_wf protector m 0 st"
      using inv run by simp
    have "c \<noteq> 0"
      using alive_ok [OF wf c] by blast
    then have saved: "saved c = ctx st c"
      using inv run c by simp
    show ?thesis
      by (rule resume_wf [OF wf c a, of fill]) (use saved in auto)
  qed
  show "\<exists>st'. aco_yield st = Inr st' \<and> cpu st' = fst (saved m)" if run: "run \<noteq> 0"
  proof -
    obtain M where wf: "aco_wf protector m run st" and M: "cos st m = Some M" "saved m = (reg M, [])"
      using inv run by auto
    show ?thesis
      by (rule yield_wf [OF wf run M(1)]) (use M in auto)
  qed
qed

text \<open>
  C30: the memory of the library stays well typed. In every state that can be reached the
  pointers of a coroutine lead to its main coroutine, to a share stack and to a save stack
  of the recorded size, and a share stack has a block of the recorded size with the
  protector's address at its first word and is owned by nobody or by a live coroutine that was created on it.
\<close>

theorem aco_pointers_valid:
  assumes "aco_started m st0" "(aco_step protector m)\<^sup>*\<^sup>* (0, saved0, st0) (run, saved, st)"
  shows "(\<forall>c C. cos st c = Some C \<and> \<not> aco_is_main_co C \<longrightarrow>
        main_co C = m \<and> cos st m \<noteq> None \<and> stks st (share_stack C) \<noteq> None
        \<and> (\<exists>b. blks st (sv_ptr (save_stack C)) = Some b \<and> length b = unat (sv_sz (save_stack C))))
    \<and> (\<forall>p S. stks st p = Some S \<longrightarrow>
        (\<exists>b. blks st (sh_ptr S) = Some b \<and> length b = unat (sh_sz S)
           \<and> take 8 (drop (unat (align_retptr S - sh_ptr S)) b) = bytes64 protector)
        \<and> (owner S \<noteq> 0 \<longrightarrow> (\<exists>C. cos st (owner S) = Some C \<and> share_stack C = p \<and> \<not> is_end C)))"
proof (intro conjI allI impI; (elim conjE)?)
  have wf: "aco_wf protector m run st"
    using aco_reachable [OF assms] by simp
  fix c C
  assume C: "cos st c = Some C" "\<not> aco_is_main_co C"
  then have "co_ok m run st c C"
    by (intro aco_wf_co [OF wf]) (simp_all add: aco_is_main_co_def)
  then show "main_co C = m" "stks st (share_stack C) \<noteq> None"
    "\<exists>b. blks st (sv_ptr (save_stack C)) = Some b \<and> length b = unat (sv_sz (save_stack C))"
    by (auto simp: co_ok_def)
  show "cos st m \<noteq> None"
    using aco_wf_cases(2) [OF wf] by auto
next
  have wf: "aco_wf protector m run st"
    using aco_reachable [OF assms] by simp
  fix p S
  assume S: "stks st p = Some S"
  have ok: "stk_ok protector st p S"
    by (rule aco_wf_stk [OF wf S])
  then show "\<exists>b. blks st (sh_ptr S) = Some b \<and> length b = unat (sh_sz S)
      \<and> take 8 (drop (unat (align_retptr S - sh_ptr S)) b) = bytes64 protector"
    by (simp add: stk_ok_def)
  assume "owner S \<noteq> 0"
  with ok obtain C where C: "cos st (owner S) = Some C" "main_co C \<noteq> 0" "share_stack C = p"
    by (auto simp: stk_ok_def)
  then show "\<exists>C. cos st (owner S) = Some C \<and> share_stack C = p \<and> \<not> is_end C"
    using aco_wf_co [OF wf C(1,2)] S by (auto simp: co_ok_def)
qed

text \<open>A thread with one share stack of 4096 bytes and one coroutine, whose function is at address 7.\<close>

definition demo_main :: aco_state where
  "demo_main = \<lparr>cos = [16 \<mapsto> \<lparr>reg = replicate 9 0, main_co = 0, co_arg = 0, is_end = False, fp = 0,
      save_stack = zero_save_stack, share_stack = 0\<rparr>],
    stks = (\<lambda>_. None), blks = (\<lambda>_. None), aco_gtls_co = 0, aco_gtls_last_word_fp = 0,
    aco_gtls_fpucw_mxcsr = 5, cpu = [0, 0, 0, 0, 1, 2, 0, 0, 5]\<rparr>"

definition demo_stk :: aco_share_stack_t where
  "demo_stk = \<lparr>sh_ptr = 4096, sh_sz = 4096, align_highptr = 8176, align_retptr = 8168, align_validsz = 0,
    align_limit = 4064, owner = 0, guard_page_enabled = False, real_ptr = 0, real_sz = 0\<rparr>"

definition demo_co :: aco_t where
  "demo_co = \<lparr>reg = [0, 0, 0, 0, 7, 8168, 0, 0, 5], main_co = 16, co_arg = 3, is_end = False, fp = 7,
    save_stack = zero_save_stack\<lparr>sv_ptr := 64, sv_sz := 64\<rparr>, share_stack = 32\<rparr>"

definition demo_block :: bytes where
  "demo_block = replicate 4072 0 @ bytes64 99 @ replicate 16 0"

definition demo_with_stack :: aco_state where
  "demo_with_stack = demo_main\<lparr>stks := [32 \<mapsto> demo_stk], blks := [4096 \<mapsto> demo_block]\<rparr>"

definition demo_with_co :: aco_state where
  "demo_with_co = demo_with_stack\<lparr>cos := (cos demo_main)(48 \<mapsto> demo_co),
    blks := [4096 \<mapsto> demo_block, 64 \<mapsto> map (\<lambda>_. 0) [0..<64]]\<rparr>"

lemma demo_started: "aco_started 16 demo_main"
  unfolding aco_started_def
  by (rule exI [of _ "demo_main\<lparr>cos := (\<lambda>_. None)\<rparr>"], (rule exI [of _ 0])+, rule exI [of _ "\<lambda>_. 0"])
    (simp add: demo_main_def aco_create_def aco_thread_init_def Let_def reg_idx)

lemma demo_block_written:
  "mem_write (map (\<lambda>_. 0) [0..<4096]) 4072 (bytes64 99) = Inr demo_block"
  by (simp add: mem_write_def demo_block_def bytes64_def map_replicate_const del: upt_rec_numeral)

lemma demo_new_stack: "aco_share_stack_new2 99 4096 False 0 32 4096 True (\<lambda>_. 0) demo_main = Inr (32, demo_with_stack)"
proof -
  have size: "share_stack_size 4096 False 0 = Inr (4096, 0)"
    by (simp add: share_stack_size_def)
  have align: "align_stack 99 (demo_stk\<lparr>align_highptr := 0, align_retptr := 0, align_limit := 0\<rparr>) (map (\<lambda>_. 0) [0..<4096])
      = Inr (demo_stk, demo_block)"
    using demo_block_written by (simp add: align_stack_def demo_stk_def Let_def del: upt_rec_numeral)
  have blk: "stack_block 4096 False 0 4096 True (\<lambda>_. 0)
      = Inr (demo_stk\<lparr>align_highptr := 0, align_retptr := 0, align_limit := 0\<rparr>, map (\<lambda>_. 0) [0..<4096])"
    by (simp add: stack_block_def demo_stk_def del: upt_rec_numeral)
  show ?thesis
    by (simp add: aco_share_stack_new2_def size blk align demo_with_stack_def demo_main_def del: upt_rec_numeral)
      (simp add: demo_stk_def)
qed

lemma first_registers: "(replicate 9 x)[4 := a, 5 := b, 8 := c] = [x, x, x, x, a, b, x, x, c]"
  by (simp add: numeral_eq_Suc)

lemma demo_create: "aco_create 16 32 0 7 3 48 64 (\<lambda>_. 0) demo_with_stack = Inr (48, demo_with_co)"
  by (simp add: aco_create_def Let_def demo_with_co_def demo_with_stack_def demo_main_def demo_co_def demo_stk_def reg_idx
      first_registers del: upt_rec_numeral)

lemma demo_reached:
  "(aco_step 99 16)\<^sup>*\<^sup>* (0, \<lambda>_. ([], []), demo_main) (0, (\<lambda>_. ([], []))(48 := ctx demo_with_co 48), demo_with_co)"
proof (rule rtranclp_trans [OF r_into_rtranclp r_into_rtranclp])
  show "aco_step 99 16 (0, \<lambda>_. ([], []), demo_main) (0, \<lambda>_. ([], []), demo_with_stack)"
    by (rule aco_step.new_stack [OF demo_new_stack]) (simp_all add: demo_main_def demo_with_stack_def demo_stk_def)
  show "aco_step 99 16 (0, \<lambda>_. ([], []), demo_with_stack) (0, (\<lambda>_. ([], []))(48 := ctx demo_with_co 48), demo_with_co)"
    by (rule aco_step.create [OF demo_create]) (simp_all add: demo_main_def demo_with_stack_def)
qed

theorem coroutine_stacks_private_witness:
  "\<exists>st'. aco_resume 48 80 (\<lambda>_. 0) demo_with_co = Inr st' \<and> cpu st' = [0, 0, 0, 0, 7, 8168, 0, 0, 5]
    \<and> live_stack st' 48 = [] \<and> aco_get_co st' = 48"
proof -
  have "ctx demo_with_co 48 = ([0, 0, 0, 0, 7, 8168, 0, 0, 5], [])" "alive demo_with_co 48" "blks demo_with_co 80 = None"
    by (simp_all add: ctx_def private_stack_def alive_def demo_with_co_def demo_with_stack_def demo_main_def demo_co_def
        demo_stk_def zero_save_stack_def)
  then show ?thesis
    using coroutine_stacks_private [OF demo_started demo_reached, THEN conjunct1, rule_format, OF refl, of 48 80 "\<lambda>_. 0"]
    by simp
qed

theorem aco_pointers_valid_witness:
  "stks demo_with_co (share_stack demo_co) \<noteq> None \<and> (\<exists>b. blks demo_with_co 4096 = Some b \<and> length b = 4096
    \<and> take 8 (drop 4072 b) = bytes64 99)"
proof -
  have "cos demo_with_co 48 = Some demo_co" "\<not> aco_is_main_co demo_co" "stks demo_with_co 32 = Some demo_stk"
    by (simp_all add: demo_with_co_def demo_with_stack_def demo_co_def aco_is_main_co_def)
  then show ?thesis
    using aco_pointers_valid [OF demo_started demo_reached, THEN conjunct1, rule_format, of 48 demo_co]
      aco_pointers_valid [OF demo_started demo_reached, THEN conjunct2, rule_format, of 32 demo_stk]
    by (simp add: demo_stk_def)
qed

end
