(* ===== verification/State_edges.thy ===== *)
theory State_edges
  imports Connection
begin

text \<open>
  The states of the sockets of a host over every sequence of events: packets that arrive,
  timers that run out, rounds of the sending threads and the application's calls, a call that
  waits for another thread in its two parts. Each event is one of the operations of the model. A relation between a host and a later one says that the
  sockets that were there have moved along the edges of the state diagram only; every
  operation is shown to keep it.
\<close>

section \<open>The state diagram\<close>

text \<open>
  From \<open>ESTABLISHED\<close> to \<open>FIN_WAIT_1\<close> the timer goes too: after too many timeouts it closes the
  connection. From \<open>LISTEN\<close> to \<open>ESTABLISHED\<close> goes the copy of the listener that \<open>tcp_accept\<close>
  makes. There is no way back: \<open>LAST_ACK\<close> and \<open>TIME_WAIT\<close> have no edge, for the code that leaves
  them frees the socket before another thread can see the state \<open>CLOSED\<close> it stores.
\<close>

inductive tcp_edge :: "tcp_state \<Rightarrow> tcp_state \<Rightarrow> bool" where
  "tcp_edge CLOSED LISTEN"
| "tcp_edge CLOSED SYN_SENT"
| "tcp_edge LISTEN ESTABLISHED"
| "tcp_edge SYN_SENT ESTABLISHED"
| "tcp_edge ESTABLISHED CLOSE_WAIT"
| "tcp_edge CLOSE_WAIT LAST_ACK"
| "tcp_edge ESTABLISHED FIN_WAIT_1"
| "tcp_edge FIN_WAIT_1 FIN_WAIT_2"
| "tcp_edge FIN_WAIT_2 TIME_WAIT"

fun edge_rank :: "tcp_state \<Rightarrow> nat" where
  "edge_rank CLOSED = 0"
| "edge_rank LISTEN = 1"
| "edge_rank SYN_SENT = 1"
| "edge_rank ESTABLISHED = 2"
| "edge_rank CLOSE_WAIT = 3"
| "edge_rank FIN_WAIT_1 = 3"
| "edge_rank FIN_WAIT_2 = 4"
| "edge_rank _ = 5"

lemma tcp_edge_no_return: "tcp_edge\<^sup>+\<^sup>+ a b \<Longrightarrow> edge_rank a < edge_rank b"
  by (induction rule: tranclp.induct) (auto elim!: tcp_edge.cases)

text \<open>
  The relations take the edges as an argument: the lemmas are used with \<open>tcp_edge\<close> and, for
  calls that change no state, with no edge at all.
\<close>

type_synonym edges = "tcp_state \<Rightarrow> tcp_state \<Rightarrow> bool"

text \<open>A socket is freed at the end of its life only.\<close>

fun sock_moves :: "edges \<Rightarrow> tju_tcp_t option \<Rightarrow> tju_tcp_t option \<Rightarrow> bool" where
  "sock_moves E None s' \<longleftrightarrow> s' = None"
| "sock_moves E (Some s) None \<longleftrightarrow> E\<^sup>*\<^sup>* (state s) TIME_WAIT \<or> E\<^sup>*\<^sup>* (state s) LAST_ACK"
| "sock_moves E (Some s) (Some s') \<longleftrightarrow> E\<^sup>*\<^sup>* (state s) (state s')"

definition moves :: "edges \<Rightarrow> nat \<Rightarrow> host \<Rightarrow> host \<Rightarrow> bool" where
  "moves E n h h' \<longleftrightarrow> next_ptr h \<le> next_ptr h' \<and> (\<forall>p<n. sock_moves E (socks h p) (socks h' p))"

lemma sock_moves_refl [simp]: "sock_moves E s s"
  by (cases s) simp_all

lemma sock_moves_trans: "sock_moves E a b \<Longrightarrow> sock_moves E b c \<Longrightarrow> sock_moves E a c"
  by (cases a; cases b; cases c) (auto intro: rtranclp_trans)

lemma moves_trans: "moves E n h h1 \<Longrightarrow> moves E n h1 h2 \<Longrightarrow> moves E n h h2"
  by (auto simp: moves_def intro: sock_moves_trans)

lemma moves_same: "socks h' = socks h \<Longrightarrow> next_ptr h \<le> next_ptr h' \<Longrightarrow> moves E n h h'"
  by (simp add: moves_def)

section \<open>Calls that move the sockets along the diagram\<close>

text \<open>\<open>Mv E f n h m\<close>: if the call \<open>m\<close> returns, the host in its result is later than \<open>h\<close>.\<close>

definition Mv :: "edges \<Rightarrow> ('a \<Rightarrow> host) \<Rightarrow> nat \<Rightarrow> host \<Rightarrow> 'a outcome \<Rightarrow> bool" where
  "Mv E f n h m \<longleftrightarrow> (n \<le> next_ptr h \<longrightarrow> (\<forall>x. m = Inr x \<longrightarrow> moves E n h (f x)))"

lemma MvD: "Mv E f n h m \<Longrightarrow> n \<le> next_ptr h \<Longrightarrow> m = Inr x \<Longrightarrow> moves E n h (f x)"
  by (simp add: Mv_def)

lemma Mv_bind: "Mv E g n h m \<Longrightarrow> (\<And>x. m = Inr x \<Longrightarrow> Mv E f n (g x) (k x)) \<Longrightarrow> Mv E f n h (bindE m k)"
proof (unfold Mv_def, intro impI allI)
  fix x
  assume m: "n \<le> next_ptr h \<longrightarrow> (\<forall>x. m = Inr x \<longrightarrow> moves E n h (g x))"
    and k: "\<And>x. m = Inr x \<Longrightarrow> n \<le> next_ptr (g x) \<longrightarrow> (\<forall>xa. k x = Inr xa \<longrightarrow> moves E n (g x) (f xa))"
    and n: "n \<le> next_ptr h" and "bindE m k = Inr x"
  then obtain y where y: "m = Inr y" "k y = Inr x"
    by blast
  then have "moves E n h (g y)"
    using m n by blast
  moreover from this have "moves E n (g y) (f x)"
    using k [OF y(1)] n y(2) by (simp add: moves_def)
  ultimately show "moves E n h (f x)"
    by (rule moves_trans)
qed

lemma Mv_host: "Mv E id n h m \<Longrightarrow> (\<And>h1. m = Inr h1 \<Longrightarrow> Mv E f n h1 (k h1)) \<Longrightarrow> Mv E f n h (bindE m k)"
  by (erule Mv_bind) simp

lemma Mv_pair: "Mv E snd n h m \<Longrightarrow> (\<And>x h1. m = Inr (x, h1) \<Longrightarrow> Mv E f n h1 (k x h1)) \<Longrightarrow> Mv E f n h (bindE m (\<lambda>(x, h1). k x h1))"
  by (erule Mv_bind) auto

lemma Mv_value: "(\<And>x. m = Inr x \<Longrightarrow> Mv E f n h (k x)) \<Longrightarrow> Mv E f n h (bindE m k)"
  by (auto simp: Mv_def bindE_eq_Inr_iff)

lemma Mv_error: "Mv E f n h (Inl e)"
  by (simp add: Mv_def)

lemma Mv_if: "(b \<Longrightarrow> Mv E f n h x) \<Longrightarrow> (\<not> b \<Longrightarrow> Mv E f n h y) \<Longrightarrow> Mv E f n h (if b then x else y)"
  by simp

lemma Mv_same: "socks (f x) = socks h \<Longrightarrow> next_ptr h \<le> next_ptr (f x) \<Longrightarrow> Mv E f n h (Inr x)"
  by (simp add: Mv_def moves_same)

lemma Mv_refl: "Mv E id n h (Inr h)" "Mv E snd n h (Inr (x, h))"
  by (simp_all add: Mv_same)

lemma Mv_sock: "socks h p = Some s \<Longrightarrow> E\<^sup>*\<^sup>* (state s) (state s') \<Longrightarrow> socks (f x) = (socks h)(p \<mapsto> s')
    \<Longrightarrow> next_ptr h \<le> next_ptr (f x) \<Longrightarrow> Mv E f n h (Inr x)"
  by (auto simp: Mv_def moves_def)

lemma Mv_from: "socks h1 = socks h \<Longrightarrow> next_ptr h1 = next_ptr h \<Longrightarrow> Mv E f n h1 m \<Longrightarrow> Mv E f n h m"
  by (simp add: Mv_def moves_def)

lemma Mv_update: "(\<And>s. socks h p = Some s \<Longrightarrow> E\<^sup>*\<^sup>* (state s) (state (u s))) \<Longrightarrow> Mv E id n h (update_sock p u h)"
  by (auto simp: update_sock_def Mv_def moves_def)

lemma Mv_update_same: "(\<And>s. state (u s) = state s) \<Longrightarrow> Mv E id n h (update_sock p u h)"
  by (rule Mv_update) simp

lemmas Mv_values =
  Mv_value [where m = "derefE _"] Mv_value [where m = "requireE _ _"] Mv_value [where m = "mem_read _ _ _"]
  Mv_value [where m = "mem_write _ _ _"] Mv_value [where m = "create_packet_buf _ _ _ _ _ _ _ _ _ _ _"]
  Mv_value [where m = "slot _"] Mv_value [where m = "handle_success_ack _"] Mv_value [where m = "block_read _ _ _ _"]
  Mv_value [where m = "build_state_pkt _ _"] Mv_value [where m = "last_node _ _ _"] Mv_value [where m = "walk_nodes _ _ _"]

lemma Mv_step: "socks h p = Some s \<Longrightarrow> E\<^sup>*\<^sup>* (state s) (state s') \<Longrightarrow> socks h1 = (socks h)(p \<mapsto> s')
    \<Longrightarrow> next_ptr h \<le> next_ptr h1 \<Longrightarrow> Mv E f n h1 m \<Longrightarrow> Mv E f n h m"
proof (unfold Mv_def, intro impI allI)
  fix x
  assume a: "socks h p = Some s" "E\<^sup>*\<^sup>* (state s) (state s')" "socks h1 = (socks h)(p \<mapsto> s')"
    "next_ptr h \<le> next_ptr h1" "n \<le> next_ptr h1 \<longrightarrow> (\<forall>x. m = Inr x \<longrightarrow> moves E n h1 (f x))"
    "n \<le> next_ptr h" "m = Inr x"
  then have "moves E n h h1"
    by (auto simp: moves_def)
  moreover have "moves E n h1 (f x)"
    using a by simp
  ultimately show "moves E n h (f x)"
    by (rule moves_trans)
qed

lemmas mv_rules = Mv_error Mv_if Mv_values Mv_host Mv_pair

section \<open>Segments and timers\<close>

lemma mv_send: "Mv E id n h (sendToLayer3 pkt len h)"
  unfolding sendToLayer3_def by (intro mv_rules Mv_same) simp_all

lemma mv_control:
  "Mv E id n h (tcp_send_ack p h)" "Mv E id n h (tcp_send_rst p h)" "Mv E id n h (tcp_send_syn p h)"
  "Mv E id n h (tcp_send_syn_ack p h)" "Mv E id n h (tcp_send_fin_ack p h)" "Mv E id n h (tcp_update_expected_seq p pkt h)"
  unfolding tcp_send_ack_def tcp_send_rst_def tcp_send_syn_def tcp_send_syn_ack_def tcp_send_fin_ack_def
    tcp_update_expected_seq_def Let_def
  by (intro mv_rules mv_send Mv_same; simp)+

lemma mv_launch: "Mv E id n h (launch_timer p h)"
  unfolding launch_timer_def Let_def
proof (intro mv_rules)
  fix s t
  assume "sock_at h p = Inr s"
  then show "Mv E id n h (Inr ((set_timer (rtt_timer s) (t\<lparr>started := 1, timer_thread := next_tid h\<rparr>)
        (set_sock p (s\<lparr>interrupt_signal := 0\<rparr>) h))
      \<lparr>next_tid := next_tid h + 1,
       threads := (threads (set_timer (rtt_timer s) (t\<lparr>started := 1, timer_thread := next_tid h\<rparr>)
          (set_sock p (s\<lparr>interrupt_signal := 0\<rparr>) h)))(next_tid h \<mapsto> \<lparr>th_sock = p, th_limit = timeout t,
            th_since = clock (set_timer (rtt_timer s) (t\<lparr>started := 1, timer_thread := next_tid h\<rparr>)
              (set_sock p (s\<lparr>interrupt_signal := 0\<rparr>) h))\<rparr>)\<rparr>))"
    by (intro Mv_sock [of h p s E "s\<lparr>interrupt_signal := 0\<rparr>"]) simp_all
qed

lemma mv_retransmit:
  assumes "\<And>h. Mv E id n h (start p h)"
  shows "Mv E id n h (retransmit_timer_with start p h)"
  unfolding retransmit_timer_with_def Let_def
  by (intro mv_rules assms mv_send)

lemma mv_close_begin:
  assumes "E ESTABLISHED FIN_WAIT_1" "\<And>s. socks h p = Some s \<Longrightarrow> state s = ESTABLISHED"
  shows "Mv E id n h (tcp_close_begin p h)"
  unfolding tcp_close_begin_def
proof (rule Mv_value)
  fix s
  assume "sock_at h p = Inr s"
  then have s: "socks h p = Some s" "state s = ESTABLISHED"
    using assms(2) by simp_all
  have fin: "Mv E id n h1 (bindE (update_sock p (\<lambda>s. s\<lparr>state := FIN_WAIT_1\<rparr>) h1) (tcp_send_fin_ack p))"
    if "\<And>s. socks h1 p = Some s \<Longrightarrow> state s = ESTABLISHED" for h1
    using that by (intro Mv_host [OF Mv_update mv_control(5)]) (simp add: r_into_rtranclp assms(1))
  show "Mv E id n h (bindE (if received_buf s \<noteq> NULL
      then bindE (derefE (blocks h (received_buf s))) (\<lambda>_. Inr (set_sock p (s\<lparr>received_len := 0, received_buf := NULL\<rparr>)
        (h\<lparr>blocks := (blocks h)(received_buf s := None)\<rparr>)))
      else Inr h) (\<lambda>h. bindE (update_sock p (\<lambda>s. s\<lparr>state := FIN_WAIT_1\<rparr>) h) (tcp_send_fin_ack p)))"
  proof (cases "received_buf s = NULL")
    case True
    then show ?thesis
      using fin [of h] s by simp
  next
    case False
    let ?s = "s\<lparr>received_len := 0, received_buf := NULL\<rparr>"
    let ?h = "set_sock p ?s (h\<lparr>blocks := (blocks h)(received_buf s := None)\<rparr>)"
    have "Mv E id n h (bindE (update_sock p (\<lambda>s. s\<lparr>state := FIN_WAIT_1\<rparr>) ?h) (tcp_send_fin_ack p))"
      by (rule Mv_step [OF s(1), of E ?s ?h], (simp; fail)+, rule fin) (use s(2) in auto)
    with False show ?thesis
      by (simp only: not_False_eq_True if_True bindE_assoc bindE_simps) (rule Mv_value)
  qed
qed

lemma mv_handler:
  assumes "\<And>h. Mv E id n h (start p h)"
    and "\<And>h. (\<And>s. socks h p = Some s \<Longrightarrow> state s = ESTABLISHED) \<Longrightarrow> Mv E id n h (close p h)"
  shows "Mv E id n h (timer_handler_with start close p h)"
  unfolding timer_handler_with_def
proof (rule Mv_value)
  fix s
  assume "sock_at h p = Inr s"
  then have s: "socks h p = Some s"
    by simp
  have ack: "Mv E id n h (tcp_send_ack p (set_sock p (s\<lparr>finished_handshake := 1\<rparr>) h))"
    by (rule Mv_step [OF s, of E "s\<lparr>finished_handshake := 1\<rparr>" "set_sock p (s\<lparr>finished_handshake := 1\<rparr>) h"],
        (simp; fail)+, rule mv_control)
  have again: "Mv E id n h (retransmit_timer_with start p (set_sock p (s'\<lparr>timeout_counts := c\<rparr>) h))"
    if "state s' = state s" for s' c
    by (rule Mv_step [OF s, of E "s'\<lparr>timeout_counts := c\<rparr>" "set_sock p (s'\<lparr>timeout_counts := c\<rparr>) h"],
        (use that in \<open>simp; fail\<close>)+, rule mv_retransmit, rule assms(1))
  have loss: "state (handle_loss_ack s) = state s"
    by (simp add: handle_loss_ack_def Let_def)
  have close: "state s = ESTABLISHED \<Longrightarrow> Mv E id n h (close p h)"
    using s by (intro assms(2)) simp
  show "Mv E id n h (case state s of
         SYN_SENT \<Rightarrow> bindE (start p h) (tcp_send_syn p)
       | SYN_RECV \<Rightarrow> bindE (start p h) (tcp_send_syn_ack p)
       | ESTABLISHED \<Rightarrow>
           (if finished_handshake s = 0 then tcp_send_ack p (set_sock p (s\<lparr>finished_handshake := 1\<rparr>) h)
            else if RETRANSMIT_LIMIT < uint (timeout_counts s) then close p h
            else let s = handle_loss_ack s
                 in retransmit_timer_with start p (set_sock p (s\<lparr>timeout_counts := timeout_counts s + 1\<rparr>) h))
       | _ \<Rightarrow> Inr h)"
    using ack again [OF loss] close
    by (cases "state s") (auto simp only: tcp_state.case Let_def intro!: mv_rules Mv_refl assms(1) mv_control)
qed

lemma mv_poll:
  assumes "\<And>p h. Mv E id n h (cb p h)"
  shows "Mv E id n h (check_timeout_with cb tid h)"
proof (cases "threads h tid")
  case (Some th)
  have cb: "Mv E id n h (cb (th_sock th) (h\<lparr>threads := (threads h)(tid := None)\<rparr>))"
    by (rule Mv_from [OF _ _ assms]) simp_all
  show ?thesis
    unfolding check_timeout_with_def Some option.case Let_def
    by (intro mv_rules cb Mv_same; simp)
qed (simp add: check_timeout_with_def Mv_same)

lemma mv_stop_with:
  assumes "\<And>p h. Mv E id n h (cb p h)"
  shows "Mv E id n h (stop_timer_with cb p h)"
  unfolding stop_timer_with_def Let_def
proof (intro mv_rules)
  fix s t
  assume s: "sock_at h p = Inr s"
  let ?h = "set_sock p (s\<lparr>interrupt_signal := 1\<rparr>) (set_timer (rtt_timer s) (t\<lparr>started := 0\<rparr>) h)"
  have socks: "socks ?h = (socks h)(p \<mapsto> s\<lparr>interrupt_signal := 1\<rparr>)"
    by simp
  show "Mv E id n h (Inr h)"
    by (rule Mv_same) simp_all
  show "Mv E id n h (Inr ?h)"
    using s by (intro Mv_sock [of h p s E "s\<lparr>interrupt_signal := 1\<rparr>"]) simp_all
  show "Mv E id n h (check_timeout_with cb (timer_thread t) (?h\<lparr>clock := clock ?h + poll_delay ?h\<rparr>))"
    using s by (intro Mv_step [of h p s E "s\<lparr>interrupt_signal := 1\<rparr>" "?h\<lparr>clock := clock ?h + poll_delay ?h\<rparr>"] mv_poll assms) simp_all
qed

lemma mv_timer: "Mv E id n h (tcp_stop_timer p h)" "Mv E id n h (tcp_start_timer p h)"
proof -
  have stop: "Mv E id n h (tcp_stop_timer p h)" for p h
    unfolding tcp_stop_timer_def joined_handler_def
    by (intro mv_stop_with mv_handler mv_launch Mv_error)
  then show "Mv E id n h (tcp_stop_timer p h)" .
  show "Mv E id n h (tcp_start_timer p h)"
    unfolding tcp_start_timer_def by (intro mv_rules stop mv_launch Mv_same) simp_all
qed

lemma mv_timeout:
  assumes "E ESTABLISHED FIN_WAIT_1"
  shows "Mv E id n h (tcp_check_timeout tid h)"
  unfolding tcp_check_timeout_def tcp_write_timer_handler_def tcp_outlimit_retransmit_def
  by (intro mv_poll mv_handler mv_timer mv_close_begin assms)

section \<open>Data transfer\<close>

lemma mv_locks:
  "Mv E id n h (lock_send p h)" "Mv E id n h (unlock_send p h)" "Mv E id n h (lock_recv p h)" "Mv E id n h (unlock_recv p h)"
proof -
  have set: "Mv E id n h (Inr (set_sock p (s\<lparr>send_lock := b\<rparr>) h))" "Mv E id n h (Inr (set_sock p (s\<lparr>recv_lock := b\<rparr>) h))"
    if "sock_at h p = Inr s" for s b
    using that by (intro Mv_sock [of h p s E "s\<lparr>send_lock := b\<rparr>"] Mv_sock [of h p s E "s\<lparr>recv_lock := b\<rparr>"]; simp)+
  show "Mv E id n h (lock_send p h)" "Mv E id n h (lock_recv p h)"
    unfolding lock_send_def lock_recv_def by (intro mv_rules set; assumption)+
  show "Mv E id n h (unlock_send p h)" "Mv E id n h (unlock_recv p h)"
    unfolding unlock_send_def unlock_recv_def by (rule Mv_update_same, simp)+
qed

lemma mv_blocks:
  "Mv E id n h (block_write q off bs h)" "Mv E id n h (block_shift q off k h)" "Mv E snd n h (realloc q j h)"
proof -
  have wr: "Mv E id n h (block_write q off bs h)" for q off bs h
    unfolding block_write_def by (intro mv_rules Mv_same) simp_all
  then show "Mv E id n h (block_write q off bs h)" .
  show "Mv E id n h (block_shift q off k h)"
    unfolding block_shift_def by (intro mv_rules wr)
  show "Mv E snd n h (realloc q j h)"
    unfolding realloc_def Let_def by (intro mv_rules Mv_same) (simp_all add: malloc_def)
qed

lemma mv_new_block: "Mv E snd n h (Inr (malloc (\<lambda>a. set_block a b) h))"
  by (rule Mv_same) (simp_all add: malloc_def)

lemma mv_store: "Mv E snd n h (store_data p pkt h)"
  unfolding store_data_def Let_def
  by (intro mv_rules mv_locks mv_blocks mv_new_block Mv_update_same Mv_refl) simp_all

lemma mv_receive_ack: "Mv E id n h (receive_ack p pkt h)"
  unfolding receive_ack_def Let_def
proof (intro mv_rules)
  fix s s' w
  assume s: "sock_at h p = Inr s" "handle_success_ack s = Inr s'"
  have "state s' = state s"
    using s(2) by (auto simp: handle_success_ack_def Let_def split: con_state.splits if_splits)
  then have step: "Mv E id n h m" if "Mv E id n (set_swnd q v (set_sock p s' h)) m" for m q v
    using s(1) that by (intro Mv_step [of h p s E s' "set_swnd q v (set_sock p s' h)"]) simp_all
  show "Mv E id n h (tcp_stop_timer p (set_swnd (wnd_send s') (w\<lparr>base := get_seq pkt\<rparr>) (set_sock p s' h)))"
    "Mv E id n h (tcp_start_timer p (set_swnd (wnd_send s') (w\<lparr>base := get_seq pkt\<rparr>) (set_sock p s' h)))"
    by (rule step, rule mv_timer)+
qed

lemma mv_header: "Mv E id n h (back_only_header p h)"
  unfolding back_only_header_def Let_def by (intro mv_rules mv_send)

lemma mv_packet: "Mv E snd n h (tju_handle_packet p pkt h)"
proof -
  have ack: "Mv E snd n h (bindE (tcp_send_ack p h1) k)"
    if "socks h1 = socks h" "next_ptr h1 = next_ptr h" "\<And>h1. Mv E snd n h1 (k h1)" for h1 k
    by (rule Mv_from [OF that(1,2) Mv_host [OF mv_control(1) that(3)]])
  have head: "Mv E snd n h (bindE (back_only_header p h1) k)"
    if "socks h1 = socks h" "next_ptr h1 = next_ptr h" "\<And>h1. Mv E snd n h1 (k h1)" for h1 k
    by (rule Mv_from [OF that(1,2) Mv_host [OF mv_header that(3)]])
  have rack: "Mv E snd n h (bindE (receive_ack p pkt h1) k)"
    if "socks h1 = socks h" "next_ptr h1 = next_ptr h" "\<And>h1. Mv E snd n h1 (k h1)" for h1 k
    by (rule Mv_from [OF that(1,2) Mv_host [OF mv_receive_ack that(3)]])
  show ?thesis
    unfolding tju_handle_packet_def Let_def
    by (intro Mv_values Mv_if ack head rack mv_store Mv_refl Mv_error Mv_same) simp_all
qed

lemma mv_sending: "Mv E id n h (tcp_send_stream_round p h)"
proof -
  have take: "Mv E snd n h (take_sending_buf p h)" for h
    unfolding take_sending_buf_def Let_def
    by (intro mv_rules mv_locks mv_blocks Mv_update_same Mv_refl) simp_all
  have sleep: "Mv E id n h (Inr (sleep 1 h))" for h
    by (rule Mv_same) (simp_all add: sleep_def)
  have put: "Mv E id n h (Inr (set_swnd q w h))" for q w h
    by (rule Mv_same) simp_all
  have seg: "Mv E id n h (send_segment p buf h)" for buf h
    unfolding send_segment_def Let_def
    by (intro mv_rules mv_blocks mv_send mv_timer put sleep Mv_refl)
  show ?thesis
    unfolding tcp_send_stream_round_def by (intro mv_rules take seg sleep)
qed

lemma mv_calls: "Mv E snd n h (tcp_send p buffer len h)" "Mv E (\<lambda>r. snd (snd r)) n h (tcp_recv p len h)"
proof -
  show "Mv E snd n h (tcp_send p buffer len h)"
    unfolding tcp_send_def by (intro mv_rules mv_locks mv_blocks Mv_update_same Mv_refl) simp_all
  have ret: "Mv E (\<lambda>r. snd (snd r)) n h (Inr (0, dat, h))" for dat h
    by (rule Mv_same) simp_all
  show "Mv E (\<lambda>r. snd (snd r)) n h (tcp_recv p len h)"
    unfolding tcp_recv_def Let_def
    by (intro mv_rules mv_locks mv_blocks Mv_update_same ret) simp_all
qed

section \<open>Handshake and close\<close>

lemma Mv_assume: "(n \<le> next_ptr h \<Longrightarrow> Mv E f n h m) \<Longrightarrow> Mv E f n h m"
  by (simp add: Mv_def)

lemma Mv_option: "(r = None \<Longrightarrow> Mv E f n h a) \<Longrightarrow> (\<And>x. r = Some x \<Longrightarrow> Mv E f n h (b x)) \<Longrightarrow>
    Mv E f n h (case r of None \<Rightarrow> a | Some x \<Rightarrow> b x)"
  by (cases r) simp_all

lemma Mv_new: "n \<le> c \<Longrightarrow> Mv E id n h (update_sock c u h)" "n \<le> c \<Longrightarrow> Mv E id n h (copy_sock c src h)"
  by (auto simp: Mv_def moves_def update_sock_def copy_sock_def)

lemma mv_push: "Mv E snd n h (sockqueue_push q sock h)"
  by (auto simp: sockqueue_push_def Mv_def malloc_node_def malloc_def Let_def intro!: moves_same split: if_splits)

lemma mv_remove:
  assumes "n \<le> c"
  shows "Mv E snd n h (sockqueue_remove q c index h)"
proof -
  have e: "Mv E f n h (bindE (sockqueue_is_empty q h) k)" if "\<And>b. Mv E f n h (k b)" for f :: "'a \<Rightarrow> host" and k
    using that by (rule Mv_value)
  have copy: "Mv E snd n h (bindE (copy_sock c src h1) k)"
    if "socks h1 = socks h" "next_ptr h1 = next_ptr h" "\<And>h1. Mv E snd n h1 (k h1)" for h1 k src
    by (rule Mv_from [OF that(1,2) Mv_host [OF Mv_new(2) [OF assms] that(3)]])
  show ?thesis
    unfolding sockqueue_remove_def Let_def
    by (intro e Mv_values Mv_if Mv_option copy Mv_refl Mv_same; simp)
qed

text \<open>The new socket of a handshake lies outside the addresses that are looked at.\<close>

lemma Mv_malloc_sock:
  assumes "\<And>h1. n \<le> next_ptr h \<Longrightarrow> malloc_sock junk h = (next_ptr h, h1) \<Longrightarrow> Mv E f n h1 (k (next_ptr h) h1)"
  shows "Mv E f n h (case malloc_sock junk h of (c, h1) \<Rightarrow> k c h1)"
proof (rule Mv_assume)
  assume n: "n \<le> next_ptr h"
  have new: "malloc_sock junk h = (next_ptr h, snd (malloc_sock junk h))"
    "moves E n h (snd (malloc_sock junk h))"
    using n by (simp_all add: malloc_sock_def malloc_def moves_def)
  have "Mv E f n (snd (malloc_sock junk h)) (k (next_ptr h) (snd (malloc_sock junk h)))"
    using assms [OF n new(1)] .
  then show "Mv E f n h (case malloc_sock junk h of (c, h1) \<Rightarrow> k c h1)"
    using new(2) n by (auto simp: Mv_def malloc_sock_def malloc_def moves_def intro: sock_moves_trans dest: Suc_leD)
qed

lemma Mv_tuple: "(\<And>a b. x = (a, b) \<Longrightarrow> Mv E f n h (k a b)) \<Longrightarrow> Mv E f n h (case x of (a, b) \<Rightarrow> k a b)"
  by (cases x) simp

lemma mv_server_syn: "Mv E snd n h (server_syn junk p pkt conn_addr hashval h)"
  unfolding server_syn_def Let_def
  by (rule Mv_malloc_sock, intro mv_rules Mv_tuple mv_control mv_push mv_timer mv_send Mv_update_same Mv_refl) simp_all

lemma mv_server_ack: "Mv E snd n h (server_ack junk p pkt hashval h)"
  unfolding server_ack_def Let_def
  by (intro Mv_malloc_sock mv_rules mv_timer mv_control mv_push mv_remove Mv_new Mv_update_same Mv_refl) simp_all

lemma mv_server: "Mv E snd n h (tcp_rcv_state_server junk p pkt conn_addr h)"
proof -
  have cases: "Mv E snd n h (case listen_state s hv of
                  CLOSED \<Rightarrow> Inr (-1, h1)
                | LISTEN \<Rightarrow>
                    (if fl = SYN then server_syn junk p pkt conn_addr hv h1
                     else if fl = RST then Inr (0, h1) else Inr (-1, h1))
                | SYN_RECV \<Rightarrow>
                    (if fl = ACK then server_ack junk p pkt hv h1 else Inr (-1, h1))
                | _ \<Rightarrow> Inr (-1, h1))" if "socks h1 = socks h" "next_ptr h1 = next_ptr h" for s hv fl h1
    by (rule Mv_from [OF that]) (cases "listen_state s hv"; simp add: Mv_refl mv_server_syn mv_server_ack)
  show ?thesis
    unfolding tcp_rcv_state_server_def Let_def by (intro Mv_values cases) simp_all
qed

text \<open>What calls without a change of state leave.\<close>

lemma no_edge: "(\<lambda>_ _. False)\<^sup>*\<^sup>* a b \<longleftrightarrow> a = b"
  by (auto elim: rtranclp.cases)

abbreviation stays :: "nat \<Rightarrow> host \<Rightarrow> host \<Rightarrow> bool" where
  "stays \<equiv> moves (\<lambda>_ _. False)"

lemma stays_state:
  assumes "stays n h h'" "p < n" "socks h p = Some s" "state s \<noteq> TIME_WAIT" "state s \<noteq> LAST_ACK"
  obtains s' where "socks h' p = Some s'" "state s' = state s"
proof -
  have "sock_moves (\<lambda>_ _. False) (Some s) (socks h' p)"
    using assms by (metis moves_def)
  with assms that show thesis
    by (cases "socks h' p") (auto simp: no_edge)
qed

lemma Mv_update_state:
  assumes "stays n h0 h" "socks h0 p = Some s0" "state s0 \<noteq> TIME_WAIT" "state s0 \<noteq> LAST_ACK"
    and "E\<^sup>*\<^sup>* (state s0) b" "\<And>s. state (u s) = b"
  shows "Mv E id n h (update_sock p u h)"
proof (cases "p < n")
  case True
  show ?thesis
    by (rule stays_state [OF assms(1) True assms(2-4)]) (use assms(5,6) in \<open>auto intro: Mv_update\<close>)
qed (simp add: Mv_new)

lemma mv_client:
  assumes "E SYN_SENT ESTABLISHED"
  shows "Mv E snd n h (tcp_rcv_state_client p pkt conn_sock h)"
  unfolding tcp_rcv_state_client_def Let_def
proof (rule Mv_value, rule Mv_value)
  fix s w
  assume s: "sock_at h p = Inr s"
  let ?h = "set_swnd (wnd_send s) (w\<lparr>rwnd := get_advertised_window pkt\<rparr>) h"
  show "Mv E snd n h (if get_flags pkt = SYN OR ACK \<and> state s = SYN_SENT then
      bindE (tcp_stop_timer p ?h) (\<lambda>h. bindE (tcp_update_expected_seq p pkt h) (\<lambda>h. bindE (sock_at h p) (\<lambda>s.
        bindE (create_packet_buf (port (established_local_addr s)) (port conn_sock) (get_seq pkt + 1) (get_seq pkt + 1)
          (to_u16 HEADER_LEN) (to_u16 HEADER_LEN) ACK (to_u16 (TCP_RECV_BUFFER_SIZE - received_len s)) 0 [] 0) (\<lambda>send_pkt.
        bindE (sendToLayer3 send_pkt HEADER_LEN h) (\<lambda>h.
        bindE (update_sock p (\<lambda>s. s\<lparr>state := ESTABLISHED\<rparr>) h) (\<lambda>h. Inr (0, h)))))))
      else Inr (-1, ?h))" (is "Mv E snd n h (if ?b then ?m else _)")
  proof (rule Mv_if)
    assume b: ?b
    have "Mv E snd n ?h ?m"
    proof (rule Mv_assume, intro mv_rules mv_timer mv_control mv_send Mv_refl)
      fix h1 h2 s2 pk h3
      assume n: "n \<le> next_ptr ?h" and c: "tcp_stop_timer p ?h = Inr h1" "tcp_update_expected_seq p pkt h1 = Inr h2"
        "sendToLayer3 pk HEADER_LEN h2 = Inr h3"
      have m1: "stays n ?h h1"
        using MvD [OF mv_timer(1) n c(1)] by simp
      then have n1: "n \<le> next_ptr h1"
        using n by (simp add: moves_def)
      have m2: "stays n h1 h2"
        using MvD [OF mv_control(6) n1 c(2)] by simp
      then have n2: "n \<le> next_ptr h2"
        using n1 by (simp add: moves_def)
      have "stays n h2 h3"
        using MvD [OF mv_send n2 c(3)] by simp
      with m1 m2 have "stays n ?h h3"
        by (blast intro: moves_trans)
      then show "Mv E id n h3 (update_sock p (\<lambda>s. s\<lparr>state := ESTABLISHED\<rparr>) h3)"
        using s b assms by (intro Mv_update_state [of n ?h h3 p s]) (simp_all add: r_into_rtranclp)
    qed
    then show "Mv E snd n h ?m"
      by (rule Mv_from [rotated 2]) simp_all
  qed (rule Mv_same; simp)
qed

lemma Mv_free: "update_sock p (\<lambda>s. s\<lparr>state := TIME_WAIT\<rparr>) h0 = Inr h \<Longrightarrow>
    socks h' = (socks h)(p := None) \<Longrightarrow> next_ptr h \<le> next_ptr h' \<Longrightarrow> Mv E snd n h (Inr (x, h'))"
  by (auto simp: Mv_def moves_def update_sock_def)

lemma Mv_last_ack: "socks h p = Some s \<Longrightarrow> state s = LAST_ACK \<Longrightarrow>
    Mv E snd n h (bindE (update_sock p u h) (\<lambda>h. Inr (x, free_sock p h)))"
  by (auto simp: Mv_def moves_def update_sock_def free_sock_def)

lemma mv_state_close:
  assumes "E = tcp_edge"
  shows "Mv E snd n h (tcp_state_close p pkt h)"
  unfolding tcp_state_close_def Let_def
proof (rule Mv_value)
  fix s
  assume "sock_at h p = Inr s"
  then have s: "socks h p = Some s"
    by simp
  have go: "E\<^sup>*\<^sup>* a b" if "tcp_edge a b" for a b
    using that assms by (simp add: r_into_rtranclp)
  have upd: "Mv E id n h (update_sock p (\<lambda>s. s\<lparr>state := b\<rparr>) h)" if "tcp_edge (state s) b" for b
    using s go [OF that] by (intro Mv_update) simp
  have ack: "stays n h1 h2" if "n \<le> next_ptr h1" "tcp_send_ack p h1 = Inr h2" for h1 h2
    using MvD [OF mv_control(1) that] by simp
  have est: "Mv E snd n h (bindE (update_sock p (\<lambda>s. s\<lparr>state := CLOSE_WAIT\<rparr>) h) (\<lambda>h. bindE (tcp_send_ack p h) (\<lambda>h.
      bindE (update_sock p (\<lambda>s. s\<lparr>state := LAST_ACK\<rparr>) (sleep (MSL * 2) h)) (\<lambda>h.
      bindE (tcp_send_fin_ack p h) (\<lambda>h. Inr (0, h))))))" if "state s = ESTABLISHED"
  proof (rule Mv_host [OF upd], simp add: that tcp_edge.intros, rule Mv_assume, rule Mv_host [OF mv_control(1)])
    fix h1 h2
    assume h1: "update_sock p (\<lambda>s. s\<lparr>state := CLOSE_WAIT\<rparr>) h = Inr h1" and n: "n \<le> next_ptr h1"
      and h2: "tcp_send_ack p h1 = Inr h2"
    have "stays n h1 (sleep (MSL * 2) h2)"
      using ack [OF n h2] by (simp add: moves_def sleep_def)
    moreover obtain s1 where "socks h1 p = Some s1" "state s1 = CLOSE_WAIT"
      using h1 s by (auto simp: update_sock_def)
    ultimately have last: "Mv E id n (sleep (MSL * 2) h2)
        (update_sock p (\<lambda>s. s\<lparr>state := LAST_ACK\<rparr>) (sleep (MSL * 2) h2))"
      using go [of CLOSE_WAIT LAST_ACK] by (intro Mv_update_state [of n h1 _ p s1]) (simp_all add: tcp_edge.intros)
    have "Mv E snd n (sleep (MSL * 2) h2) (bindE (update_sock p (\<lambda>s. s\<lparr>state := LAST_ACK\<rparr>) (sleep (MSL * 2) h2))
        (\<lambda>h. bindE (tcp_send_fin_ack p h) (\<lambda>h. Inr (0, h))))"
      by (intro Mv_host [OF last] Mv_host [OF mv_control(5)] Mv_refl)
    then show "Mv E snd n h2 (bindE (update_sock p (\<lambda>s. s\<lparr>state := LAST_ACK\<rparr>) (sleep (MSL * 2) h2))
        (\<lambda>h. bindE (tcp_send_fin_ack p h) (\<lambda>h. Inr (0, h))))"
      by (rule Mv_from [rotated 2]) (simp_all add: sleep_def)
  qed
  have fw2: "Mv E snd n h (bindE (tcp_send_ack p h) (\<lambda>h. bindE (update_sock p (\<lambda>s. s\<lparr>state := TIME_WAIT\<rparr>) h) (\<lambda>h.
      Inr (0, free_sock p (sleep (2 * MSL) h)))))" if "state s = FIN_WAIT_2"
  proof (rule Mv_assume, rule Mv_host [OF mv_control(1)])
    fix h1
    assume n: "n \<le> next_ptr h" and h1: "tcp_send_ack p h = Inr h1"
    have tw: "Mv E id n h1 (update_sock p (\<lambda>s. s\<lparr>state := TIME_WAIT\<rparr>) h1)"
      using ack [OF n h1] s that go [of FIN_WAIT_2 TIME_WAIT] by (intro Mv_update_state [of n h _ p s]) (simp_all add: tcp_edge.intros)
    show "Mv E snd n h1 (bindE (update_sock p (\<lambda>s. s\<lparr>state := TIME_WAIT\<rparr>) h1) (\<lambda>h. Inr (0, free_sock p (sleep (2 * MSL) h))))"
      by (rule Mv_host [OF tw], erule Mv_free) (simp_all add: free_sock_def sleep_def)
  qed
  have la: "Mv E snd n h (bindE (update_sock p (\<lambda>s. s\<lparr>state := CLOSED\<rparr>) h) (\<lambda>h. Inr (0, free_sock p h)))"
    if "state s = LAST_ACK"
    using s that by (rule Mv_last_ack)
  have fw1: "Mv E snd n h (bindE (update_sock p (\<lambda>s. s\<lparr>state := FIN_WAIT_2\<rparr>) h) (\<lambda>h. Inr (0, h)))"
    if "state s = FIN_WAIT_1"
    by (rule Mv_host [OF upd Mv_refl(2)]) (simp add: that tcp_edge.intros)
  show "Mv E snd n h (case state s of
             ESTABLISHED \<Rightarrow>
               (if get_flags pkt = FIN OR ACK then
                  bindE (update_sock p (\<lambda>s. s\<lparr>state := CLOSE_WAIT\<rparr>) h) (\<lambda>h.
                  bindE (tcp_send_ack p h) (\<lambda>h.
                       bindE (update_sock p (\<lambda>s. s\<lparr>state := LAST_ACK\<rparr>) (sleep (MSL * 2) h)) (\<lambda>h.
                       bindE (tcp_send_fin_ack p h) (\<lambda>h. Inr (0, h)))))
                else Inr (-1, h))
           | FIN_WAIT_1 \<Rightarrow>
               (if get_flags pkt = ACK then bindE (update_sock p (\<lambda>s. s\<lparr>state := FIN_WAIT_2\<rparr>) h) (\<lambda>h. Inr (0, h))
                else Inr (-1, h))
           | FIN_WAIT_2 \<Rightarrow>
               (if get_flags pkt = FIN OR ACK then
                  bindE (tcp_send_ack p h) (\<lambda>h.
                  bindE (update_sock p (\<lambda>s. s\<lparr>state := TIME_WAIT\<rparr>) h) (\<lambda>h.
                    Inr (0, free_sock p (sleep (2 * MSL) h))))
                else Inr (-1, h))
           | LAST_ACK \<Rightarrow>
               (if get_flags pkt = ACK then
                  bindE (update_sock p (\<lambda>s. s\<lparr>state := CLOSED\<rparr>) h) (\<lambda>h. Inr (0, free_sock p h))
                else Inr (-1, h))
           | _ \<Rightarrow> Inr (-1, h))"
    using est fw1 fw2 la by (cases "state s") (simp_all only: tcp_state.case Mv_refl, (intro Mv_if Mv_refl; simp)+)
qed

section \<open>Dispatch\<close>

lemma mv_dispatch: "Mv tcp_edge snd n h (onTCPPocket junk pkt h)"
proof -
  have new: "Mv tcp_edge snd n h (dispatch_new junk pkt lip rip srv h)" for lip rip srv h
    unfolding dispatch_new_def Let_def get_listen_sock_def get_connect_sock_def
    by (simp only: bindE_assoc bindE_simps)
      (intro Mv_values Mv_if mv_server mv_client tcp_edge.intros Mv_refl)
  have srv: "Mv tcp_edge snd n h (dispatch_server e pkt h)" for e h
    unfolding dispatch_server_def
    by (rule Mv_value) (intro Mv_if mv_state_close mv_packet refl)
  have cli: "Mv tcp_edge snd n h (dispatch_client new c pkt h)" if "\<And>h. Mv tcp_edge snd n h (new h)" for new c h
    unfolding dispatch_client_def
    by (rule Mv_value) (intro Mv_if Mv_values mv_state_close mv_packet that refl)
  show ?thesis
    unfolding onTCPPocket_def Let_def get_listen_sock_def get_connect_sock_def get_established_sock_def
    by (rule Mv_value, rule Mv_value, rule Mv_tuple, rule Mv_tuple, rule Mv_value, rule Mv_value)
      (simp only: bindE_assoc bindE_simps, intro Mv_values Mv_if new srv cli Mv_refl)
qed

section \<open>Events\<close>

lemma mv_bind_call: "Mv E snd n h (tcp_bind p addr h)"
  unfolding tcp_bind_def by (intro mv_rules Mv_update_same Mv_refl) simp

lemma mv_socket: "Mv E snd n h (tcp_socket j h)"
proof -
  have "next_ptr h \<le> next_ptr h'" "\<forall>q < next_ptr h. socks h' q = socks h q" if "tcp_socket j h = Inr (p, h')" for p h'
    using that
    by (auto simp: tcp_socket_def malloc_sock_def malloc_block_def malloc_def update_sock_def tcp_init_timer_def
        tcp_init_rtt_def sockqueue_init_def Let_def)
  then show ?thesis
    by (auto simp: Mv_def moves_def)
qed

lemma mv_reset: "Mv E id n h (reset_windows p h)"
  unfolding reset_windows_def by (intro Mv_values Mv_same) simp_all

lemma mv_listen:
  assumes "socks h p = Some s" "E (state s) LISTEN"
  shows "Mv E snd n h (tcp_listen p h)"
proof -
  have start: "Mv E id n h (update_sock p (\<lambda>s. s\<lparr>state := LISTEN\<rparr>) h)"
    using assms by (intro Mv_update) simp
  have rest: "Mv E snd n h1 (bindE (update_sock p (\<lambda>s. s\<lparr>listen_state := u\<rparr>) (h1\<lparr>listen_queue := q\<rparr>))
      (\<lambda>h. Inr (0, h\<lparr>is_server := True\<rparr>)))" for h1 u q
    by (rule Mv_from [of "h1\<lparr>listen_queue := q\<rparr>"], simp, simp, rule Mv_host, rule Mv_update_same, simp,
        rule Mv_same) simp_all
  show ?thesis
    unfolding tcp_listen_def Let_def by (intro Mv_host [OF start] Mv_values rest)
qed

lemma mv_connect_begin:
  assumes "socks h p = Some s" "E (state s) SYN_SENT"
  shows "Mv E id n h (tcp_connect_begin p addr h)"
proof -
  have start: "Mv E id n h (update_sock p (\<lambda>s. s\<lparr>established_remote_addr := addr, established_local_addr := loc,
      bind_addr := addr, finished_handshake := 0, state := SYN_SENT\<rparr>) h)" for loc
    using assms by (intro Mv_update) auto
  have rest: "Mv E id n h1 (bindE (sock_at (h2 h1) p) (\<lambda>s. bindE (create_packet_buf a b c d e f g (u s) i j k)
      (\<lambda>pkt. bindE (tcp_start_timer p (h2 h1)) (sendToLayer3 pkt len))))"
    if "socks (h2 h1) = socks h1" "next_ptr (h2 h1) = next_ptr h1" for h1 h2 a b c d e f g u i j k len
    by (rule Mv_from [OF that]) (intro Mv_values Mv_host [OF mv_timer(2)] mv_send)
  show ?thesis
    unfolding tcp_connect_begin_def Let_def
    by (intro Mv_host [OF start] Mv_values rest) simp_all
qed

lemma mv_connect_finish: "Mv E snd n h (tcp_connect_finish p h)"
proof -
  have reset: "Mv E snd n h (bindE (reset_windows p h1) (\<lambda>h. Inr (0, h)))"
    if "socks h1 = socks h" "next_ptr h1 = next_ptr h" for h1
    by (rule Mv_from [OF that Mv_host [OF mv_reset Mv_refl(2)]])
  show ?thesis
    unfolding tcp_connect_finish_def Let_def by (intro Mv_values reset) (simp_all add: create_send_thread_def)
qed

text \<open>\<open>tcp_accept\<close> copies the listener into memory its caller has just allocated.\<close>

lemma mv_accept_begin:
  assumes "malloc_sock junk h = (c, h1)"
  shows "Mv E id n h (tcp_accept_begin l c h1)"
  using assms by (auto simp: Mv_def moves_def malloc_sock_def malloc_def tcp_accept_begin_def copy_sock_def)

lemma mv_pop:
  assumes "n \<le> c"
  shows "Mv E snd n h (sockqueue_pop q c h)"
proof -
  have e: "Mv E snd n h (bindE (sockqueue_is_empty q h) k)" if "\<And>b. Mv E snd n h (k b)" for k :: "bool \<Rightarrow> (int \<times> host) outcome"
    using that by (rule Mv_value)
  show ?thesis
    unfolding sockqueue_pop_def
    by (intro e Mv_values Mv_if Mv_host [OF Mv_new(2) [OF assms]] Mv_refl Mv_same) simp_all
qed

lemma mv_accept_finish:
  assumes "socks h c = Some s" "state s = LISTEN" "E LISTEN ESTABLISHED"
  shows "Mv E snd n h (tcp_accept_finish j l c h)"
  unfolding tcp_accept_finish_def Let_def
proof (rule Mv_malloc_sock)
  fix h1
  assume n: "n \<le> next_ptr h" and h1: "malloc_sock (junk_sock j) h = (next_ptr h, h1)"
  have rest: "Mv E snd n h4 (bindE (reset_windows c (h4\<lparr>established_queue := q\<rparr>))
      (\<lambda>h. Inr (0, create_send_thread c h)))" for h4 q
    by (rule Mv_from [of "h4\<lparr>established_queue := q\<rparr>"], simp, simp, rule Mv_host [OF mv_reset], rule Mv_same)
      (simp_all add: create_send_thread_def)
  have set_state: "Mv E id n h2 (update_sock c (\<lambda>s. s\<lparr>established_local_addr := a, established_remote_addr := b,
      state := ESTABLISHED\<rparr>) h2)" if "sockqueue_pop (accept_queue lq) (next_ptr h) h1 = Inr (st, h2)" for lq st h2 a b
  proof -
    have "stays n h h1"
      using h1 n by (auto simp: malloc_sock_def malloc_def moves_def)
    moreover from this have "stays n h1 h2"
      using MvD [OF mv_pop [OF n] _ that] n by (simp add: moves_def)
    ultimately have "stays n h h2"
      by (rule moves_trans)
    then show ?thesis
      using assms by (intro Mv_update_state [of n h h2 c s]) (simp_all add: r_into_rtranclp)
  qed
  show "Mv E snd n h1 (bindE (sock_at h1 l) (\<lambda>lq. bindE (sockqueue_pop (accept_queue lq) (next_ptr h) h1) (\<lambda>(status, h2).
      if status < 0 then Inr (-1, h2)
      else bindE (sock_at h2 l) (\<lambda>l. bindE (sock_at h2 (next_ptr h)) (\<lambda>n.
        bindE (update_sock c (\<lambda>s. s\<lparr>established_local_addr := bind_addr l, established_remote_addr := bind_addr n,
            state := ESTABLISHED\<rparr>) h2) (\<lambda>h.
          bindE (slot (cal_hash (ip (bind_addr l)) (port (bind_addr l)) (ip (bind_addr n)) (port (bind_addr n)))) (\<lambda>_.
            bindE (reset_windows c (h\<lparr>established_queue := (established_queue h)
                (cal_hash (ip (bind_addr l)) (port (bind_addr l)) (ip (bind_addr n)) (port (bind_addr n)) := c)\<rparr>))
              (\<lambda>h. Inr (0, create_send_thread c h)))))))))"
    by (intro Mv_values Mv_pair [OF mv_pop [OF n]] Mv_if Mv_refl Mv_host [OF set_state] rest)
qed

text \<open>
  \<open>tcp_listen\<close>, \<open>tcp_connect\<close> and \<open>tcp_close\<close> do not look at the state they overwrite: the events
  are calls on a new socket, for the close on an established one. The end of \<open>tcp_accept\<close> is
  an event for the copy of a listener, the only memory it is called with.
\<close>

inductive host_event :: "host \<Rightarrow> host \<Rightarrow> bool" where
  packet: "onTCPPocket junk pkt h = Inr (r, h') \<Longrightarrow> host_event h h'"
| timeout: "tcp_check_timeout tid h = Inr h' \<Longrightarrow> host_event h h'"
| sending: "tcp_send_stream_round p h = Inr h' \<Longrightarrow> host_event h h'"
| send: "tcp_send p buffer len h = Inr (r, h') \<Longrightarrow> host_event h h'"
| recv: "tcp_recv p len h = Inr (r, dat, h') \<Longrightarrow> host_event h h'"
| new_socket: "tcp_socket j h = Inr (p, h') \<Longrightarrow> host_event h h'"
| bound: "tcp_bind p addr h = Inr (r, h') \<Longrightarrow> host_event h h'"
| listen: "tcp_listen p h = Inr (r, h') \<Longrightarrow> socks h p = Some s \<Longrightarrow> state s = CLOSED \<Longrightarrow> host_event h h'"
| accept_begin: "malloc_sock junk h = (c, h1) \<Longrightarrow> tcp_accept_begin l c h1 = Inr h' \<Longrightarrow> host_event h h'"
| accept_end: "tcp_accept_finish j l c h = Inr (r, h') \<Longrightarrow> socks h c = Some s \<Longrightarrow> state s = LISTEN \<Longrightarrow> host_event h h'"
| connect_begin: "tcp_connect_begin p addr h = Inr h' \<Longrightarrow> socks h p = Some s \<Longrightarrow> state s = CLOSED \<Longrightarrow> host_event h h'"
| connect_end: "tcp_connect_finish p h = Inr (r, h') \<Longrightarrow> host_event h h'"
| close: "tcp_close_begin p h = Inr h' \<Longrightarrow> socks h p = Some s \<Longrightarrow> state s = ESTABLISHED \<Longrightarrow> host_event h h'"
| tick: "host_event h (sleep k h)"

lemma event_moves:
  assumes "host_event h h'" "n \<le> next_ptr h"
  shows "moves tcp_edge n h h'"
  using assms(1)
proof cases
  case (packet junk pkt r)
  then show ?thesis
    using MvD [OF mv_dispatch assms(2) packet] by simp
next
  case (timeout tid)
  then show ?thesis
    using MvD [OF mv_timeout assms(2) timeout] by (simp add: tcp_edge.intros)
next
  case (sending p)
  then show ?thesis
    using MvD [OF mv_sending assms(2) sending] by simp
next
  case (send p buffer len r)
  then show ?thesis
    using MvD [OF mv_calls(1) assms(2) send] by simp
next
  case (recv p len r dat)
  then show ?thesis
    using MvD [OF mv_calls(2) assms(2) recv] by simp
next
  case (new_socket j p)
  then show ?thesis
    using MvD [OF mv_socket assms(2) new_socket] by simp
next
  case (bound p addr r)
  then show ?thesis
    using MvD [OF mv_bind_call assms(2) bound] by simp
next
  case (listen p r s)
  then show ?thesis
    using MvD [OF mv_listen assms(2) listen(1)] by (simp add: tcp_edge.intros)
next
  case (accept_begin junk c h1 l)
  then show ?thesis
    using MvD [OF mv_accept_begin assms(2) accept_begin(2)] by simp
next
  case (accept_end j l c r s)
  then show ?thesis
    using MvD [OF mv_accept_finish assms(2) accept_end(1)] by (simp add: tcp_edge.intros)
next
  case (connect_begin p addr s)
  then show ?thesis
    using MvD [OF mv_connect_begin assms(2) connect_begin(1)] by (simp add: tcp_edge.intros)
next
  case (connect_end p r)
  then show ?thesis
    using MvD [OF mv_connect_finish assms(2) connect_end] by simp
next
  case (close p s)
  then show ?thesis
    using MvD [OF mv_close_begin assms(2) close(1), of tcp_edge] by (simp add: tcp_edge.intros)
next
  case (tick k)
  then show ?thesis
    by (simp add: moves_def sleep_def)
qed

interpretation events: step_system host_event "\<lambda>h'. next_ptr h \<le> next_ptr h' \<and> moves tcp_edge (next_ptr h) h h'" for h
  by unfold_locales (use event_moves moves_trans in \<open>fastforce simp: moves_def\<close>)



end
